(* ===== verification/Prelude.thy ===== *)
theory Prelude
  imports Main "HOL-Library.Word" "HOL-Library.AList"
begin

text \<open>
  Shared vocabulary of the development.  It fixes the machine integers and byte strings of
  the Rust code, models the pieces of the Rust standard library that the sources use
  (big-endian conversion, checked and plain addition, UTF-8 validation, decimal formatting,
  hash maps, saturating \<open>Instant\<close> differences), and states the three
  interfaces the components share as locales: a fixed-width codec, a hash map and a
  transition system with an invariant.

  Conventions.  A call that may panic returns an \<open>option\<close>, with \<open>None\<close> for the panic.  A
  Rust \<open>Result<T, E>\<close> is the sum \<open>E + T\<close> with \<open>Inl\<close> for \<open>Err\<close>.  A method on \<open>&mut self\<close> takes
  the state and returns the new one next to its result, also when the result is an error.
\<close>

named_theorems wire_simps \<open>lengths and splittings of wire layouts\<close>
named_theorems inv_rules \<open>preservation facts of the state invariants\<close>

section \<open>Machine integers and byte strings\<close>

type_synonym u8 = "8 word"
type_synonym u16 = "16 word"
type_synonym u32 = "32 word"
type_synonym u64 = "64 word"
type_synonym bytes = "u8 list"

text \<open>An \<open>Instant\<close> (monotonic clock) and a \<open>Duration\<close>, both in milliseconds.\<close>

type_synonym instant = nat
type_synonym duration = nat

abbreviation secs :: "nat \<Rightarrow> duration" where
  "secs n \<equiv> n * 1000"

text \<open>\<open>later.duration_since(earlier)\<close> saturates at zero, as subtraction on \<open>nat\<close> does.\<close>

definition duration_since :: "instant \<Rightarrow> instant \<Rightarrow> duration" where
  "duration_since later earlier = later - earlier"

text \<open>\<open>checked_add\<close>, and \<open>+\<close> under the two settings of the compiler's overflow checks:
  with checks the sum panics, without them it wraps.\<close>

definition checked_add :: "'a::len word \<Rightarrow> 'a word \<Rightarrow> 'a word option" where
  "checked_add a b = (if unat a + unat b < 2 ^ LENGTH('a) then Some (a + b) else None)"

definition plain_add :: "bool \<Rightarrow> 'a::len word \<Rightarrow> 'a word \<Rightarrow> 'a word option" where
  "plain_add overflow_checks a b =
     (if overflow_checks then checked_add a b else Some (a + b))"

text \<open>\<open>to_be_bytes\<close> and \<open>from_be_bytes\<close>, over the value of the integer.\<close>

fun be_bytes :: "nat \<Rightarrow> nat \<Rightarrow> bytes" where
  "be_bytes 0 x = []"
| "be_bytes (Suc n) x = be_bytes n (x div 256) @ [of_nat (x mod 256)]"

definition be_val :: "bytes \<Rightarrow> nat" where
  "be_val bs = foldl (\<lambda>a b. a * 256 + unat b) 0 bs"

definition be16 :: "u16 \<Rightarrow> bytes" where "be16 w = be_bytes 2 (unat w)"
definition be32 :: "u32 \<Rightarrow> bytes" where "be32 w = be_bytes 4 (unat w)"
definition be64 :: "u64 \<Rightarrow> bytes" where "be64 w = be_bytes 8 (unat w)"
definition un_be16 :: "bytes \<Rightarrow> u16" where "un_be16 bs = of_nat (be_val bs)"
definition un_be32 :: "bytes \<Rightarrow> u32" where "un_be32 bs = of_nat (be_val bs)"
definition un_be64 :: "bytes \<Rightarrow> u64" where "un_be64 bs = of_nat (be_val bs)"

text \<open>\<open>buf[i..j]\<close>; every use in the sources is guarded by a length check.\<close>

definition slice_of :: "nat \<Rightarrow> nat \<Rightarrow> 'a list \<Rightarrow> 'a list" where
  "slice_of i j xs = take (j - i) (drop i xs)"

section \<open>Strings\<close>

text \<open>
  A Rust \<open>String\<close> is the sequence of its UTF-8 bytes; an Isabelle \<open>char\<close> is one byte, so
  \<open>string\<close> holds those bytes and \<open>length\<close> is \<open>str::len\<close>.
\<close>

definition as_bytes :: "string \<Rightarrow> bytes" where
  "as_bytes s = map of_char s"

definition chars_of :: "bytes \<Rightarrow> string" where
  "chars_of bs = map (\<lambda>b. char_of (unat b)) bs"

definition utf8_cont :: "u8 \<Rightarrow> bool" where
  "utf8_cont b \<longleftrightarrow> 0x80 \<le> b \<and> b \<le> 0xBF"

text \<open>The validation of \<open>std::str::from_utf8\<close>: no overlong forms, no surrogates, no code
  point above U+10FFFF.\<close>

fun utf8_valid :: "bytes \<Rightarrow> bool" where
  "utf8_valid [] = True"
| "utf8_valid (a # bs) =
     (if a < 0x80 then utf8_valid bs
      else if 0xC2 \<le> a \<and> a \<le> 0xDF then
        (case bs of b # bs' \<Rightarrow> utf8_cont b \<and> utf8_valid bs' | _ \<Rightarrow> False)
      else if 0xE0 \<le> a \<and> a \<le> 0xEF then
        (case bs of b # c # bs' \<Rightarrow>
           (if a = 0xE0 then 0xA0 \<le> b \<and> b \<le> 0xBF
            else if a = 0xED then 0x80 \<le> b \<and> b \<le> 0x9F
            else utf8_cont b) \<and> utf8_cont c \<and> utf8_valid bs'
         | _ \<Rightarrow> False)
      else if 0xF0 \<le> a \<and> a \<le> 0xF4 then
        (case bs of b # c # d # bs' \<Rightarrow>
           (if a = 0xF0 then 0x90 \<le> b \<and> b \<le> 0xBF
            else if a = 0xF4 then 0x80 \<le> b \<and> b \<le> 0x8F
            else utf8_cont b) \<and> utf8_cont c \<and> utf8_cont d \<and> utf8_valid bs'
         | _ \<Rightarrow> False)
      else False)"

definition from_utf8 :: "bytes \<Rightarrow> string option" where
  "from_utf8 bs = (if utf8_valid bs then Some (chars_of bs) else None)"

text \<open>The invariant of \<open>String\<close>: its bytes are valid UTF-8.\<close>

definition valid_str :: "string \<Rightarrow> bool" where
  "valid_str s \<longleftrightarrow> utf8_valid (as_bytes s)"

text \<open>\<open>Display\<close> of an unsigned integer.\<close>

fun show_nat :: "nat \<Rightarrow> string" where
  "show_nat n = (if n < 10 then [char_of (48 + n)]
                 else show_nat (n div 10) @ [char_of (48 + n mod 10)])"

declare show_nat.simps [simp del]

text \<open>\<open>x.try_into::<[u8; N]>()\<close>: the length has to be right.\<close>

definition to_array :: "nat \<Rightarrow> bytes \<Rightarrow> bytes option" where
  "to_array n bs = (if length bs = n then Some bs else None)"

section \<open>Hash maps\<close>

text \<open>
  A \<open>HashMap\<close> is the list of its entries, in the order an iteration would visit them
  (Rust leaves that order open).  Keys occur once.
\<close>

type_synonym ('k, 'v) hmap = "('k \<times> 'v) list"

definition hm_get :: "('k, 'v) hmap \<Rightarrow> 'k \<Rightarrow> 'v option" where
  "hm_get m k = map_of m k"

definition hm_insert :: "'k \<Rightarrow> 'v \<Rightarrow> ('k, 'v) hmap \<Rightarrow> ('k, 'v) hmap" where
  "hm_insert k v m = AList.update k v m"

definition hm_remove :: "'k \<Rightarrow> ('k, 'v) hmap \<Rightarrow> ('k, 'v) hmap" where
  "hm_remove k m = AList.delete k m"

definition hm_contains :: "('k, 'v) hmap \<Rightarrow> 'k \<Rightarrow> bool" where
  "hm_contains m k \<longleftrightarrow> hm_get m k \<noteq> None"

definition hm_keys :: "('k, 'v) hmap \<Rightarrow> 'k list" where
  "hm_keys m = map fst m"

definition hm_wf :: "('k, 'v) hmap \<Rightarrow> bool" where
  "hm_wf m \<longleftrightarrow> distinct (map fst m)"

text \<open>A \<open>HashSet\<close> as the list of its elements.\<close>

definition hs_insert :: "'a \<Rightarrow> 'a list \<Rightarrow> 'a list" where
  "hs_insert x xs = (if x \<in> set xs then xs else xs @ [x])"

definition hs_remove :: "'a \<Rightarrow> 'a list \<Rightarrow> 'a list" where
  "hs_remove x xs = filter (\<lambda>y. y \<noteq> x) xs"

section \<open>Loops that may panic\<close>

text \<open>\<open>for x in xs { .. }\<close> with a body that may panic; the body gets the number of its round.\<close>

fun for_each :: "(nat \<Rightarrow> 'a \<Rightarrow> 's \<Rightarrow> 's option) \<Rightarrow> nat \<Rightarrow> 'a list \<Rightarrow> 's \<Rightarrow> 's option" where
  "for_each body i [] s = Some s"
| "for_each body i (x # xs) s =
     (case body i x s of None \<Rightarrow> None | Some s' \<Rightarrow> for_each body (Suc i) xs s')"

section \<open>Transition systems\<close>

inductive reachable :: "('s \<Rightarrow> bool) \<Rightarrow> ('s \<Rightarrow> 's \<Rightarrow> bool) \<Rightarrow> 's \<Rightarrow> bool"
  for init :: "'s \<Rightarrow> bool" and step :: "'s \<Rightarrow> 's \<Rightarrow> bool" where
  reach_init: "init s \<Longrightarrow> reachable init step s"
| reach_step: "reachable init step s \<Longrightarrow> step s t \<Longrightarrow> reachable init step t"

section \<open>Facts about integers and bytes\<close>

lemma checked_add_Some_iff:
  "checked_add a b = Some c \<longleftrightarrow> unat a + unat b < 2 ^ LENGTH('a) \<and> c = (a::'a::len word) + b"
  by (auto simp: checked_add_def)

lemma checked_add_unat:
  "checked_add a b = Some c \<Longrightarrow> unat c = unat a + unat (b::'a::len word)"
  by (auto simp: checked_add_def unat_word_ariths split: if_splits)

lemma plain_add_fits:
  "unat a + unat b < 2 ^ LENGTH('a) \<Longrightarrow> plain_add oc a b = Some (a + b :: 'a::len word)"
  by (simp add: plain_add_def checked_add_def)

lemma unat_bound: "unat (w :: 'a::len word) < 2 ^ LENGTH('a)"
  by (rule unsigned_less)

lemma length_be_bytes [simp]: "length (be_bytes n x) = n"
  by (induction n arbitrary: x) auto

lemma be_val_Nil [simp]: "be_val [] = 0"
  by (simp add: be_val_def)

lemma be_val_snoc [simp]: "be_val (bs @ [b]) = be_val bs * 256 + unat b"
  by (simp add: be_val_def)

lemma unat_of_nat_byte [simp]: "unat (of_nat (x mod 256) :: u8) = x mod 256"
  by (simp add: unat_of_nat)

lemma be_val_be_bytes: "be_val (be_bytes n x) = x mod 256 ^ n"
proof (induction n arbitrary: x)
  case 0
  then show ?case by simp
next
  case (Suc n)
  have "be_val (be_bytes (Suc n) x) = ((x div 256) mod 256 ^ n) * 256 + x mod 256"
    by (simp add: Suc)
  also have "\<dots> = x mod 256 ^ Suc n"
    by (simp add: mod_mult2_eq [of x 256 "256 ^ n"] mult.commute)
  finally show ?case .
qed

lemma be_val_bound: "be_val bs < 256 ^ length bs"
proof (induction bs rule: rev_induct)
  case Nil
  then show ?case by simp
next
  case (snoc b bs)
  have "unat b < 256" using unat_bound [of b] by simp
  then show ?case using snoc by simp
qed

lemma be_bytes_be_val: "be_bytes (length bs) (be_val bs) = bs"
proof (induction bs rule: rev_induct)
  case Nil
  then show ?case by simp
next
  case (snoc b bs)
  have b: "unat b < 256" using unat_bound [of b] by simp
  then have "(be_val bs * 256 + unat b) div 256 = be_val bs"
    and "(be_val bs * 256 + unat b) mod 256 = unat b" by auto
  then show ?case using snoc by simp
qed

lemma be_length [simp, wire_simps]:
  "length (be16 a) = 2" "length (be32 b) = 4" "length (be64 c) = 8"
  by (simp_all add: be16_def be32_def be64_def)

lemma slice_of_length [simp]: "j \<le> length xs \<Longrightarrow> length (slice_of i j xs) = j - i"
  by (simp add: slice_of_def)

lemma slice_append_left [wire_simps]:
  "j \<le> length xs \<Longrightarrow> slice_of i j (xs @ ys) = slice_of i j xs"
  by (cases "i \<le> j") (simp_all add: slice_of_def)

lemma slice_append_right [wire_simps]:
  "length xs \<le> i \<Longrightarrow> slice_of i j (xs @ ys) = slice_of (i - length xs) (j - length xs) ys"
  by (auto simp: slice_of_def)

lemma slice_full [wire_simps]: "j = length xs \<Longrightarrow> slice_of 0 j xs = xs"
  by (simp add: slice_of_def)

lemma slice_take: "slice_of 0 j xs = take j xs"
  by (simp add: slice_of_def)

lemma slice_rebuild:
  assumes "i \<le> j" "j \<le> k"
  shows "slice_of i j xs @ slice_of j k xs = slice_of i k xs"
proof -
  from assms have "drop j xs = drop (j - i) (drop i xs)" and "k - i = (j - i) + (k - j)"
    by simp_all
  then show ?thesis by (simp add: slice_of_def take_add)
qed

lemma append_split_le:
  assumes "a @ b = p @ q" and "length a \<le> length p"
  obtains us where "p = a @ us" and "b = us @ q"
  using assms by (metis append_eq_append_conv_if append_take_drop_id)

section \<open>Fixed-width codecs\<close>

text \<open>The contract of \<open>to_be_bytes\<close> and \<open>from_be_bytes\<close> at one width.\<close>

locale fixed_codec =
  fixes enc :: "'a \<Rightarrow> bytes" and dec :: "bytes \<Rightarrow> 'a" and width :: nat
  assumes enc_length: "length (enc x) = width"
    and dec_enc: "dec (enc x) = x"
    and enc_dec: "length bs = width \<Longrightarrow> enc (dec bs) = bs"
begin

lemma read_field:
  "length pre = i \<Longrightarrow> j = i + width \<Longrightarrow> dec (slice_of i j (pre @ enc x @ post)) = x"
  by (simp add: slice_of_def enc_length dec_enc)

lemma enc_eq_iff: "enc x = enc y \<longleftrightarrow> x = y"
  by (metis dec_enc)

lemma write_back:
  "j \<le> length bs \<Longrightarrow> j = i + width \<Longrightarrow> enc (dec (slice_of i j bs)) = slice_of i j bs"
  by (rule enc_dec) simp

lemma enc_append_eq: "enc x @ r = enc y @ s \<longleftrightarrow> x = y \<and> r = s"
  by (metis append_eq_append_conv enc_length enc_eq_iff)

end

interpretation be16_codec: fixed_codec be16 un_be16 2
proof
  fix x :: u16 and bs :: bytes
  show "length (be16 x) = 2" by simp
  show "un_be16 (be16 x) = x"
    using unat_bound [of x] by (simp add: be16_def un_be16_def be_val_be_bytes)
  assume "length bs = 2"
  then show "be16 (un_be16 bs) = bs"
    using be_val_bound [of bs] be_bytes_be_val [of bs]
    by (simp add: be16_def un_be16_def unat_of_nat)
qed

interpretation be32_codec: fixed_codec be32 un_be32 4
proof
  fix x :: u32 and bs :: bytes
  show "length (be32 x) = 4" by simp
  show "un_be32 (be32 x) = x"
    using unat_bound [of x] by (simp add: be32_def un_be32_def be_val_be_bytes)
  assume "length bs = 4"
  then show "be32 (un_be32 bs) = bs"
    using be_val_bound [of bs] be_bytes_be_val [of bs]
    by (simp add: be32_def un_be32_def unat_of_nat)
qed

interpretation be64_codec: fixed_codec be64 un_be64 8
proof
  fix x :: u64 and bs :: bytes
  show "length (be64 x) = 8" by simp
  show "un_be64 (be64 x) = x"
    using unat_bound [of x] by (simp add: be64_def un_be64_def be_val_be_bytes)
  assume "length bs = 8"
  then show "be64 (un_be64 bs) = bs"
    using be_val_bound [of bs] be_bytes_be_val [of bs]
    by (simp add: be64_def un_be64_def unat_of_nat)
qed

declare be16_codec.dec_enc [simp] be32_codec.dec_enc [simp] be64_codec.dec_enc [simp]

section \<open>Facts about strings\<close>

lemma length_as_bytes [simp]: "length (as_bytes s) = length s"
  by (simp add: as_bytes_def)

lemma unat_of_char: "unat (of_char c :: u8) = (of_char c :: nat)"
proof -
  have "(of_char c :: u8) = of_nat (of_char c)" by (rule of_nat_of_char [symmetric])
  then have "unat (of_char c :: u8) = (of_char c :: nat) mod 256"
    by (simp only: unat_of_nat) simp
  then show ?thesis by (simp only: mod_less nat_of_char_less_256)
qed

lemma chars_of_as_bytes [simp]: "chars_of (as_bytes s) = s"
  by (simp add: chars_of_def as_bytes_def comp_def unat_of_char)

lemma as_bytes_chars_of [simp]: "as_bytes (chars_of bs) = bs"
proof -
  have "(of_char (char_of (unat b)) :: u8) = b" for b :: u8
  proof -
    have "(of_char (char_of (unat b)) :: u8) = of_nat (of_char (char_of (unat b)))"
      by (rule of_nat_of_char [symmetric])
    also have "\<dots> = b" using unat_bound [of b] by simp
    finally show ?thesis .
  qed
  then show ?thesis by (simp add: chars_of_def as_bytes_def comp_def)
qed

lemma as_bytes_inject [simp]: "as_bytes s = as_bytes t \<longleftrightarrow> s = t"
  by (metis chars_of_as_bytes)

lemma from_utf8_as_bytes [simp]:
  "from_utf8 (as_bytes s) = (if valid_str s then Some s else None)"
  by (simp add: from_utf8_def valid_str_def)

section \<open>Hash maps as an interface\<close>

locale hash_map =
  fixes get :: "'m \<Rightarrow> 'k \<Rightarrow> 'v option" and insert :: "'k \<Rightarrow> 'v \<Rightarrow> 'm \<Rightarrow> 'm"
    and remove :: "'k \<Rightarrow> 'm \<Rightarrow> 'm" and wf :: "'m \<Rightarrow> bool"
  assumes get_insert: "get (insert k v m) k' = (if k' = k then Some v else get m k')"
    and get_remove: "get (remove k m) k' = (if k' = k then None else get m k')"
    and wf_insert: "wf m \<Longrightarrow> wf (insert k v m)"
    and wf_remove: "wf m \<Longrightarrow> wf (remove k m)"
begin

lemma get_remove_all: "get (fold remove ks m) k = (if k \<in> set ks then None else get m k)"
  by (induction ks arbitrary: m) (auto simp: get_remove)

lemma wf_remove_all: "wf m \<Longrightarrow> wf (fold remove ks m)"
  by (induction ks arbitrary: m) (auto simp: wf_remove)

lemma insert_keeps_all:
  "(\<forall>k v. get m k = Some v \<longrightarrow> P k v) \<Longrightarrow> P k0 v0 \<Longrightarrow>
   get (insert k0 v0 m) k = Some v \<Longrightarrow> P k v"
  by (auto simp: get_insert split: if_splits)

lemma remove_keeps_all:
  "(\<forall>k v. get m k = Some v \<longrightarrow> P k v) \<Longrightarrow> get (remove k0 m) k = Some v \<Longrightarrow> P k v"
  by (auto simp: get_remove split: if_splits)

end

interpretation hm: hash_map hm_get hm_insert hm_remove hm_wf
proof
  fix k k' :: 'a and v :: 'b and m :: "('a, 'b) hmap"
  show "hm_get (hm_insert k v m) k' = (if k' = k then Some v else hm_get m k')"
    by (simp add: hm_get_def hm_insert_def update_conv)
  show "hm_get (hm_remove k m) k' = (if k' = k then None else hm_get m k')"
    by (simp add: hm_get_def hm_remove_def delete_conv)
  show "hm_wf m \<Longrightarrow> hm_wf (hm_insert k v m)"
    by (simp add: hm_wf_def hm_insert_def distinct_update)
  show "hm_wf m \<Longrightarrow> hm_wf (hm_remove k m)"
    by (simp add: hm_wf_def hm_remove_def distinct_delete)
qed

declare hm.get_insert [simp] hm.get_remove [simp]
declare hm.wf_insert [simp, intro] hm.wf_remove [simp, intro]

lemma hm_get_Nil [simp]: "hm_get [] k = None"
  by (simp add: hm_get_def)

lemma hm_wf_Nil [simp]: "hm_wf []"
  by (simp add: hm_wf_def)

lemma hm_contains_simps [simp]:
  "\<not> hm_contains [] k"
  "hm_contains (hm_insert k v m) k' \<longleftrightarrow> k' = k \<or> hm_contains m k'"
  "hm_contains (hm_remove k m) k' \<longleftrightarrow> k' \<noteq> k \<and> hm_contains m k'"
  by (auto simp: hm_contains_def)

lemma hm_get_entry: "hm_wf m \<Longrightarrow> (k, v) \<in> set m \<longleftrightarrow> hm_get m k = Some v"
  by (simp add: hm_wf_def hm_get_def)

lemma hm_get_in: "hm_get m k = Some v \<Longrightarrow> (k, v) \<in> set m"
  by (simp add: hm_get_def map_of_SomeD)

lemma hm_keys_set: "set (hm_keys m) = {k. hm_contains m k}"
  unfolding hm_keys_def hm_contains_def hm_get_def
  by (metis (no_types, lifting) dom_def dom_map_of_conv_image_fst image_set mem_Collect_eq
      subsetI subset_antisym)

lemma hs_simps [simp]:
  "set (hs_insert x xs) = insert x (set xs)" "set (hs_remove x xs) = set xs - {x}"
  "distinct xs \<Longrightarrow> distinct (hs_insert x xs)" "distinct xs \<Longrightarrow> distinct (hs_remove x xs)"
  by (auto simp: hs_insert_def hs_remove_def)

section \<open>Invariants of transition systems\<close>

locale invariant_system =
  fixes init :: "'s \<Rightarrow> bool" and step :: "'s \<Rightarrow> 's \<Rightarrow> bool" and inv :: "'s \<Rightarrow> bool"
  assumes init_inv: "init s \<Longrightarrow> inv s"
    and step_inv: "inv s \<Longrightarrow> step s t \<Longrightarrow> inv t"
begin

lemma reachable_inv: "reachable init step s \<Longrightarrow> inv s"
  by (induction rule: reachable.induct) (auto intro: init_inv step_inv)

lemma reachable_step_inv: "reachable init step s \<Longrightarrow> step s t \<Longrightarrow> inv s \<and> inv t"
  by (auto intro: reachable_inv reachable.reach_step)

end

lemma for_each_keeps:
  assumes "for_each body i xs s = Some t" and "P s"
    and "\<And>i x s s'. x \<in> set xs \<Longrightarrow> P s \<Longrightarrow> body i x s = Some s' \<Longrightarrow> P s'"
  shows "P t"
  using assms
proof (induction xs arbitrary: i s)
  case Nil
  then show ?case by simp
next
  case (Cons x xs)
  from Cons.prems(1) obtain s' where s': "body i x s = Some s'" "for_each body (Suc i) xs s' = Some t"
    by (auto split: option.splits)
  have "P s'" by (rule Cons.prems(3) [OF _ Cons.prems(2) s'(1)]) simp
  then show ?case by (rule Cons.IH [OF s'(2)]) (use Cons.prems(3) in auto)
qed

lemma for_each_total:
  assumes "P s" and "\<And>i x s. x \<in> set xs \<Longrightarrow> P s \<Longrightarrow> \<exists>s'. body i x s = Some s' \<and> P s'"
  shows "\<exists>t. for_each body i xs s = Some t \<and> P t"
  using assms
proof (induction xs arbitrary: i s)
  case Nil
  then show ?case by simp
next
  case (Cons x xs)
  obtain s' where s': "body i x s = Some s'" "P s'"
    using Cons.prems(2) [OF _ Cons.prems(1), of x i] by auto
  have "\<exists>t. for_each body (Suc i) xs s' = Some t \<and> P t"
    by (rule Cons.IH [OF s'(2)]) (use Cons.prems(2) in auto)
  then obtain t where "for_each body (Suc i) xs s' = Some t \<and> P t" by blast
  then show ?case using s' by auto
qed

section \<open>Refinement of an abstract specification\<close>

fun run_ops :: "('o \<Rightarrow> 's \<Rightarrow> 's \<Rightarrow> bool) \<Rightarrow> 'o list \<Rightarrow> 's \<Rightarrow> 's \<Rightarrow> bool" where
  "run_ops step [] s t \<longleftrightarrow> t = s"
| "run_ops step (op # ops) s t \<longleftrightarrow> (\<exists>u. step op s u \<and> run_ops step ops u t)"

text \<open>Every operation amounts to one of the abstract changes it is allowed to make.\<close>

locale change_refinement =
  fixes step :: "'o \<Rightarrow> 's \<Rightarrow> 's \<Rightarrow> bool" and abs :: "'s \<Rightarrow> 'a"
    and change :: "'l \<Rightarrow> 'a \<Rightarrow> 'a" and allowed :: "'o \<Rightarrow> 'l \<Rightarrow> bool"
  assumes refines: "step op s t \<Longrightarrow> \<exists>l. allowed op l \<and> abs t = change l (abs s)"
begin

lemma run_refines:
  "run_ops step ops s t \<Longrightarrow> \<exists>ls. list_all2 allowed ops ls \<and> abs t = fold change ls (abs s)"
proof (induction ops arbitrary: s)
  case Nil
  then show ?case by simp
next
  case (Cons op ops)
  then obtain u where u: "step op s u" "run_ops step ops u t" by auto
  obtain l where l: "allowed op l" "abs u = change l (abs s)" using refines [OF u(1)] by blast
  obtain ls where "list_all2 allowed ops ls" "abs t = fold change ls (abs u)" using Cons.IH [OF u(2)] by blast
  then have "list_all2 allowed (op # ops) (l # ls) \<and> abs t = fold change (l # ls) (abs s)" using l by simp
  then show ?case by blast
qed

lemma run_keeps:
  assumes run: "run_ops step ops s t" and P: "P (abs s)"
    and keeps: "\<And>op l a. op \<in> set ops \<Longrightarrow> allowed op l \<Longrightarrow> P a \<Longrightarrow> P (change l a)"
  shows "P (abs t)"
  using run P keeps
proof (induction ops arbitrary: s)
  case Nil
  then show ?case by simp
next
  case (Cons op ops)
  then obtain u where u: "step op s u" "run_ops step ops u t" by auto
  obtain l where "allowed op l" "abs u = change l (abs s)" using refines [OF u(1)] by blast
  then have "P (abs u)" using Cons.prems(2) Cons.prems(3) [of op l] by simp
  then show ?case by (rule Cons.IH [OF u(2)]) (use Cons.prems(3) in auto)
qed

end

end
