(* ===== verification/Framing.thy ===== *)
theory Framing
  imports Prelude
begin

text \<open>
  \<open>src/framing.rs\<close>: the versioned wire frames.  \<open>encode\<close> and \<open>decode\<close> are translated
  check by check, and the codec is characterised completely: \<open>decode\<close> returns a frame
  exactly on the buffers that start with the encoding of a well-formed frame, it asks for
  more bytes exactly on the proper prefixes a longer buffer could still complete, and
  every other verdict is final.  The last section states that contract as a locale, which
  the connection handler relies on.
\<close>

section \<open>Constants and types\<close>

definition MAGIC :: bytes where "MAGIC = [0x4A, 0x47]"
definition VERSION :: u8 where "VERSION = 1"
definition MAX_PAYLOAD :: nat where "MAX_PAYLOAD = 65536"
definition HEADER_LEN :: nat where "HEADER_LEN = 2 + 1 + 1 + 1 + 16 + 4 + 8 + 4"

datatype message_type =
  Hello | KemOffer | KemResponse | Auth | Ready | Message | Ack | Error | Control

fun message_type_u8 :: "message_type \<Rightarrow> u8" where
  "message_type_u8 Hello = 1"
| "message_type_u8 KemOffer = 2"
| "message_type_u8 KemResponse = 3"
| "message_type_u8 Auth = 4"
| "message_type_u8 Ready = 5"
| "message_type_u8 Message = 6"
| "message_type_u8 Ack = 7"
| "message_type_u8 Error = 8"
| "message_type_u8 Control = 9"

definition from_u8 :: "u8 \<Rightarrow> message_type option" where
  "from_u8 v =
     (if v = 1 then Some Hello
      else if v = 2 then Some KemOffer
      else if v = 3 then Some KemResponse
      else if v = 4 then Some Auth
      else if v = 5 then Some Ready
      else if v = 6 then Some Message
      else if v = 7 then Some Ack
      else if v = 8 then Some Error
      else if v = 9 then Some Control
      else None)"

text \<open>The derived \<open>Debug\<close> rendering, used in error messages.\<close>

fun message_type_debug :: "message_type \<Rightarrow> string" where
  "message_type_debug Hello = ''Hello''"
| "message_type_debug KemOffer = ''KemOffer''"
| "message_type_debug KemResponse = ''KemResponse''"
| "message_type_debug Auth = ''Auth''"
| "message_type_debug Ready = ''Ready''"
| "message_type_debug Message = ''Message''"
| "message_type_debug Ack = ''Ack''"
| "message_type_debug Error = ''Error''"
| "message_type_debug Control = ''Control''"

record frame =
  fr_msg_type :: message_type
  fr_flags :: u8
  fr_session_id :: bytes
  fr_seq :: u32
  fr_msg_id :: u64
  fr_payload :: bytes

definition zero16 :: bytes where "zero16 = replicate 16 0"

text \<open>\<open>Frame::handshake\<close>.\<close>

definition frame_handshake :: "message_type \<Rightarrow> bytes \<Rightarrow> frame" where
  "frame_handshake t p =
     \<lparr>fr_msg_type = t, fr_flags = 0, fr_session_id = zero16, fr_seq = 0, fr_msg_id = 0,
      fr_payload = p\<rparr>"

definition is_session_frame :: "frame \<Rightarrow> bool" where
  "is_session_frame f \<longleftrightarrow> fr_msg_type f = Message \<or> fr_msg_type f = Ack \<or> fr_msg_type f = Control"

datatype frame_error =
    BadMagic
  | UnsupportedVersion u8
  | UnknownType u8
  | ReservedFlags u8
  | PayloadTooLarge nat
  | Truncated
  | SessionFieldsOnHandshakeFrame
  | HandshakeFieldsOnSessionFrame

text \<open>The \<open>{:#x}\<close> format of a byte.\<close>

definition hex_digit :: "nat \<Rightarrow> char" where
  "hex_digit n = ''0123456789abcdef'' ! n"

definition show_hex :: "u8 \<Rightarrow> string" where
  "show_hex b = ''0x'' @ (if unat b < 16 then [] else [hex_digit (unat b div 16)]) @
     [hex_digit (unat b mod 16)]"

fun frame_error_display :: "frame_error \<Rightarrow> string" where
  "frame_error_display BadMagic = ''bad magic''"
| "frame_error_display (UnsupportedVersion v) = ''unsupported protocol version '' @ show_nat (unat v)"
| "frame_error_display (UnknownType t) = ''unknown message type '' @ show_nat (unat t)"
| "frame_error_display (ReservedFlags fl) = ''reserved flags set: '' @ show_hex fl"
| "frame_error_display (PayloadTooLarge n) = ''payload too large: '' @ show_nat n"
| "frame_error_display Truncated = ''truncated frame''"
| "frame_error_display SessionFieldsOnHandshakeFrame = ''session fields on handshake frame''"
| "frame_error_display HandshakeFieldsOnSessionFrame = ''handshake fields on session frame''"

section \<open>Encoding and decoding\<close>

text \<open>\<open>payload.len() as u32\<close> keeps the low 32 bits, as \<open>of_nat\<close> does.\<close>

definition encode :: "frame \<Rightarrow> bytes" where
  "encode f =
     MAGIC @ [VERSION] @ [message_type_u8 (fr_msg_type f)] @ [fr_flags f] @
     fr_session_id f @ be32 (fr_seq f) @ be64 (fr_msg_id f) @
     be32 (of_nat (length (fr_payload f))) @ fr_payload f"

text \<open>The types \<open>decode\<close> treats as handshake frames (its \<open>is_hs\<close>).\<close>

definition is_hs :: "message_type \<Rightarrow> bool" where
  "is_hs t \<longleftrightarrow> t \<in> {Hello, KemOffer, KemResponse, Auth, Ready, Error}"

definition decode :: "bytes \<Rightarrow> frame_error + frame" where
  "decode buf =
     (if length buf < HEADER_LEN then Inl Truncated
      else if buf ! 0 \<noteq> MAGIC ! 0 \<or> buf ! 1 \<noteq> MAGIC ! 1 then Inl BadMagic
      else if buf ! 2 \<noteq> VERSION then Inl (UnsupportedVersion (buf ! 2))
      else case from_u8 (buf ! 3) of
        None \<Rightarrow> Inl (UnknownType (buf ! 3))
      | Some t \<Rightarrow>
          (let flags = buf ! 4 in
           if flags \<noteq> 0 then Inl (ReservedFlags flags)
           else
             (let sid = slice_of 5 21 buf;
                  sq = un_be32 (slice_of 21 25 buf);
                  mid = un_be64 (slice_of 25 33 buf);
                  payload_len = unat (un_be32 (slice_of 33 37 buf)) in
              if payload_len > MAX_PAYLOAD then Inl (PayloadTooLarge payload_len)
              else if length buf < HEADER_LEN + payload_len then Inl Truncated
              else
                (let pay = slice_of HEADER_LEN (HEADER_LEN + payload_len) buf in
                 if is_hs t then
                   (if sid \<noteq> zero16 \<or> sq \<noteq> 0 \<or> mid \<noteq> 0
                    then Inl SessionFieldsOnHandshakeFrame
                    else Inr \<lparr>fr_msg_type = t, fr_flags = flags, fr_session_id = sid,
                              fr_seq = sq, fr_msg_id = mid, fr_payload = pay\<rparr>)
                 else if sid = zero16 then Inl HandshakeFieldsOnSessionFrame
                 else Inr \<lparr>fr_msg_type = t, fr_flags = flags, fr_session_id = sid,
                           fr_seq = sq, fr_msg_id = mid, fr_payload = pay\<rparr>))))"

text \<open>The frames the decoder accepts.\<close>

definition wf_frame :: "frame \<Rightarrow> bool" where
  "wf_frame f \<longleftrightarrow>
     fr_flags f = 0 \<and> length (fr_session_id f) = 16 \<and> length (fr_payload f) \<le> MAX_PAYLOAD \<and>
     (if is_hs (fr_msg_type f)
      then fr_session_id f = zero16 \<and> fr_seq f = 0 \<and> fr_msg_id f = 0
      else fr_session_id f \<noteq> zero16)"

section \<open>Message types\<close>

lemma from_u8_u8 [simp]: "from_u8 (message_type_u8 t) = Some t"
  by (cases t) (simp_all add: from_u8_def)

lemma from_u8_Some: "from_u8 v = Some t \<longleftrightarrow> v = message_type_u8 t"
  by (cases t) (auto simp: from_u8_def)

lemma is_session_frame_iff: "is_session_frame f \<longleftrightarrow> \<not> is_hs (fr_msg_type f)"
  by (cases "fr_msg_type f") (auto simp: is_session_frame_def is_hs_def)

section \<open>The layout of the header\<close>

lemma length_zero16 [simp]: "length zero16 = 16"
  by (simp add: zero16_def)

lemma header_len [simp]: "HEADER_LEN = 37"
  by (simp add: HEADER_LEN_def)

lemma magic_bytes [simp]: "MAGIC ! 0 = 0x4A" "MAGIC ! Suc 0 = 0x47" "length MAGIC = 2"
  by (simp_all add: MAGIC_def)

text \<open>The fixed header as a function of its fields.\<close>

definition header :: "message_type \<Rightarrow> u8 \<Rightarrow> bytes \<Rightarrow> u32 \<Rightarrow> u64 \<Rightarrow> u32 \<Rightarrow> bytes" where
  "header t fl sid sq mid n =
     [0x4A, 0x47, VERSION, message_type_u8 t, fl] @ sid @ be32 sq @ be64 mid @ be32 n"

lemma length_header [simp]: "length sid = 16 \<Longrightarrow> length (header t fl sid sq mid n) = 37"
  by (simp add: header_def)

lemma encode_header:
  "encode f = header (fr_msg_type f) (fr_flags f) (fr_session_id f) (fr_seq f) (fr_msg_id f)
                (of_nat (length (fr_payload f))) @ fr_payload f"
  by (simp add: encode_def header_def MAGIC_def)

lemma header_fields:
  assumes "length sid = 16"
  shows "(header t fl sid sq mid n @ r) ! 0 = 0x4A" "(header t fl sid sq mid n @ r) ! Suc 0 = 0x47"
    "(header t fl sid sq mid n @ r) ! 2 = VERSION"
    "(header t fl sid sq mid n @ r) ! 3 = message_type_u8 t"
    "(header t fl sid sq mid n @ r) ! 4 = fl"
    "slice_of 5 21 (header t fl sid sq mid n @ r) = sid"
    "un_be32 (slice_of 21 25 (header t fl sid sq mid n @ r)) = sq"
    "un_be64 (slice_of 25 33 (header t fl sid sq mid n @ r)) = mid"
    "un_be32 (slice_of 33 37 (header t fl sid sq mid n @ r)) = n"
    "slice_of 37 (37 + k) (header t fl sid sq mid n @ r) = take k r"
proof -
  let ?p = "[0x4A, 0x47, VERSION, message_type_u8 t, fl]"
  show "slice_of 5 21 (header t fl sid sq mid n @ r) = sid"
    using assms by (simp add: header_def slice_of_def)
  have "header t fl sid sq mid n @ r = (?p @ sid) @ be32 sq @ (be64 mid @ be32 n @ r)"
    by (simp add: header_def)
  then show "un_be32 (slice_of 21 25 (header t fl sid sq mid n @ r)) = sq"
    by (simp only:) (rule be32_codec.read_field; simp add: assms)
  have "header t fl sid sq mid n @ r = (?p @ sid @ be32 sq) @ be64 mid @ (be32 n @ r)"
    by (simp add: header_def)
  then show "un_be64 (slice_of 25 33 (header t fl sid sq mid n @ r)) = mid"
    by (simp only:) (rule be64_codec.read_field; simp add: assms)
  have "header t fl sid sq mid n @ r = (?p @ sid @ be32 sq @ be64 mid) @ be32 n @ r"
    by (simp add: header_def)
  then show "un_be32 (slice_of 33 37 (header t fl sid sq mid n @ r)) = n"
    by (simp only:) (rule be32_codec.read_field; simp add: assms)
  show "slice_of 37 (37 + k) (header t fl sid sq mid n @ r) = take k r"
    using assms by (simp add: slice_of_def)
qed (simp_all add: header_def)

text \<open>Every buffer with a complete header, the right magic, version and a known type is
  such a header followed by the rest.\<close>

lemma header_rebuild:
  assumes len: "37 \<le> length buf"
    and fix_: "buf ! 0 = 0x4A" "buf ! 1 = 0x47" "buf ! 2 = VERSION" "buf ! 3 = message_type_u8 t"
  shows "buf = header t (buf ! 4) (slice_of 5 21 buf) (un_be32 (slice_of 21 25 buf))
                 (un_be64 (slice_of 25 33 buf)) (un_be32 (slice_of 33 37 buf)) @ drop 37 buf"
proof -
  have "take 5 buf = map (nth buf) [0..<5]"
    using len by (simp add: list_eq_iff_nth_eq)
  moreover have "[0..<5] = [0, 1, 2, 3, 4::nat]" by (simp add: upt_rec numeral_eq_Suc)
  ultimately have five: "take 5 buf = [0x4A, 0x47, VERSION, message_type_u8 t, buf ! 4]"
    using fix_ by simp
  have "slice_of 5 21 buf @ slice_of 21 25 buf @ slice_of 25 33 buf @ slice_of 33 37 buf
        = slice_of 5 37 buf"
    by (simp add: slice_rebuild)
  moreover have "be32 (un_be32 (slice_of 21 25 buf)) = slice_of 21 25 buf"
    "be64 (un_be64 (slice_of 25 33 buf)) = slice_of 25 33 buf"
    "be32 (un_be32 (slice_of 33 37 buf)) = slice_of 33 37 buf"
    using len by (simp_all add: be32_codec.write_back be64_codec.write_back)
  moreover have "buf = take 5 buf @ slice_of 5 37 buf @ drop 37 buf"
    using slice_rebuild [of 0 5 37 buf] append_take_drop_id [of 37 buf]
    by (simp add: slice_take flip: append_assoc)
  ultimately show ?thesis
    unfolding header_def using five by (metis append.assoc)
qed

section \<open>What the decoder accepts\<close>

lemma decode_header:
  assumes "length sid = 16"
  shows "decode (header t fl sid sq mid n @ r) =
     (if fl \<noteq> 0 then Inl (ReservedFlags fl)
      else if unat n > MAX_PAYLOAD then Inl (PayloadTooLarge (unat n))
      else if length r < unat n then Inl Truncated
      else if is_hs t then
        (if sid \<noteq> zero16 \<or> sq \<noteq> 0 \<or> mid \<noteq> 0 then Inl SessionFieldsOnHandshakeFrame
         else Inr \<lparr>fr_msg_type = t, fr_flags = fl, fr_session_id = sid, fr_seq = sq,
                   fr_msg_id = mid, fr_payload = take (unat n) r\<rparr>)
      else if sid = zero16 then Inl HandshakeFieldsOnSessionFrame
      else Inr \<lparr>fr_msg_type = t, fr_flags = fl, fr_session_id = sid, fr_seq = sq,
                fr_msg_id = mid, fr_payload = take (unat n) r\<rparr>)"
  by (simp add: decode_def Let_def header_fields [OF assms] assms)

lemma decode_Inr_header:
  assumes "decode buf = Inr f"
  shows "\<exists>t fl sid sq mid n. length sid = 16 \<and> buf = header t fl sid sq mid n @ drop 37 buf"
proof -
  from assms obtain t where
    "37 \<le> length buf" "buf ! 0 = 0x4A" "buf ! 1 = 0x47" "buf ! 2 = VERSION"
    "buf ! 3 = message_type_u8 t"
    by (auto simp: decode_def Let_def from_u8_Some split: if_splits option.splits)
  moreover from this(1) have "length (slice_of 5 21 buf) = 16" by simp
  ultimately show ?thesis using header_rebuild by blast
qed

lemma payload_len_word:
  "length p \<le> MAX_PAYLOAD \<Longrightarrow> unat (of_nat (length p) :: u32) = length p"
  by (simp add: MAX_PAYLOAD_def unat_of_nat)

lemma decode_encode_rest: "wf_frame f \<Longrightarrow> decode (encode f @ rest) = Inr f"
  by (cases f) (auto simp: wf_frame_def encode_header decode_header payload_len_word
      split: if_splits)

lemma decode_Inr_encode:
  assumes "decode buf = Inr f"
  shows "wf_frame f \<and> (\<exists>rest. buf = encode f @ rest)"
proof -
  from decode_Inr_header [OF assms] obtain t fl sid sq mid n where sid: "length sid = 16"
    and buf: "buf = header t fl sid sq mid n @ drop 37 buf" by blast
  let ?r = "drop 37 buf"
  from assms buf sid have *: "decode (header t fl sid sq mid n @ ?r) = Inr f" by simp
  then have fl: "fl = 0" and n: "unat n \<le> MAX_PAYLOAD" "unat n \<le> length ?r"
    and f: "f = \<lparr>fr_msg_type = t, fr_flags = fl, fr_session_id = sid, fr_seq = sq,
              fr_msg_id = mid, fr_payload = take (unat n) ?r\<rparr>"
    and hs: "if is_hs t then sid = zero16 \<and> sq = 0 \<and> mid = 0 else sid \<noteq> zero16"
    by (auto simp: decode_header [OF sid] split: if_splits)
  have len: "length (fr_payload f) = unat n" using n f by simp
  have "encode f = header t fl sid sq mid n @ take (unat n) ?r"
    unfolding encode_header len by (simp add: f)
  then have "encode f @ drop (unat n) ?r = buf"
    using buf append_take_drop_id [of "unat n" ?r] by (metis append.assoc)
  moreover have "wf_frame f" using f fl sid len n hs by (simp add: wf_frame_def)
  ultimately show ?thesis by metis
qed

text \<open>C15. \<open>decode\<close> accepts a buffer exactly when the buffer starts with the encoding of a
  well-formed frame, and then returns that very frame whatever bytes follow it.  Soundness
  and completeness of the wire codec in one equivalence: the round trip holds with arbitrary
  trailing bytes, and nothing else is ever accepted.\<close>

theorem decode_iff_encode:
  "decode buf = Inr f \<longleftrightarrow> wf_frame f \<and> (\<exists>rest. buf = encode f @ rest)"
  by (metis decode_encode_rest decode_Inr_encode)

section \<open>Incomplete buffers and final verdicts\<close>

lemma decode_Truncated_bound: "decode buf = Inl Truncated \<Longrightarrow> length buf < HEADER_LEN + MAX_PAYLOAD"
  by (auto simp: decode_def Let_def split: if_splits option.splits)

lemma length_encode [simp]: "wf_frame f \<Longrightarrow> length (encode f) = HEADER_LEN + length (fr_payload f)"
  by (simp add: wf_frame_def encode_header)

lemma decode_proper_prefix:
  assumes wf: "wf_frame f" and enc: "encode f = p @ q" and q: "q \<noteq> []"
  shows "decode p = Inl Truncated"
proof (cases "length p < HEADER_LEN")
  case True
  then show ?thesis by (simp add: decode_def)
next
  case False
  let ?h = "header (fr_msg_type f) (fr_flags f) (fr_session_id f) (fr_seq f) (fr_msg_id f)
              (of_nat (length (fr_payload f)))"
  from wf have sid: "length (fr_session_id f) = 16" and fl: "fr_flags f = 0"
    and len: "length (fr_payload f) \<le> MAX_PAYLOAD" by (simp_all add: wf_frame_def)
  from enc have "?h @ fr_payload f = p @ q" by (simp add: encode_header)
  then obtain us where p: "p = ?h @ us" and pay: "fr_payload f = us @ q"
    by (rule append_split_le) (use False sid in simp_all)
  show ?thesis
    unfolding p using fl len q payload_len_word [OF len] by (simp add: decode_header [OF sid] pay)
qed

lemma decode_final:
  assumes "decode buf \<noteq> Inl Truncated"
  shows "decode (buf @ later) = decode buf"
proof -
  from assms have len: "37 \<le> length buf"
    by (auto simp: decode_def split: if_splits)
  then have nth: "(buf @ later) ! i = buf ! i" if "i < 37" for i
    using that by (simp add: nth_append)
  from len have sl: "slice_of i j (buf @ later) = slice_of i j buf" if "j \<le> 37" for i j
    using that by (simp add: slice_append_left)
  show ?thesis
    using assms len
    by (auto simp: decode_def Let_def nth sl slice_append_left split: option.splits)
qed

text \<open>Incremental decoding is sound: every proper prefix of the encoding of a well-formed
  frame is reported as incomplete, and a verdict other than \<open>Truncated\<close> (a frame or a protocol
  error) never changes when further bytes arrive.  A reader may therefore decode as soon as
  bytes come in.\<close>

theorem decode_incremental:
  assumes "wf_frame f" and "encode f = p @ q" and "q \<noteq> []"
    and "decode buf \<noteq> Inl Truncated"
  shows "decode p = Inl Truncated \<and> decode (buf @ later) = decode buf"
  using assms decode_proper_prefix decode_final by blast

lemma wf_frame_handshake:
  "is_hs t \<Longrightarrow> length p \<le> MAX_PAYLOAD \<Longrightarrow> wf_frame (frame_handshake t p)"
  by (simp add: wf_frame_def frame_handshake_def)

theorem decode_incremental_witness:
  "decode (take 38 (encode (frame_handshake Hello [1, 2, 3]))) = Inl Truncated \<and>
   decode (replicate 37 0 @ [5]) = Inl BadMagic"
proof -
  let ?f = "frame_handshake Hello [1, 2, 3]"
  have wf: "wf_frame ?f" by (rule wf_frame_handshake) (simp_all add: is_hs_def MAX_PAYLOAD_def)
  have drop: "drop 38 (encode ?f) \<noteq> []" using wf by (simp add: frame_handshake_def)
  have bad: "decode (replicate 37 0) = Inl BadMagic" by (simp add: decode_def MAGIC_def)
  show ?thesis
    using decode_incremental [OF wf append_take_drop_id [symmetric] drop, of "replicate 37 0" "[5]"]
      bad by simp
qed

section \<open>The codec as an interface\<close>

text \<open>
  What a reader of a byte stream needs from a framing layer: complete encodings decode to
  their frame whatever follows, proper prefixes ask for more, encodings are not empty.
\<close>

locale stream_codec =
  fixes enc :: "'f \<Rightarrow> 'b list" and dec :: "'b list \<Rightarrow> 'e + 'f" and need_more :: 'e
    and valid :: "'f \<Rightarrow> bool"
  assumes dec_complete: "valid f \<Longrightarrow> dec (enc f @ rest) = Inr f"
    and dec_partial: "valid f \<Longrightarrow> enc f = p @ q \<Longrightarrow> q \<noteq> [] \<Longrightarrow> dec p = Inl need_more"
    and enc_nonempty: "valid f \<Longrightarrow> enc f \<noteq> []"
begin

text \<open>A buffer that is a prefix of a stream of encodings either holds its first frame
  completely, or is reported as incomplete.\<close>

lemma first_frame:
  assumes "valid f" and "buf @ later = enc f @ concat (map enc fs)"
  shows "(\<exists>rest. buf = enc f @ rest \<and> dec buf = Inr f) \<or>
         (dec buf = Inl need_more \<and> length buf < length (enc f))"
proof (cases "length (enc f) \<le> length buf")
  case True
  with assms(2) obtain rest where "buf = enc f @ rest"
    by (metis append_eq_append_conv_if append_take_drop_id)
  then show ?thesis using dec_complete [OF assms(1)] by simp
next
  case False
  with assms(2) obtain q where "enc f = buf @ q" "q \<noteq> []"
    by (metis append_Nil2 append_eq_append_conv_if append_take_drop_id nat_le_linear order_refl)
  with assms(1) False show ?thesis by (auto dest: dec_partial)
qed

end

interpretation frames: stream_codec encode decode Truncated wf_frame
proof
  fix f :: frame and rest p q :: bytes
  assume wf: "wf_frame f"
  show "decode (encode f @ rest) = Inr f" using wf by (rule decode_encode_rest)
  show "encode f = p @ q \<Longrightarrow> q \<noteq> [] \<Longrightarrow> decode p = Inl Truncated"
    using wf by (rule decode_proper_prefix)
  show "encode f \<noteq> []" by (simp add: encode_header header_def)
qed

end
