(* ===== verification/Crates.thy ===== *)
theory Crates
  imports Prelude
begin

text \<open>
  The third-party crates the program calls, as parameters of the model: a record of the
  functions the sources use, with the types those crates document.  Nothing is assumed
  about them here.  What a theorem needs of a crate is one of the named predicates
  of the second section, and stands in the theorem as a hypothesis.  Values of
  opaque crate types are wrapped byte strings; entropy drawn from the
  operating system is an explicit argument of the calls that draw it.

  The last section gives one concrete instance of the record that satisfies all the
  predicates at once, so that no theorem of the development rests on
  contradictory hypotheses.
\<close>

section \<open>Opaque types\<close>

datatype peer_id = PeerId bytes
datatype decaps_key = DecapsKey bytes
datatype signing_key = SigningKey bytes
datatype verifying_key = VerifyingKey bytes
datatype mldsa_signature = MldsaSignature bytes
datatype keypair = Keypair bytes

text \<open>\<open>std::net::IpAddr\<close>, and a libp2p multiaddress as the sequence of protocols
  that \<open>Multiaddr::iter\<close> yields.\<close>

datatype ip_addr = V4 "32 word" | V6 "128 word"

datatype protocol =
  Ip4 "32 word" | Ip6 "128 word" | Tcp u16 | P2p peer_id | P2pCircuit | OtherProtocol string

datatype multiaddr = Multiaddr (ma_iter: "protocol list")

type_synonym entropy = bytes
type_synonym connection_id = nat
type_synonym query_id = nat

section \<open>The record of crate functions\<close>

text \<open>The first fields are settings of the compilation: whether integer overflow and
  \<open>debug_assert!\<close> panic, and the width of \<open>usize\<close> in bytes.\<close>

record crates =
  overflow_checks :: bool
  debug_assertions :: bool
  usize_bytes :: nat
  sha256_digest :: "bytes \<Rightarrow> bytes"
  mlkem_generate :: "entropy \<Rightarrow> decaps_key \<times> bytes"
  mlkem_encapsulate :: "bytes \<Rightarrow> entropy \<Rightarrow> (bytes \<times> bytes) option"
  mlkem_decapsulate :: "decaps_key \<Rightarrow> bytes \<Rightarrow> bytes option"
  mldsa_from_seed :: "bytes \<Rightarrow> signing_key"
  mldsa_to_seed :: "signing_key \<Rightarrow> bytes"
  mldsa_verifying_key :: "signing_key \<Rightarrow> verifying_key"
  mldsa_sign_randomized :: "bytes \<Rightarrow> bytes \<Rightarrow> bytes \<Rightarrow> entropy \<Rightarrow> bytes option"
  mldsa_signature_try_from :: "bytes \<Rightarrow> mldsa_signature option"
  mldsa_verify_with_context :: "verifying_key \<Rightarrow> bytes \<Rightarrow> bytes \<Rightarrow> mldsa_signature \<Rightarrow> bool"
  mldsa_encode :: "verifying_key \<Rightarrow> bytes"
  mldsa_decode :: "bytes \<Rightarrow> verifying_key"
  hkdf_expand :: "bytes \<Rightarrow> bytes \<Rightarrow> bytes \<Rightarrow> nat \<Rightarrow> bytes option"
  chacha_encrypt :: "bytes \<Rightarrow> bytes \<Rightarrow> bytes \<Rightarrow> bytes \<Rightarrow> bytes option"
  chacha_decrypt :: "bytes \<Rightarrow> bytes \<Rightarrow> bytes \<Rightarrow> bytes \<Rightarrow> bytes option"
  pid_from_bytes :: "bytes \<Rightarrow> peer_id option"
  pid_to_bytes :: "peer_id \<Rightarrow> bytes"
  pid_to_base58 :: "peer_id \<Rightarrow> string"
  pid_from_str :: "string \<Rightarrow> peer_id option"
  pid_less :: "peer_id \<Rightarrow> peer_id \<Rightarrow> bool"
  kp_generate_ed25519 :: "entropy \<Rightarrow> keypair"
  kp_peer_id :: "keypair \<Rightarrow> peer_id"
  kp_to_protobuf :: "keypair \<Rightarrow> bytes option"
  kp_from_protobuf :: "bytes \<Rightarrow> keypair option"
  b64_encode :: "bytes \<Rightarrow> string"
  b64_decode :: "string \<Rightarrow> bytes option"
  hex_encode :: "bytes \<Rightarrow> string"
  hex_decode :: "string \<Rightarrow> bytes option"
  ma_to_string :: "multiaddr \<Rightarrow> string"
  ma_from_str :: "string \<Rightarrow> multiaddr option"

section \<open>Documented behaviour, as hypotheses\<close>

text \<open>SHA-256 yields 32 bytes.\<close>

definition hash_sized :: "crates \<Rightarrow> bool" where
  "hash_sized E \<longleftrightarrow> (\<forall>x. length (sha256_digest E x) = 32)"

text \<open>FIPS 203: key, ciphertext and secret sizes, and decapsulation inverts encapsulation.\<close>

definition kem_correct :: "crates \<Rightarrow> bool" where
  "kem_correct E \<longleftrightarrow>
     (\<forall>r dk ek. mlkem_generate E r = (dk, ek) \<longrightarrow>
        length ek = 1184 \<and>
        (\<forall>r'. \<exists>ct ss. mlkem_encapsulate E ek r' = Some (ct, ss) \<and>
           length ct = 1088 \<and> length ss = 32 \<and> mlkem_decapsulate E dk ct = Some ss))"

text \<open>FIPS 204: key and signature sizes, key serialisation, and a signature made with a key
  verifies under its public key.  Keys come from 32-byte seeds.\<close>

definition dsa_correct :: "crates \<Rightarrow> bool" where
  "dsa_correct E \<longleftrightarrow>
     (\<forall>vk. length (mldsa_encode E vk) = 1952) \<and>
     (\<forall>seed. length seed = 32 \<longrightarrow>
        mldsa_to_seed E (mldsa_from_seed E seed) = seed \<and>
        (let vk = mldsa_verifying_key E (mldsa_from_seed E seed) in
         mldsa_decode E (mldsa_encode E vk) = vk \<and>
         (\<forall>m r. \<exists>s sg. mldsa_sign_randomized E seed m [] r = Some s \<and> length s = 3309 \<and>
            mldsa_signature_try_from E s = Some sg \<and>
            mldsa_verify_with_context E vk m [] sg)))"

text \<open>HKDF-SHA256 produces any output of at most 255 blocks.\<close>

definition kdf_total :: "crates \<Rightarrow> bool" where
  "kdf_total E \<longleftrightarrow>
     (\<forall>salt ikm info n. n \<le> 8160 \<longrightarrow>
        (\<exists>okm. hkdf_expand E salt ikm info n = Some okm \<and> length okm = n))"

text \<open>ChaCha20-Poly1305 appends a 16-byte tag, and accepts a ciphertext exactly when it is
  the encryption of the plaintext it returns (the tag is a function of key, nonce,
  associated data and ciphertext).\<close>

definition aead_correct :: "crates \<Rightarrow> bool" where
  "aead_correct E \<longleftrightarrow>
     (\<forall>k n a p. length p \<le> 65536 \<longrightarrow>
        (\<exists>c. chacha_encrypt E k n a p = Some c \<and> length c = length p + 16)) \<and>
     (\<forall>k n a p c. chacha_decrypt E k n a c = Some p \<longleftrightarrow> chacha_encrypt E k n a p = Some c)"

text \<open>Peer identifiers: a SHA-256 multihash is one, the two serialisations are inverted by
  their parsers, and \<open>Ord\<close> is a strict total order.\<close>

definition peer_ids_ok :: "crates \<Rightarrow> bool" where
  "peer_ids_ok E \<longleftrightarrow>
     (\<forall>d. length d = 32 \<longrightarrow> (\<exists>p. pid_from_bytes E (0x12 # 0x20 # d) = Some p)) \<and>
     (\<forall>b p. pid_from_bytes E b = Some p \<longrightarrow> pid_to_bytes E p = b) \<and>
     (\<forall>p. pid_from_bytes E (pid_to_bytes E p) = Some p) \<and>
     (\<forall>p. pid_from_str E (pid_to_base58 E p) = Some p) \<and>
     (\<forall>p q. pid_less E p q \<longrightarrow> \<not> pid_less E q p) \<and>
     (\<forall>p q. p \<noteq> q \<longrightarrow> pid_less E p q \<or> pid_less E q p)"

text \<open>Base64, hex, protobuf keypairs and multiaddresses parse what they print, and a printed
  multiaddress is a valid string.\<close>

definition text_codecs_ok :: "crates \<Rightarrow> bool" where
  "text_codecs_ok E \<longleftrightarrow>
     (\<forall>b. b64_decode E (b64_encode E b) = Some b) \<and>
     (\<forall>b. hex_decode E (hex_encode E b) = Some b) \<and>
     (\<forall>k. \<exists>b. kp_to_protobuf E k = Some b \<and> kp_from_protobuf E b = Some k) \<and>
     (\<forall>a. ma_from_str E (ma_to_string E a) = Some a \<and> valid_str (ma_to_string E a))"

section \<open>Consequences in the form the proofs use\<close>

lemma kem_correctE:
  assumes "kem_correct E" and "mlkem_generate E r = (dk, ek)"
  obtains ct ss where "mlkem_encapsulate E ek r' = Some (ct, ss)" and "length ct = 1088"
    and "length ss = 32" and "mlkem_decapsulate E dk ct = Some ss" and "length ek = 1184"
  using assms unfolding kem_correct_def by metis

lemma dsa_correctE:
  assumes "dsa_correct E" and "length seed = 32"
  obtains s sg where "mldsa_sign_randomized E seed m [] r = Some s" and "length s = 3309"
    and "mldsa_signature_try_from E s = Some sg"
    and "mldsa_verify_with_context E (mldsa_verifying_key E (mldsa_from_seed E seed)) m [] sg"
  using assms unfolding dsa_correct_def Let_def by metis

lemma dsa_correct_simps:
  assumes "dsa_correct E"
  shows "length (mldsa_encode E vk) = 1952"
    and "length seed = 32 \<Longrightarrow> mldsa_to_seed E (mldsa_from_seed E seed) = seed"
    and "length seed = 32 \<Longrightarrow>
      mldsa_decode E (mldsa_encode E (mldsa_verifying_key E (mldsa_from_seed E seed)))
      = mldsa_verifying_key E (mldsa_from_seed E seed)"
  using assms unfolding dsa_correct_def Let_def by metis+

lemma aead_sealE:
  assumes "aead_correct E" and "length p \<le> 65536"
  obtains c where "chacha_encrypt E k n a p = Some c" and "length c = length p + 16"
    and "chacha_decrypt E k n a c = Some p"
  using assms unfolding aead_correct_def by metis

lemma aead_open_iff:
  "aead_correct E \<Longrightarrow> chacha_decrypt E k n a c = Some p \<longleftrightarrow> chacha_encrypt E k n a p = Some c"
  unfolding aead_correct_def by metis

lemma pid_less_cases:
  assumes "peer_ids_ok E" and "p \<noteq> q"
  shows "pid_less E p q \<longleftrightarrow> \<not> pid_less E q p"
  using assms unfolding peer_ids_ok_def by metis

lemma peer_ids_simps:
  assumes "peer_ids_ok E"
  shows "pid_from_bytes E (pid_to_bytes E p) = Some p"
    and "pid_from_str E (pid_to_base58 E p) = Some p"
    and "pid_from_bytes E b = Some p \<Longrightarrow> pid_to_bytes E p = b"
  using assms unfolding peer_ids_ok_def by metis+

lemma text_codecs_simps:
  assumes "text_codecs_ok E"
  shows "b64_decode E (b64_encode E b) = Some b"
    and "hex_decode E (hex_encode E b) = Some b"
    and "ma_from_str E (ma_to_string E a) = Some a"
    and "valid_str (ma_to_string E a)"
  using assms unfolding text_codecs_ok_def by metis+

section \<open>A concrete instance\<close>

text \<open>
  A small instance of the record, used by the witnesses only.  It has none of the security of
  the real crates; it has their interface behaviour.
\<close>

definition pad :: "nat \<Rightarrow> bytes \<Rightarrow> bytes" where
  "pad n b = take n (b @ replicate n 0)"

fun ref_less :: "peer_id \<Rightarrow> peer_id \<Rightarrow> bool" where
  "ref_less (PeerId a) (PeerId b) \<longleftrightarrow>
     length a < length b \<or> length a = length b \<and> be_val a < be_val b"

definition put_len :: "bytes \<Rightarrow> bytes" where
  "put_len b = replicate (length b) 1 @ 0 # b"

definition get_len :: "bytes \<Rightarrow> bytes \<times> bytes" where
  "get_len bs =
     (let n = length (takeWhile (\<lambda>x. x = 1) bs); r = drop (Suc n) bs in (take n r, drop n r))"

fun show_protocol :: "protocol \<Rightarrow> bytes" where
  "show_protocol (Ip4 w) = 1 # be_bytes 4 (unat w)"
| "show_protocol (Ip6 w) = 2 # be_bytes 16 (unat w)"
| "show_protocol (Tcp w) = 3 # be_bytes 2 (unat w)"
| "show_protocol (P2p (PeerId b)) = 4 # put_len b"
| "show_protocol P2pCircuit = [5]"
| "show_protocol (OtherProtocol s) = 6 # put_len (as_bytes s)"

fun parse_protocol :: "bytes \<Rightarrow> (protocol \<times> bytes) option" where
  "parse_protocol [] = None"
| "parse_protocol (t # r) =
     (if t = 1 then Some (Ip4 (of_nat (be_val (take 4 r))), drop 4 r)
      else if t = 2 then Some (Ip6 (of_nat (be_val (take 16 r))), drop 16 r)
      else if t = 3 then Some (Tcp (of_nat (be_val (take 2 r))), drop 2 r)
      else if t = 4 then (case get_len r of (b, q) \<Rightarrow> Some (P2p (PeerId b), q))
      else if t = 5 then Some (P2pCircuit, r)
      else if t = 6 then (case get_len r of (b, q) \<Rightarrow> Some (OtherProtocol (chars_of b), q))
      else None)"

fun parse_protocols :: "nat \<Rightarrow> bytes \<Rightarrow> protocol list option" where
  "parse_protocols n [] = Some []"
| "parse_protocols 0 bs = None"
| "parse_protocols (Suc n) bs =
     (case parse_protocol bs of
        None \<Rightarrow> None
      | Some (p, r) \<Rightarrow> map_option (\<lambda>ps. p # ps) (parse_protocols n r))"

text \<open>Two printable characters for a byte.\<close>

fun print_bytes :: "bytes \<Rightarrow> string" where
  "print_bytes [] = []"
| "print_bytes (b # bs) =
     char_of (65 + unat b div 16) # char_of (65 + unat b mod 16) # print_bytes bs"

fun scan_bytes :: "string \<Rightarrow> bytes" where
  "scan_bytes (x # y # s) = of_nat ((of_char x - 65) * 16 + (of_char y - 65)) # scan_bytes s"
| "scan_bytes _ = []"

definition show_multiaddr :: "multiaddr \<Rightarrow> string" where
  "show_multiaddr a = print_bytes (concat (map show_protocol (ma_iter a)))"

definition parse_multiaddr :: "string \<Rightarrow> multiaddr option" where
  "parse_multiaddr s = map_option Multiaddr (parse_protocols (length s) (scan_bytes s))"

definition ref_tag :: "bytes \<Rightarrow> bytes \<Rightarrow> bytes \<Rightarrow> bytes" where
  "ref_tag k n a = pad 16 (drop 4 n @ a @ k)"

definition ref_crates :: crates where
  "ref_crates =
     \<lparr>overflow_checks = False,
      debug_assertions = False,
      usize_bytes = 8,
      sha256_digest = pad 32,
      mlkem_generate = (\<lambda>r. (DecapsKey r, pad 1184 r)),
      mlkem_encapsulate = (\<lambda>ek r. Some (pad 1088 r, pad 32 r)),
      mlkem_decapsulate = (\<lambda>dk ct. Some (take 32 ct)),
      mldsa_from_seed = SigningKey,
      mldsa_to_seed = (\<lambda>k. case k of SigningKey s \<Rightarrow> s),
      mldsa_verifying_key = (\<lambda>k. case k of SigningKey s \<Rightarrow> VerifyingKey s),
      mldsa_sign_randomized = (\<lambda>seed m c r. Some (pad 3309 (seed @ m))),
      mldsa_signature_try_from = (\<lambda>s. Some (MldsaSignature s)),
      mldsa_verify_with_context =
        (\<lambda>vk m c sg. case (vk, sg) of (VerifyingKey s, MldsaSignature b) \<Rightarrow> b = pad 3309 (s @ m)),
      mldsa_encode = (\<lambda>vk. case vk of VerifyingKey s \<Rightarrow> pad 1952 s),
      mldsa_decode = (\<lambda>b. VerifyingKey (take 32 b)),
      hkdf_expand = (\<lambda>salt ikm info n. Some (pad n (rev info @ ikm @ salt))),
      chacha_encrypt = (\<lambda>k n a p. Some (p @ ref_tag k n a)),
      chacha_decrypt = (\<lambda>k n a c.
        let m = length c - 16 in
        if 16 \<le> length c \<and> drop m c = ref_tag k n a then Some (take m c) else None),
      pid_from_bytes = (\<lambda>b. Some (PeerId b)),
      pid_to_bytes = (\<lambda>p. case p of PeerId b \<Rightarrow> b),
      pid_to_base58 = (\<lambda>p. case p of PeerId b \<Rightarrow> chars_of b),
      pid_from_str = (\<lambda>s. Some (PeerId (as_bytes s))),
      pid_less = ref_less,
      kp_generate_ed25519 = Keypair,
      kp_peer_id = (\<lambda>k. case k of Keypair b \<Rightarrow> PeerId b),
      kp_to_protobuf = (\<lambda>k. case k of Keypair b \<Rightarrow> Some b),
      kp_from_protobuf = (\<lambda>b. Some (Keypair b)),
      b64_encode = chars_of,
      b64_decode = (\<lambda>s. Some (as_bytes s)),
      hex_encode = chars_of,
      hex_decode = (\<lambda>s. Some (as_bytes s)),
      ma_to_string = show_multiaddr,
      ma_from_str = parse_multiaddr\<rparr>"

lemma length_pad [simp]: "length (pad n b) = n"
  by (simp add: pad_def)

lemma length_ref_tag [simp]: "length (ref_tag k n a) = 16"
  by (simp add: ref_tag_def)

lemma take_pad: "m \<le> n \<Longrightarrow> take m (pad n b) = pad m b"
  by (simp add: pad_def min_def append_eq_append_conv_if)

lemma pad_same: "length b = n \<Longrightarrow> pad n b = b"
  by (simp add: pad_def)

lemma ref_hash_sized: "hash_sized ref_crates"
  by (simp add: hash_sized_def ref_crates_def)

lemma ref_kem_correct: "kem_correct ref_crates"
  by (simp add: kem_correct_def ref_crates_def take_pad)

lemma ref_dsa_correct: "dsa_correct ref_crates"
  by (simp add: dsa_correct_def ref_crates_def take_pad pad_same split: verifying_key.splits)

lemma ref_kdf_total: "kdf_total ref_crates"
  by (simp add: kdf_total_def ref_crates_def)

lemma ref_aead_correct: "aead_correct ref_crates"
  by (auto simp: aead_correct_def ref_crates_def Let_def)
    (metis append_take_drop_id)

lemma be_val_inject: "length a = length b \<Longrightarrow> be_val a = be_val b \<Longrightarrow> a = b"
  by (metis be_bytes_be_val)

lemma ref_less_linear: "p \<noteq> q \<Longrightarrow> ref_less p q \<or> ref_less q p"
  by (cases p; cases q) (auto, metis be_val_inject linorder_neqE_nat)

lemma ref_less_asym: "ref_less p q \<Longrightarrow> \<not> ref_less q p"
  by (cases p; cases q) auto

lemma ref_peer_ids_ok: "peer_ids_ok ref_crates"
  by (auto simp: peer_ids_ok_def ref_crates_def ref_less_asym dest: ref_less_linear
      split: peer_id.splits)

lemma get_len_put_len [simp]: "get_len (put_len b @ r) = (b, r)"
proof -
  have "takeWhile (\<lambda>x. x = 1) (replicate n 1 @ 0 # s) = replicate n (1::u8)" for n s
    by (induction n) auto
  then show ?thesis by (simp add: get_len_def put_len_def)
qed

lemma be_word: "256 ^ k = (2::nat) ^ LENGTH('a) \<Longrightarrow>
    of_nat (be_val (be_bytes k (unat w))) = (w :: 'a::len word)"
  using unat_bound [of w] by (simp add: be_val_be_bytes)

lemma parse_show_protocol: "parse_protocol (show_protocol p @ r) = Some (p, r)"
  by (cases p rule: show_protocol.cases) (simp_all add: be_word)

lemma parse_show_protocols:
  "length (concat (map show_protocol ps)) \<le> n \<Longrightarrow>
   parse_protocols n (concat (map show_protocol ps)) = Some ps"
proof (induction ps arbitrary: n)
  case Nil
  then show ?case by simp
next
  case (Cons p ps)
  have ne: "show_protocol p \<noteq> []" by (cases p rule: show_protocol.cases) simp_all
  then obtain m where n: "n = Suc m" "length (concat (map show_protocol ps)) \<le> m"
    using Cons.prems by (cases n) (auto simp: Suc_le_eq neq_Nil_conv)
  obtain x xs where "show_protocol p = x # xs" using ne by (cases "show_protocol p") auto
  then show ?case
    using Cons.IH [OF n(2)] parse_show_protocol [of p "concat (map show_protocol ps)"] n(1)
    by simp
qed

lemma nibble: "n < 16 \<Longrightarrow> (of_char (char_of (65 + n)) :: nat) = 65 + n"
  by simp

lemma scan_print_bytes: "scan_bytes (print_bytes bs) = bs"
proof (induction bs)
  case Nil
  then show ?case by simp
next
  case (Cons b bs)
  have "unat b div 16 < 16" using unat_bound [of b] by (simp add: div_less_iff_less_mult)
  then have "(of_char (char_of (65 + unat b div 16)) - 65) * 16
      + (of_char (char_of (65 + unat b mod 16)) - 65) = unat b"
    by (simp only: nibble mod_less_divisor zero_less_numeral) simp
  then have "(of_nat ((of_char (char_of (65 + unat b div 16)) - 65) * 16
      + (of_char (char_of (65 + unat b mod 16)) - 65)) :: u8) = b"
    by (simp only:) simp
  then show ?case using Cons by (simp del: of_nat_add of_nat_mult)
qed

lemma valid_ascii: "\<forall>c \<in> set s. (of_char c :: nat) < 128 \<Longrightarrow> valid_str s"
proof (induction s)
  case Nil
  then show ?case by (simp add: valid_str_def as_bytes_def)
next
  case (Cons c s)
  then have "(of_char c :: u8) < 0x80"
    by (simp add: word_less_nat_alt unat_of_char)
  then show ?case using Cons by (simp add: valid_str_def as_bytes_def)
qed

lemma print_bytes_ascii: "c \<in> set (print_bytes bs) \<Longrightarrow> (of_char c :: nat) < 128"
proof (induction bs)
  case Nil
  then show ?case by simp
next
  case (Cons b bs)
  have "unat b div 16 < 16" using unat_bound [of b] by (simp add: div_less_iff_less_mult)
  then have "(of_char (char_of (65 + unat b div 16)) :: nat) < 128"
    "(of_char (char_of (65 + unat b mod 16)) :: nat) < 128"
    by simp_all
  then show ?case using Cons by auto
qed

lemma length_print_bytes: "length (print_bytes bs) = 2 * length bs"
  by (induction bs) auto

lemma ref_text_codecs_ok: "text_codecs_ok ref_crates"
proof -
  have "parse_multiaddr (show_multiaddr a) = Some a" for a
    by (cases a) (simp add: parse_multiaddr_def show_multiaddr_def scan_print_bytes
        parse_show_protocols length_print_bytes)
  moreover have "valid_str (show_multiaddr a)" for a
    by (rule valid_ascii) (auto simp: show_multiaddr_def dest: print_bytes_ascii)
  ultimately show ?thesis
    by (auto simp: text_codecs_ok_def ref_crates_def split: keypair.splits)
qed

lemmas ref_crates_ok = ref_hash_sized ref_kem_correct ref_dsa_correct ref_kdf_total
  ref_aead_correct ref_peer_ids_ok ref_text_codecs_ok

end
