(* ===== verification/Crypto.thy ===== *)
theory Crypto
  imports Crates
begin

text \<open>
  The four modules of \<open>src/crypto.rs\<close>: \<open>kem\<close> (ML-KEM-768), \<open>mldsa\<close> (ML-DSA-65), \<open>kdf\<close>
  (HKDF-SHA256 session keys) and \<open>aead\<close> (ChaCha20-Poly1305).  Each is a typed wrapper around
  a crate, so the definitions are the checks and error mappings the wrappers add.  An
  \<open>expect\<close> on a crate result is a panic (\<open>None\<close>) when the crate fails; the lemmas show that
  it does not under the documented behaviour of the crates.  Crate outputs that are
  fixed-size arrays are copied without a length check, as in the sources.
\<close>

section \<open>ML-KEM\<close>

definition EK_LEN :: nat where "EK_LEN = 1184"
definition CT_LEN :: nat where "CT_LEN = 1088"
definition SS_LEN :: nat where "SS_LEN = 32"

datatype kem_error =
  BadKeySize nat | BadCiphertextSize nat | EncapsulationFailed | DecapsulationFailed

fun kem_error_display :: "kem_error \<Rightarrow> string" where
  "kem_error_display (BadKeySize n) = ''bad ephemeral key size: '' @ show_nat n"
| "kem_error_display (BadCiphertextSize n) = ''bad ciphertext size: '' @ show_nat n"
| "kem_error_display EncapsulationFailed = ''ML-KEM encapsulation failed''"
| "kem_error_display DecapsulationFailed = ''ML-KEM decapsulation failed''"

definition kem_generate :: "crates \<Rightarrow> entropy \<Rightarrow> bytes \<times> decaps_key" where
  "kem_generate E rng = (case mlkem_generate E rng of (dk, ek) \<Rightarrow> (ek, dk))"

definition kem_encapsulate :: "crates \<Rightarrow> bytes \<Rightarrow> entropy \<Rightarrow> kem_error + (bytes \<times> bytes)" where
  "kem_encapsulate E ek_bytes rng =
     (if length ek_bytes \<noteq> EK_LEN then Inl (BadKeySize (length ek_bytes))
      else case mlkem_encapsulate E ek_bytes rng of
        None \<Rightarrow> Inl EncapsulationFailed
      | Some (ct, ss) \<Rightarrow> Inr (ct, ss))"

definition kem_decapsulate :: "crates \<Rightarrow> decaps_key \<Rightarrow> bytes \<Rightarrow> kem_error + bytes" where
  "kem_decapsulate E dk ct_bytes =
     (if length ct_bytes \<noteq> CT_LEN then Inl (BadCiphertextSize (length ct_bytes))
      else case mlkem_decapsulate E dk ct_bytes of
        None \<Rightarrow> Inl DecapsulationFailed
      | Some ss \<Rightarrow> Inr ss)"

section \<open>ML-DSA\<close>

definition PUBKEY_LEN :: nat where "PUBKEY_LEN = 1952"
definition SIG_LEN :: nat where "SIG_LEN = 3309"
definition SEED_LEN :: nat where "SEED_LEN = 32"

record secret_key =
  sk_inner :: signing_key

definition sk_from_seed :: "crates \<Rightarrow> bytes \<Rightarrow> secret_key" where
  "sk_from_seed E seed = \<lparr>sk_inner = mldsa_from_seed E seed\<rparr>"

text \<open>\<open>generate\<close> fills a 32-byte seed from the operating system.\<close>

definition sk_generate :: "crates \<Rightarrow> entropy \<Rightarrow> secret_key" where
  "sk_generate E seed = sk_from_seed E seed"

definition sk_seed :: "crates \<Rightarrow> secret_key \<Rightarrow> bytes" where
  "sk_seed E sk = mldsa_to_seed E (sk_inner sk)"

definition sk_verifying_key :: "crates \<Rightarrow> secret_key \<Rightarrow> verifying_key" where
  "sk_verifying_key E sk = mldsa_verifying_key E (sk_inner sk)"

definition sk_sign :: "crates \<Rightarrow> secret_key \<Rightarrow> bytes \<Rightarrow> entropy \<Rightarrow> bytes option" where
  "sk_sign E sk message rng = mldsa_sign_randomized E (sk_seed E sk) message [] rng"

definition mldsa_verify :: "crates \<Rightarrow> verifying_key \<Rightarrow> bytes \<Rightarrow> bytes \<Rightarrow> bool" where
  "mldsa_verify E pk message sig =
     (case to_array SIG_LEN sig of
        None \<Rightarrow> False
      | Some arr \<Rightarrow>
          (case mldsa_signature_try_from E arr of
             None \<Rightarrow> False
           | Some sg \<Rightarrow> mldsa_verify_with_context E pk message [] sg))"

definition pubkey_to_bytes :: "crates \<Rightarrow> verifying_key \<Rightarrow> bytes" where
  "pubkey_to_bytes E pk = mldsa_encode E pk"

definition pubkey_from_bytes :: "crates \<Rightarrow> bytes \<Rightarrow> verifying_key option" where
  "pubkey_from_bytes E bs =
     (if length bs \<noteq> PUBKEY_LEN then None else Some (mldsa_decode E bs))"

section \<open>Session keys\<close>

definition SESSION_ID_LEN :: nat where "SESSION_ID_LEN = 16"
definition AEAD_KEY_LEN :: nat where "AEAD_KEY_LEN = 32"

record session_keys =
  sk_session_id :: bytes
  a_to_b :: bytes
  b_to_a :: bytes

definition derive_session_keys :: "crates \<Rightarrow> bytes \<Rightarrow> bytes \<Rightarrow> session_keys option" where
  "derive_session_keys E ikm transcript =
     (case hkdf_expand E transcript ikm (as_bytes ''jeangrey/mvp1/session-id/v1'') SESSION_ID_LEN of
        None \<Rightarrow> None
      | Some sid \<Rightarrow>
     (case hkdf_expand E transcript ikm (as_bytes ''jeangrey/mvp1/aead/a-to-b/v1'') AEAD_KEY_LEN of
        None \<Rightarrow> None
      | Some ab \<Rightarrow>
     (case hkdf_expand E transcript ikm (as_bytes ''jeangrey/mvp1/aead/b-to-a/v1'') AEAD_KEY_LEN of
        None \<Rightarrow> None
      | Some ba \<Rightarrow> Some \<lparr>sk_session_id = sid, a_to_b = ab, b_to_a = ba\<rparr>)))"

section \<open>Authenticated encryption\<close>

definition NONCE_LEN :: nat where "NONCE_LEN = 12"
definition KEY_LEN :: nat where "KEY_LEN = 32"

datatype aead_error = AuthenticationFailed

fun aead_error_display :: "aead_error \<Rightarrow> string" where
  "aead_error_display AuthenticationFailed = ''AEAD authentication failed''"

definition aead_seal :: "crates \<Rightarrow> bytes \<Rightarrow> bytes \<Rightarrow> bytes \<Rightarrow> bytes \<Rightarrow> bytes option" where
  "aead_seal E key nonce aad plaintext = chacha_encrypt E key nonce aad plaintext"

definition aead_open :: "crates \<Rightarrow> bytes \<Rightarrow> bytes \<Rightarrow> bytes \<Rightarrow> bytes \<Rightarrow> aead_error + bytes" where
  "aead_open E key nonce aad ciphertext =
     (case chacha_decrypt E key nonce aad ciphertext of
        None \<Rightarrow> Inl AuthenticationFailed
      | Some p \<Rightarrow> Inr p)"

section \<open>What the wrappers guarantee\<close>

lemmas crypto_lens = EK_LEN_def CT_LEN_def SS_LEN_def PUBKEY_LEN_def SIG_LEN_def SEED_LEN_def
  SESSION_ID_LEN_def AEAD_KEY_LEN_def NONCE_LEN_def KEY_LEN_def

lemma kem_agreement:
  assumes "kem_correct E" and "kem_generate E r = (ek, dk)"
  obtains ct ss where "kem_encapsulate E ek r' = Inr (ct, ss)" and "kem_decapsulate E dk ct = Inr ss"
    and "length ct = CT_LEN" and "length ss = SS_LEN" and "length ek = EK_LEN"
proof -
  from assms(2) have gen: "mlkem_generate E r = (dk, ek)"
    by (simp add: kem_generate_def split: prod.splits)
  show thesis
    by (rule kem_correctE [OF assms(1) gen, of r'], rule that)
      (simp_all add: kem_encapsulate_def kem_decapsulate_def crypto_lens)
qed

lemma kem_encapsulate_err:
  "length ek \<noteq> EK_LEN \<Longrightarrow> kem_encapsulate E ek r = Inl (BadKeySize (length ek))"
  by (simp add: kem_encapsulate_def)

lemma sign_total:
  assumes "dsa_correct E" and "length seed = SEED_LEN"
  obtains sig where "sk_sign E (sk_from_seed E seed) m r = Some sig" and "length sig = SIG_LEN"
    and "mldsa_verify E (sk_verifying_key E (sk_from_seed E seed)) m sig"
  by (rule dsa_correctE [OF assms(1), of seed m r]; (rule that)?)
    (use assms in \<open>auto simp: sk_sign_def sk_seed_def sk_from_seed_def sk_verifying_key_def
      mldsa_verify_def to_array_def crypto_lens dsa_correct_simps\<close>)

lemma length_pubkey [simp]: "dsa_correct E \<Longrightarrow> length (pubkey_to_bytes E vk) = PUBKEY_LEN"
  by (simp add: pubkey_to_bytes_def dsa_correct_simps PUBKEY_LEN_def)

lemma pubkey_roundtrip:
  assumes "dsa_correct E" and "length seed = SEED_LEN"
  shows "pubkey_from_bytes E (pubkey_to_bytes E (sk_verifying_key E (sk_from_seed E seed)))
         = Some (sk_verifying_key E (sk_from_seed E seed))"
  using assms by (simp add: pubkey_from_bytes_def pubkey_to_bytes_def sk_verifying_key_def
      sk_from_seed_def crypto_lens dsa_correct_simps)

lemma derive_total:
  assumes "kdf_total E"
  obtains k where "derive_session_keys E ikm t = Some k" and "length (sk_session_id k) = SESSION_ID_LEN"
    and "length (a_to_b k) = AEAD_KEY_LEN" and "length (b_to_a k) = AEAD_KEY_LEN"
proof -
  have *: "\<exists>okm. hkdf_expand E t ikm info n = Some okm \<and> length okm = n" if "n \<le> 8160" for info n
    using assms that by (simp add: kdf_total_def)
  from * obtain s a b where
    "hkdf_expand E t ikm (as_bytes ''jeangrey/mvp1/session-id/v1'') SESSION_ID_LEN = Some s"
    "hkdf_expand E t ikm (as_bytes ''jeangrey/mvp1/aead/a-to-b/v1'') AEAD_KEY_LEN = Some a"
    "hkdf_expand E t ikm (as_bytes ''jeangrey/mvp1/aead/b-to-a/v1'') AEAD_KEY_LEN = Some b"
    "length s = SESSION_ID_LEN" "length a = AEAD_KEY_LEN" "length b = AEAD_KEY_LEN"
    by (metis SESSION_ID_LEN_def AEAD_KEY_LEN_def numeral_le_iff semiring_norm(68,69,71,72,73))
  then show thesis
    using that [of "\<lparr>sk_session_id = s, a_to_b = a, b_to_a = b\<rparr>"]
    by (simp add: derive_session_keys_def)
qed


lemma aead_open_iff_seal:
  "aead_correct E \<Longrightarrow> aead_open E k n a c = Inr p \<longleftrightarrow> aead_seal E k n a p = Some c"
  by (simp add: aead_open_def aead_seal_def aead_open_iff [symmetric] split: option.splits)

lemma seal_total:
  assumes "aead_correct E" and "length p \<le> 65536"
  obtains c where "aead_seal E k n a p = Some c" and "length c = length p + 16"
    and "aead_open E k n a c = Inr p"
  by (rule aead_sealE [OF assms, of k n a], rule that)
    (simp_all only: aead_open_iff_seal [OF assms(1)] aead_seal_def)

end
