(* ===== verification/Identity.thy ===== *)
theory Identity
  imports Crypto
begin

text \<open>
  \<open>src/identity.rs\<close>: user and device identities and the self-certifying device Peer ID (the
  SHA-256 multihash of the device's ML-DSA public key).  Random bytes drawn from the
  operating system are arguments.  \<open>wf_identity\<close> is the invariant every constructor
  establishes.
\<close>

record user_identity =
  ui_user_id :: bytes
  ui_user_name :: string

definition user_generate :: "string \<Rightarrow> entropy \<Rightarrow> user_identity" where
  "user_generate user_name rng = \<lparr>ui_user_id = rng, ui_user_name = user_name\<rparr>"

definition user_short_id :: "crates \<Rightarrow> user_identity \<Rightarrow> string" where
  "user_short_id E u = hex_encode E (take 4 (ui_user_id u))"

record device_identity =
  di_user :: user_identity
  di_secret_key :: secret_key
  di_verifying_key :: verifying_key
  di_device_uuid :: bytes
  di_transport_keypair :: keypair
  di_peer_id :: peer_id

text \<open>The \<open>expect\<close> on \<open>PeerId::from_bytes\<close> is the only way this can panic.\<close>

definition peer_id_of :: "crates \<Rightarrow> verifying_key \<Rightarrow> peer_id option" where
  "peer_id_of E vk =
     (let pk = pubkey_to_bytes E vk; digest = sha256_digest E pk in
      pid_from_bytes E ([0x12] @ [0x20] @ digest))"

definition assemble ::
  "crates \<Rightarrow> user_identity \<Rightarrow> secret_key \<Rightarrow> verifying_key \<Rightarrow> bytes \<Rightarrow> entropy
   \<Rightarrow> device_identity option" where
  "assemble E user secret_key verifying_key device_uuid rng =
     (case peer_id_of E verifying_key of
        None \<Rightarrow> None
      | Some pid \<Rightarrow>
          Some \<lparr>di_user = user, di_secret_key = secret_key, di_verifying_key = verifying_key,
                di_device_uuid = device_uuid, di_transport_keypair = kp_generate_ed25519 E rng,
                di_peer_id = pid\<rparr>)"

definition with_transport :: "device_identity \<Rightarrow> keypair \<Rightarrow> device_identity" where
  "with_transport d kp = d\<lparr>di_transport_keypair := kp\<rparr>"

text \<open>The draws of \<open>generate\<close> in the order of the code: the signing seed, the device
  identifier, the user identifier and the transport key.\<close>

definition device_generate ::
  "crates \<Rightarrow> string \<Rightarrow> entropy \<Rightarrow> entropy \<Rightarrow> entropy \<Rightarrow> entropy \<Rightarrow> device_identity option" where
  "device_generate E user_name r_seed r_uuid r_user r_kp =
     (let secret_key = sk_generate E r_seed;
          verifying_key = sk_verifying_key E secret_key in
      assemble E (user_generate user_name r_user) secret_key verifying_key r_uuid r_kp)"

definition device_from_seed ::
  "crates \<Rightarrow> bytes \<Rightarrow> string \<Rightarrow> bytes \<Rightarrow> bytes \<Rightarrow> keypair \<Rightarrow> entropy \<Rightarrow> device_identity option" where
  "device_from_seed E user_id user_name seed device_uuid kp rng =
     (let secret_key = sk_from_seed E seed;
          verifying_key = sk_verifying_key E secret_key in
      map_option (\<lambda>d. with_transport d kp)
        (assemble E \<lparr>ui_user_id = user_id, ui_user_name = user_name\<rparr> secret_key verifying_key
           device_uuid rng))"

definition transport_peer_id :: "crates \<Rightarrow> device_identity \<Rightarrow> peer_id" where
  "transport_peer_id E d = kp_peer_id E (di_transport_keypair d)"

definition public_key_bytes :: "crates \<Rightarrow> device_identity \<Rightarrow> bytes" where
  "public_key_bytes E d = pubkey_to_bytes E (di_verifying_key d)"

definition di_sign :: "crates \<Rightarrow> device_identity \<Rightarrow> bytes \<Rightarrow> entropy \<Rightarrow> bytes option" where
  "di_sign E d message rng = sk_sign E (di_secret_key d) message rng"

definition short_id :: "crates \<Rightarrow> peer_id \<Rightarrow> string" where
  "short_id E p = (let s = pid_to_base58 E p; n = min (length s) 10 in take n s)"

section \<open>The invariant of identities\<close>

definition wf_identity :: "crates \<Rightarrow> device_identity \<Rightarrow> bool" where
  "wf_identity E d \<longleftrightarrow>
     length (sk_seed E (di_secret_key d)) = SEED_LEN \<and>
     di_secret_key d = sk_from_seed E (sk_seed E (di_secret_key d)) \<and>
     di_verifying_key d = sk_verifying_key E (di_secret_key d) \<and>
     peer_id_of E (di_verifying_key d) = Some (di_peer_id d) \<and>
     length (di_device_uuid d) = 16 \<and> length (ui_user_id (di_user d)) = 16 \<and>
     valid_str (ui_user_name (di_user d))"

lemma peer_id_of_total:
  assumes "hash_sized E" and "peer_ids_ok E"
  obtains p where "peer_id_of E vk = Some p"
proof -
  have "length (sha256_digest E (pubkey_to_bytes E vk)) = 32"
    using assms(1) by (simp add: hash_sized_def)
  then have "\<exists>p. pid_from_bytes E (0x12 # 0x20 # sha256_digest E (pubkey_to_bytes E vk)) = Some p"
    using assms(2) unfolding peer_ids_ok_def by blast
  then show thesis using that by (auto simp: peer_id_of_def Let_def)
qed

lemma sk_seed_from_seed:
  "dsa_correct E \<Longrightarrow> length seed = SEED_LEN \<Longrightarrow> sk_seed E (sk_from_seed E seed) = seed"
  by (simp add: sk_seed_def sk_from_seed_def dsa_correct_simps SEED_LEN_def)

lemma assemble_wf:
  assumes "dsa_correct E" and "length seed = SEED_LEN" and "length uuid = 16"
    and "length (ui_user_id u) = 16" and "valid_str (ui_user_name u)"
    and "assemble E u (sk_from_seed E seed) (sk_verifying_key E (sk_from_seed E seed)) uuid r = Some d"
  shows "wf_identity E d"
  using assms by (auto simp: assemble_def wf_identity_def sk_seed_from_seed split: option.splits)

lemma wf_identity_peer_id: "wf_identity E d \<Longrightarrow> peer_id_of E (di_verifying_key d) = Some (di_peer_id d)"
  unfolding wf_identity_def by blast

lemma wf_with_transport [inv_rules]: "wf_identity E d \<Longrightarrow> wf_identity E (with_transport d kp)"
  by (cases d) (auto simp: wf_identity_def with_transport_def)

lemma wf_identity_sign:
  assumes "dsa_correct E" and "wf_identity E d"
  obtains sig where "di_sign E d m r = Some sig" and "length sig = SIG_LEN"
    and "mldsa_verify E (di_verifying_key d) m sig"
proof -
  from assms(2) have sk: "di_secret_key d = sk_from_seed E (sk_seed E (di_secret_key d))"
    and vk: "di_verifying_key d = sk_verifying_key E (di_secret_key d)"
    and len: "length (sk_seed E (di_secret_key d)) = SEED_LEN"
    by (simp_all add: wf_identity_def)
  from sign_total [OF assms(1) len, of m r] obtain sig where
    "sk_sign E (di_secret_key d) m r = Some sig" "length sig = SIG_LEN"
    "mldsa_verify E (di_verifying_key d) m sig"
    unfolding vk by (metis sk)
  then show thesis by (intro that) (simp_all add: di_sign_def)
qed

lemma wf_identity_pubkey:
  assumes "dsa_correct E" and "wf_identity E d"
  shows "pubkey_from_bytes E (public_key_bytes E d) = Some (di_verifying_key d)"
    and "length (public_key_bytes E d) = PUBKEY_LEN"
proof -
  from assms(2) have "di_verifying_key d
      = sk_verifying_key E (sk_from_seed E (sk_seed E (di_secret_key d)))"
    and len: "length (sk_seed E (di_secret_key d)) = SEED_LEN"
    by (auto simp: wf_identity_def)
  then show "pubkey_from_bytes E (public_key_bytes E d) = Some (di_verifying_key d)"
    using pubkey_roundtrip [OF assms(1) len] by (simp add: public_key_bytes_def)
  show "length (public_key_bytes E d) = PUBKEY_LEN"
    using assms(1) by (simp add: public_key_bytes_def)
qed

section \<open>Self-certification\<close>

lemma peer_id_of_inject:
  assumes "peer_ids_ok E" and "peer_id_of E vk = Some p" and "peer_id_of E vk' = Some p"
  shows "sha256_digest E (pubkey_to_bytes E vk) = sha256_digest E (pubkey_to_bytes E vk')"
proof -
  let ?mh = "\<lambda>v. 0x12 # 0x20 # sha256_digest E (pubkey_to_bytes E v)"
  from assms have "pid_from_bytes E (?mh vk) = Some p" "pid_from_bytes E (?mh vk') = Some p"
    by (simp_all add: peer_id_of_def Let_def)
  then have "?mh vk = ?mh vk'" using peer_ids_simps(3) [OF assms(1)] by metis
  then show ?thesis by simp
qed

lemma peer_id_of_cong:
  "sha256_digest E (pubkey_to_bytes E vk) = sha256_digest E (pubkey_to_bytes E vk') \<Longrightarrow>
   peer_id_of E vk = peer_id_of E vk'"
  by (simp add: peer_id_of_def)

lemma device_from_seed_total:
  assumes "hash_sized E" "peer_ids_ok E" "dsa_correct E"
    and "length seed = SEED_LEN" "length uuid = 16" "length uid = 16" "valid_str name"
  obtains d where "device_from_seed E uid name seed uuid kp r = Some d" and "wf_identity E d"
    and "transport_peer_id E d = kp_peer_id E kp" and "ui_user_name (di_user d) = name"
    and "di_verifying_key d = sk_verifying_key E (sk_from_seed E seed)"
proof -
  let ?vk = "sk_verifying_key E (sk_from_seed E seed)"
  let ?u = "\<lparr>ui_user_id = uid, ui_user_name = name\<rparr>"
  obtain p where p: "peer_id_of E ?vk = Some p" by (rule peer_id_of_total [OF assms(1,2)])
  then obtain d where d: "assemble E ?u (sk_from_seed E seed) ?vk uuid r = Some d"
    by (simp add: assemble_def)
  with assms have "wf_identity E d" by (intro assemble_wf [OF assms(3,4,5)]) simp_all
  then have "wf_identity E (with_transport d kp)" by (rule wf_with_transport)
  moreover from d have "device_from_seed E uid name seed uuid kp r = Some (with_transport d kp)"
    by (simp add: device_from_seed_def)
  moreover have "transport_peer_id E (with_transport d kp) = kp_peer_id E kp"
    by (simp add: transport_peer_id_def with_transport_def)
  moreover have "ui_user_name (di_user (with_transport d kp)) = name"
    "di_verifying_key (with_transport d kp) = ?vk"
    using d p by (auto simp: assemble_def with_transport_def)
  ultimately show thesis by (intro that)
qed

text \<open>Restoring a device from its persisted seed never panics and yields a well-formed
  identity with the given transport key; its Peer ID is the one the same seed produced when the
  device was first generated, whatever user, device identifier and entropy came with it.\<close>

theorem device_from_seed_restores:
  assumes "hash_sized E" "peer_ids_ok E" "dsa_correct E"
    and "length seed = SEED_LEN" "length uuid = 16" "length uid = 16" "valid_str name"
    and "device_generate E name' seed uuid' uid' r_kp = Some orig"
  shows "\<exists>d. device_from_seed E uid name seed uuid kp r = Some d \<and> wf_identity E d \<and>
    transport_peer_id E d = kp_peer_id E kp \<and> di_peer_id d = di_peer_id orig \<and>
    (\<forall>m rs. \<exists>sig. di_sign E d m rs = Some sig \<and> mldsa_verify E (di_verifying_key orig) m sig)"
proof -
  obtain d where d: "device_from_seed E uid name seed uuid kp r = Some d" "wf_identity E d"
    "transport_peer_id E d = kp_peer_id E kp"
    "di_verifying_key d = sk_verifying_key E (sk_from_seed E seed)"
    using device_from_seed_total [OF assms(1-7)] by metis
  from assms(8) have o: "di_verifying_key orig = di_verifying_key d"
    "peer_id_of E (di_verifying_key d) = Some (di_peer_id orig)"
    using d(4) by (auto simp: device_generate_def sk_generate_def assemble_def Let_def
        split: option.splits)
  have "di_peer_id d = di_peer_id orig" using d(2) o(2) by (auto simp: wf_identity_def)
  moreover have "\<exists>sig. di_sign E d m rs = Some sig \<and> mldsa_verify E (di_verifying_key orig) m sig"
    for m rs using wf_identity_sign [OF assms(3) d(2), of m rs] o(1) by metis
  ultimately show ?thesis using d by auto
qed

text \<open>C33. The device Peer ID is self-certifying: two verifying keys have the same Peer ID exactly
  when the SHA-256 digests of their serialised public keys agree, so a second key for a Peer ID
  is a SHA-256 collision.\<close>

theorem peer_id_self_certifying:
  assumes "hash_sized E" and "peer_ids_ok E"
  shows "peer_id_of E vk = peer_id_of E vk' \<longleftrightarrow>
    sha256_digest E (pubkey_to_bytes E vk) = sha256_digest E (pubkey_to_bytes E vk')"
proof -
  obtain p where "peer_id_of E vk = Some p" by (rule peer_id_of_total [OF assms])
  then show ?thesis using peer_id_of_inject [OF assms(2)] peer_id_of_cong by metis
qed

section \<open>Two sample devices\<close>

text \<open>Devices on the sample crates, for the witnesses.\<close>

definition sample_device :: "u8 \<Rightarrow> device_identity" where
  "sample_device b = the (device_from_seed ref_crates (replicate 16 b) ''user'' (replicate 32 b)
     (replicate 16 b) (Keypair [b]) [])"

lemma valid_user: "valid_str ''user''"
  by (simp add: valid_str_def as_bytes_def of_char_def)

lemma sample_device_props:
  shows "wf_identity ref_crates (sample_device b)"
    and "ui_user_name (di_user (sample_device b)) = ''user''"
    and "di_verifying_key (sample_device b)
         = sk_verifying_key ref_crates (sk_from_seed ref_crates (replicate 32 b))"
    and "transport_peer_id ref_crates (sample_device b) = PeerId [b]"
proof -
  have lens: "length (replicate 32 b) = SEED_LEN" "length (replicate 16 b) = 16"
    "length (replicate 16 b) = 16" by (simp_all add: SEED_LEN_def)
  obtain d where d: "device_from_seed ref_crates (replicate 16 b) ''user'' (replicate 32 b)
      (replicate 16 b) (Keypair [b]) [] = Some d" "wf_identity ref_crates d"
    "transport_peer_id ref_crates d = kp_peer_id ref_crates (Keypair [b])"
    "ui_user_name (di_user d) = ''user''"
    "di_verifying_key d = sk_verifying_key ref_crates (sk_from_seed ref_crates (replicate 32 b))"
    by (rule device_from_seed_total [OF ref_hash_sized ref_peer_ids_ok ref_dsa_correct
          lens valid_user])
  then have "sample_device b = d" by (simp add: sample_device_def)
  then show "wf_identity ref_crates (sample_device b)"
    "ui_user_name (di_user (sample_device b)) = ''user''"
    "di_verifying_key (sample_device b)
     = sk_verifying_key ref_crates (sk_from_seed ref_crates (replicate 32 b))"
    "transport_peer_id ref_crates (sample_device b) = PeerId [b]"
    using d by (simp_all add: ref_crates_def)
qed

lemma pad_pad: "m \<le> n \<Longrightarrow> pad m (pad n b) = pad m b"
  by (simp add: pad_def [of m "pad n b"] take_pad)

lemma sample_device_peer_id:
  "di_peer_id (sample_device b) = PeerId (0x12 # 0x20 # replicate 32 b)"
proof -
  have "peer_id_of ref_crates (di_verifying_key (sample_device b))
      = Some (di_peer_id (sample_device b))"
    by (rule wf_identity_peer_id [OF sample_device_props(1)])
  then show ?thesis
    unfolding sample_device_props(3)
    by (simp add: peer_id_of_def pubkey_to_bytes_def sk_verifying_key_def sk_from_seed_def
        ref_crates_def pad_pad pad_same)
qed

theorem device_from_seed_restores_witness:
  "\<exists>d orig. device_generate ref_crates ''user'' (replicate 32 7) [] [] [] = Some orig \<and>
     device_from_seed ref_crates (replicate 16 1) ''user'' (replicate 32 7) (replicate 16 2)
       (Keypair [9]) [] = Some d \<and> di_peer_id d = di_peer_id orig"
proof -
  let ?vk = "sk_verifying_key ref_crates (sk_from_seed ref_crates (replicate 32 7))"
  obtain p where "peer_id_of ref_crates ?vk = Some p"
    by (rule peer_id_of_total [OF ref_hash_sized ref_peer_ids_ok])
  then obtain orig where
    o: "device_generate ref_crates ''user'' (replicate 32 7) [] [] [] = Some orig"
    by (auto simp: device_generate_def sk_generate_def assemble_def Let_def)
  show ?thesis
    using device_from_seed_restores [OF ref_hash_sized ref_peer_ids_ok ref_dsa_correct _ _ _
        valid_user o, of "replicate 16 2" "replicate 16 1" "Keypair [9]" "[]"] o
    by (auto simp: SEED_LEN_def)
qed

theorem peer_id_self_certifying_witness:
  "peer_id_of ref_crates (VerifyingKey [1]) \<noteq> peer_id_of ref_crates (VerifyingKey [2])"
  using peer_id_self_certifying [OF ref_hash_sized ref_peer_ids_ok,
      of "VerifyingKey [1]" "VerifyingKey [2]"]
  by (simp add: ref_crates_def pubkey_to_bytes_def pad_pad pad_def)

end
