(* ===== verification/Handshake.thy ===== *)
theory Handshake
  imports Framing Identity
begin

text \<open>
  \<open>src/handshake.rs\<close>: one side of the symmetric post-quantum handshake, a state machine over
  the five handshake frames.  Every \<open>unwrap\<close> of the source is a panic branch (\<open>None\<close>); the
  invariant of the reachable states shows that no sequence of frames, however hostile,
  reaches one, and that an established handshake is authenticated.
\<close>

section \<open>Data\<close>

definition HANDSHAKE_TIMEOUT :: duration where "HANDSHAKE_TIMEOUT = secs 30"
definition MAX_USER_NAME :: nat where "MAX_USER_NAME = 64"
definition AUTH_LABEL :: bytes where "AUTH_LABEL = as_bytes ''jeangrey/mvp1/auth/v1''"

record peer_hello =
  ph_pubkey :: verifying_key
  ph_device_uuid :: bytes
  ph_user_name :: string

record handshake_result =
  hr_my_id :: peer_id
  hr_peer_id :: peer_id
  hr_peer_hello :: peer_hello
  hr_keys :: session_keys
  hr_send_key :: bytes
  hr_recv_key :: bytes

datatype hs_step = WaitHello | WaitAuth | WaitReady | StepEstablished

record handshake =
  hs_my_id :: peer_id
  hs_expected_peer :: "peer_id option"
  hs_step :: hs_step
  hs_started_at :: instant
  hs_peer_id :: "peer_id option"
  hs_peer_hello :: "peer_hello option"
  hs_my_hello_payload :: bytes
  hs_peer_hello_payload :: "bytes option"
  hs_my_offer_payload :: "bytes option"
  hs_peer_offer_payload :: "bytes option"
  hs_my_response_payload :: "bytes option"
  hs_peer_response_payload :: "bytes option"
  hs_kem_dk :: "decaps_key option"
  hs_ss_to_peer :: "bytes option"
  hs_ss_from_peer :: "bytes option"
  hs_peer_auth_ok :: bool
  hs_peer_ready :: "bytes option"
  hs_transcript :: "bytes option"
  hs_keys :: "session_keys option"
  hs_result :: "handshake_result option"

datatype handshake_error =
  InvalidFrame string
| Duplicate message_type
| PeerIdMismatch
| BadSignature
| Unexpected message_type

fun handshake_error_display :: "handshake_error \<Rightarrow> string" where
  "handshake_error_display (InvalidFrame m) = ''invalid handshake frame: '' @ m"
| "handshake_error_display (Duplicate t) = ''duplicate '' @ message_type_debug t @ '' frame''"
| "handshake_error_display PeerIdMismatch = ''peer public key does not match the expected Peer ID''"
| "handshake_error_display BadSignature = ''ML-DSA signature verification failed''"
| "handshake_error_display (Unexpected t) =
     ''unexpected '' @ message_type_debug t @ '' frame in current state''"

datatype handshake_action = Frames "frame list" | Established handshake_result

type_synonym hs_outcome = "(handshake \<times> (handshake_error + handshake_action)) option"

section \<open>Payloads, transcript and key selection\<close>

definition encode_hello :: "crates \<Rightarrow> device_identity \<Rightarrow> bytes" where
  "encode_hello E d =
     (let name = as_bytes (ui_user_name (di_user d)) in
      di_device_uuid d @ be16 (of_nat (length name)) @ name @ public_key_bytes E d)"

definition decode_hello :: "crates \<Rightarrow> bytes \<Rightarrow> peer_hello option" where
  "decode_hello E payload =
     (if length payload < 16 + 2 + PUBKEY_LEN then None
      else
        (let device_uuid = slice_of 0 16 payload;
             name_len = unat (un_be16 (slice_of 16 18 payload)) in
         if name_len > MAX_USER_NAME then None
         else
           (let name_end = 18 + name_len in
            if length payload \<noteq> 18 + name_len + PUBKEY_LEN then None
            else case from_utf8 (slice_of 18 name_end payload) of
              None \<Rightarrow> None
            | Some user_name \<Rightarrow>
                (case pubkey_from_bytes E (drop name_end payload) of
                   None \<Rightarrow> None
                 | Some pubkey \<Rightarrow>
                     Some \<lparr>ph_pubkey = pubkey, ph_device_uuid = device_uuid,
                           ph_user_name = user_name\<rparr>))))"

text \<open>The bytes fed to the hash for one payload, and for the six payloads in canonical
  order: grouped by frame type, the lower Peer ID first within a group.\<close>

definition transcript_entry :: "u8 \<times> bytes \<Rightarrow> bytes" where
  "transcript_entry e = (case e of (tag, payload) \<Rightarrow> [tag] @ be32 (of_nat (length payload)) @ payload)"

definition transcript_input :: "bool \<Rightarrow> (u8 \<times> bytes) list \<Rightarrow> (u8 \<times> bytes) list \<Rightarrow> bytes" where
  "transcript_input mine_first mine theirs =
     concat (map (\<lambda>(m, t). if mine_first then transcript_entry m @ transcript_entry t
                           else transcript_entry t @ transcript_entry m) (zip mine theirs))"

definition build_transcript ::
  "crates \<Rightarrow> peer_id \<Rightarrow> peer_id \<Rightarrow> (u8 \<times> bytes) list \<Rightarrow> (u8 \<times> bytes) list \<Rightarrow> bytes" where
  "build_transcript E my_id peer_id mine theirs =
     sha256_digest E (transcript_input (pid_less E my_id peer_id) mine theirs)"

definition combine_shared_secrets :: "bytes \<Rightarrow> bytes \<Rightarrow> bool \<Rightarrow> bytes" where
  "combine_shared_secrets ss_to_peer ss_from_peer mine_is_lower =
     (if mine_is_lower then ss_from_peer @ ss_to_peer else ss_to_peer @ ss_from_peer)"

definition select_keys :: "crates \<Rightarrow> session_keys \<Rightarrow> peer_id \<Rightarrow> peer_id \<Rightarrow> bytes \<times> bytes" where
  "select_keys E keys my_id peer_id =
     (if pid_less E my_id peer_id then (a_to_b keys, b_to_a keys) else (b_to_a keys, a_to_b keys))"

section \<open>The state machine\<close>

definition handshake_new ::
  "crates \<Rightarrow> device_identity \<Rightarrow> peer_id option \<Rightarrow> instant \<Rightarrow> handshake \<times> frame" where
  "handshake_new E identity expected_peer now =
     (let hello_payload = encode_hello E identity;
          hello = frame_handshake Hello hello_payload in
      (\<lparr>hs_my_id = di_peer_id identity, hs_expected_peer = expected_peer, hs_step = WaitHello,
        hs_started_at = now, hs_peer_id = None, hs_peer_hello = None,
        hs_my_hello_payload = hello_payload, hs_peer_hello_payload = None,
        hs_my_offer_payload = None, hs_peer_offer_payload = None,
        hs_my_response_payload = None, hs_peer_response_payload = None, hs_kem_dk = None,
        hs_ss_to_peer = None, hs_ss_from_peer = None, hs_peer_auth_ok = False,
        hs_peer_ready = None, hs_transcript = None, hs_keys = None, hs_result = None\<rparr>, hello))"

definition hs_timed_out :: "handshake \<Rightarrow> instant \<Rightarrow> bool" where
  "hs_timed_out s now \<longleftrightarrow> duration_since now (hs_started_at s) > HANDSHAKE_TIMEOUT"

definition on_hello :: "crates \<Rightarrow> frame \<Rightarrow> entropy \<Rightarrow> handshake \<Rightarrow> hs_outcome" where
  "on_hello E f rng s =
     (if hs_peer_hello_payload s \<noteq> None then Some (s, Inl (Duplicate Hello))
      else case decode_hello E (fr_payload f) of
        None \<Rightarrow> Some (s, Inl (InvalidFrame ''malformed Hello payload''))
      | Some hello \<Rightarrow>
          (case peer_id_of E (ph_pubkey hello) of
             None \<Rightarrow> None
           | Some pid \<Rightarrow>
               if hs_expected_peer s \<noteq> None \<and> hs_expected_peer s \<noteq> Some pid
               then Some (s, Inl PeerIdMismatch)
               else
                 (case kem_generate E rng of (ek, dk) \<Rightarrow>
                    Some (s\<lparr>hs_peer_id := Some pid, hs_peer_hello := Some hello,
                            hs_peer_hello_payload := Some (fr_payload f),
                            hs_kem_dk := Some dk, hs_my_offer_payload := Some ek\<rparr>,
                          Inr (Frames [frame_handshake KemOffer ek])))))"

definition on_kem_offer :: "crates \<Rightarrow> frame \<Rightarrow> entropy \<Rightarrow> handshake \<Rightarrow> hs_outcome" where
  "on_kem_offer E f rng s =
     (if hs_peer_hello s = None then Some (s, Inl (Unexpected KemOffer))
      else if hs_peer_offer_payload s \<noteq> None then Some (s, Inl (Duplicate KemOffer))
      else case kem_encapsulate E (fr_payload f) rng of
        Inl e \<Rightarrow> Some (s, Inl (InvalidFrame (''bad KemOffer payload: '' @ kem_error_display e)))
      | Inr (ct, ss) \<Rightarrow>
          Some (s\<lparr>hs_peer_offer_payload := Some (fr_payload f), hs_ss_to_peer := Some ss,
                  hs_my_response_payload := Some ct\<rparr>,
                Inr (Frames [frame_handshake KemResponse ct])))"

text \<open>The \<open>unwrap\<close>s of \<open>finish_kem\<close>, in the order of the code.\<close>

definition finish_kem :: "crates \<Rightarrow> device_identity \<Rightarrow> entropy \<Rightarrow> handshake \<Rightarrow> hs_outcome" where
  "finish_kem E identity rng s =
     (case hs_peer_id s of
        None \<Rightarrow> Some (s, Inl (InvalidFrame ''missing peer identity''))
      | Some pid \<Rightarrow>
     (case (hs_my_offer_payload s, hs_my_response_payload s, hs_peer_hello_payload s,
            hs_peer_offer_payload s, hs_peer_response_payload s) of
        (Some my_offer, Some my_response, Some peer_hello, Some peer_offer, Some peer_response) \<Rightarrow>
          (let transcript = build_transcript E (hs_my_id s) pid
                 [(1, hs_my_hello_payload s), (2, my_offer), (3, my_response)]
                 [(1, peer_hello), (2, peer_offer), (3, peer_response)] in
           (case (hs_ss_to_peer s, hs_ss_from_peer s) of
              (Some ss_to, Some ss_from) \<Rightarrow>
                (let ikm = combine_shared_secrets ss_to ss_from (pid_less E (hs_my_id s) pid) in
                 case derive_session_keys E ikm transcript of
                   None \<Rightarrow> None
                 | Some keys \<Rightarrow>
                     (case sk_sign E (di_secret_key identity) (AUTH_LABEL @ transcript) rng of
                        None \<Rightarrow> None
                      | Some sig \<Rightarrow>
                          Some (s\<lparr>hs_transcript := Some transcript, hs_keys := Some keys,
                                  hs_step := WaitAuth\<rparr>,
                                Inr (Frames [frame_handshake Auth sig]))))
            | _ \<Rightarrow> None))
      | _ \<Rightarrow> None))"

definition on_kem_response ::
  "crates \<Rightarrow> device_identity \<Rightarrow> frame \<Rightarrow> entropy \<Rightarrow> handshake \<Rightarrow> hs_outcome" where
  "on_kem_response E identity f rng s =
     (if hs_peer_hello s = None then Some (s, Inl (Unexpected KemResponse))
      else if hs_peer_response_payload s \<noteq> None then Some (s, Inl (Duplicate KemResponse))
      else case hs_kem_dk s of
        None \<Rightarrow> Some (s, Inl (Unexpected KemResponse))
      | Some dk \<Rightarrow>
          (case kem_decapsulate E dk (fr_payload f) of
             Inl e \<Rightarrow> Some (s, Inl (InvalidFrame (''bad KemResponse payload: '' @ kem_error_display e)))
           | Inr ss \<Rightarrow>
               (let s' = s\<lparr>hs_peer_response_payload := Some (fr_payload f),
                          hs_ss_from_peer := Some ss\<rparr> in
                if hs_my_response_payload s' \<noteq> None then finish_kem E identity rng s'
                else Some (s', Inr (Frames [])))))"

definition on_auth :: "crates \<Rightarrow> frame \<Rightarrow> handshake \<Rightarrow> hs_outcome" where
  "on_auth E f s =
     (if hs_peer_auth_ok s then Some (s, Inl (Duplicate Auth))
      else case hs_transcript s of
        None \<Rightarrow> Some (s, Inl (Unexpected Auth))
      | Some transcript \<Rightarrow>
          (case hs_peer_hello s of
             None \<Rightarrow> Some (s, Inl (Unexpected Auth))
           | Some hello \<Rightarrow>
               if \<not> mldsa_verify E (ph_pubkey hello) (AUTH_LABEL @ transcript) (fr_payload f)
               then Some (s, Inl BadSignature)
               else
                 (case hs_keys s of
                    None \<Rightarrow> None
                  | Some keys \<Rightarrow>
                      Some (s\<lparr>hs_peer_auth_ok := True, hs_step := WaitReady\<rparr>,
                            Inr (Frames [frame_handshake Ready (sk_session_id keys)])))))"

definition on_ready :: "crates \<Rightarrow> frame \<Rightarrow> handshake \<Rightarrow> hs_outcome" where
  "on_ready E f s =
     (if hs_peer_ready s \<noteq> None then Some (s, Inl (Duplicate Ready))
      else if \<not> hs_peer_auth_ok s then Some (s, Inl (Unexpected Ready))
      else if length (fr_payload f) \<noteq> SESSION_ID_LEN
      then Some (s, Inl (InvalidFrame ''bad Ready payload''))
      else
        (let sid = fr_payload f in
         case hs_keys s of
           None \<Rightarrow> None
         | Some keys \<Rightarrow>
             if sid \<noteq> sk_session_id keys then Some (s, Inl (InvalidFrame ''session id mismatch''))
             else
               (case (hs_peer_id s, hs_peer_hello s) of
                  (Some pid, Some hello) \<Rightarrow>
                    (case select_keys E keys (hs_my_id s) pid of (send_key, recv_key) \<Rightarrow>
                       let res = \<lparr>hr_my_id = hs_my_id s, hr_peer_id = pid, hr_peer_hello = hello,
                                  hr_keys = keys, hr_send_key = send_key,
                                  hr_recv_key = recv_key\<rparr> in
                       Some (s\<lparr>hs_peer_ready := Some sid, hs_step := StepEstablished,
                               hs_result := Some res\<rparr>,
                             Inr (Established res)))
                | _ \<Rightarrow> None)))"

definition on_frame ::
  "crates \<Rightarrow> device_identity \<Rightarrow> frame \<Rightarrow> entropy \<Rightarrow> handshake \<Rightarrow> hs_outcome" where
  "on_frame E identity f rng s =
     (if fr_flags f \<noteq> 0 then Some (s, Inl (InvalidFrame ''flags set''))
      else case fr_msg_type f of
        Hello \<Rightarrow> on_hello E f rng s
      | KemOffer \<Rightarrow> on_kem_offer E f rng s
      | KemResponse \<Rightarrow> on_kem_response E identity f rng s
      | Auth \<Rightarrow> on_auth E f s
      | Ready \<Rightarrow> on_ready E f s
      | t \<Rightarrow> Some (s, Inl (Unexpected t)))"

section \<open>The Hello payload\<close>

lemma decode_hello_layout:
  assumes u: "length u = 16" and pk: "length pk = PUBKEY_LEN" and n: "unat n = length nm mod 65536"
  shows "decode_hello E (u @ be16 n @ nm @ pk) =
     (if length nm \<le> MAX_USER_NAME \<and> utf8_valid nm
      then Some \<lparr>ph_pubkey = mldsa_decode E pk, ph_device_uuid = u, ph_user_name = chars_of nm\<rparr>
      else None)"
proof -
  let ?p = "u @ be16 n @ nm @ pk"
  have f: "slice_of 0 16 ?p = u" "un_be16 (slice_of 16 18 ?p) = n"
    using u be16_codec.read_field [of u 16 18 n "nm @ pk"] by (simp_all add: slice_of_def)
  have len: "length ?p = 18 + length nm + PUBKEY_LEN" using u pk by simp
  show ?thesis
  proof (cases "length nm \<le> MAX_USER_NAME")
    case True
    then have "unat n = length nm" using n by (simp add: MAX_USER_NAME_def)
    moreover have "slice_of 18 (18 + length nm) ?p = nm" "drop (18 + length nm) ?p = pk"
      using u by (simp_all add: slice_of_def)
    ultimately show ?thesis
      unfolding decode_hello_def Let_def f len
      using True pk by (simp add: from_utf8_def pubkey_from_bytes_def del: append_assoc)
  next
    case False
    then have "unat n \<noteq> length nm \<or> unat n > MAX_USER_NAME" by simp
    then show ?thesis
      unfolding decode_hello_def Let_def f len using False by auto
  qed
qed

lemma hello_decodes:
  assumes "dsa_correct E" and "wf_identity E d"
  shows "decode_hello E (encode_hello E d) =
     (if length (ui_user_name (di_user d)) \<le> MAX_USER_NAME
      then Some \<lparr>ph_pubkey = di_verifying_key d, ph_device_uuid = di_device_uuid d,
                 ph_user_name = ui_user_name (di_user d)\<rparr>
      else None)"
proof -
  let ?n = "as_bytes (ui_user_name (di_user d))"
  have "unat (of_nat (length ?n) :: u16) = length ?n mod 65536" by (simp add: unat_of_nat)
  moreover have "length (di_device_uuid d) = 16" "utf8_valid ?n"
    using assms(2) by (simp_all add: wf_identity_def valid_str_def)
  moreover have "mldsa_decode E (public_key_bytes E d) = di_verifying_key d"
    using wf_identity_pubkey [OF assms] by (simp add: pubkey_from_bytes_def split: if_splits)
  ultimately show ?thesis
    using decode_hello_layout [of "di_device_uuid d" "public_key_bytes E d" _ ?n E]
      wf_identity_pubkey(2) [OF assms]
    by (simp add: encode_hello_def)
qed

section \<open>Symmetry of the two views\<close>

lemma transcript_input_swap:
  "length mine = length theirs \<Longrightarrow> transcript_input b mine theirs = transcript_input (\<not> b) theirs mine"
  by (induction mine theirs rule: list_induct2) (simp_all add: transcript_input_def)

lemma build_transcript_swap:
  assumes "peer_ids_ok E" and "p \<noteq> q" and "length mine = length theirs"
  shows "build_transcript E p q mine theirs = build_transcript E q p theirs mine"
  using transcript_input_swap [OF assms(3), of "pid_less E p q"] pid_less_cases [OF assms(1,2)]
  by (simp add: build_transcript_def)

lemma combine_swap: "combine_shared_secrets x y b = combine_shared_secrets y x (\<not> b)"
  by (simp add: combine_shared_secrets_def)

lemma select_keys_swap:
  assumes "peer_ids_ok E" and "p \<noteq> q"
  shows "select_keys E k q p = (snd (select_keys E k p q), fst (select_keys E k p q))"
  using pid_less_cases [OF assms] by (simp add: select_keys_def)

section \<open>The invariant of reachable states\<close>

text \<open>A history is the list of frames fed so far, with the current state.\<close>

type_synonym hs_config = "frame list \<times> handshake"

definition hs_got :: "frame list \<Rightarrow> message_type \<Rightarrow> bytes \<Rightarrow> bool" where
  "hs_got fs t p \<longleftrightarrow> (\<exists>f \<in> set fs. fr_msg_type f = t \<and> fr_payload f = p)"

definition hs_init ::
  "crates \<Rightarrow> device_identity \<Rightarrow> peer_id option \<Rightarrow> hs_config \<Rightarrow> bool" where
  "hs_init E d exp c \<longleftrightarrow> fst c = [] \<and> (\<exists>now. snd c = fst (handshake_new E d exp now))"

definition hs_next :: "crates \<Rightarrow> device_identity \<Rightarrow> hs_config \<Rightarrow> hs_config \<Rightarrow> bool" where
  "hs_next E d c c' \<longleftrightarrow>
     (\<exists>f r res. fst c' = fst c @ [f] \<and> on_frame E d f r (snd c) = Some (snd c', res))"

definition hs_hello_inv ::
  "crates \<Rightarrow> device_identity \<Rightarrow> peer_id option \<Rightarrow> frame list \<Rightarrow> handshake \<Rightarrow> bool" where
  "hs_hello_inv E d exp fs s \<longleftrightarrow>
     hs_my_id s = di_peer_id d \<and> hs_expected_peer s = exp \<and>
     hs_my_hello_payload s = encode_hello E d \<and>
     (case hs_peer_hello s of
        None \<Rightarrow> hs_peer_hello_payload s = None \<and> hs_peer_id s = None \<and>
          hs_my_offer_payload s = None \<and> hs_kem_dk s = None \<and>
          hs_peer_offer_payload s = None \<and> hs_peer_response_payload s = None
      | Some h \<Rightarrow>
          (\<exists>p pid. hs_peer_hello_payload s = Some p \<and> hs_got fs Hello p \<and>
             decode_hello E p = Some h \<and> hs_peer_id s = Some pid \<and>
             peer_id_of E (ph_pubkey h) = Some pid \<and> (exp = None \<or> exp = Some pid) \<and>
             hs_my_offer_payload s \<noteq> None \<and> hs_kem_dk s \<noteq> None))"

definition hs_kem_inv :: "frame list \<Rightarrow> handshake \<Rightarrow> bool" where
  "hs_kem_inv fs s \<longleftrightarrow>
     (hs_ss_to_peer s = None \<longleftrightarrow> hs_peer_offer_payload s = None) \<and>
     (hs_my_response_payload s = None \<longleftrightarrow> hs_peer_offer_payload s = None) \<and>
     (hs_ss_from_peer s = None \<longleftrightarrow> hs_peer_response_payload s = None) \<and>
     (\<forall>p. hs_peer_offer_payload s = Some p \<longrightarrow> hs_got fs KemOffer p) \<and>
     (\<forall>p. hs_peer_response_payload s = Some p \<longrightarrow> hs_got fs KemResponse p)"

text \<open>The transcript a state with both KEM halves determines, and its key material.\<close>

definition hs_view :: "crates \<Rightarrow> handshake \<Rightarrow> bytes" where
  "hs_view E s =
     build_transcript E (hs_my_id s) (the (hs_peer_id s))
       [(1, hs_my_hello_payload s), (2, the (hs_my_offer_payload s)),
        (3, the (hs_my_response_payload s))]
       [(1, the (hs_peer_hello_payload s)), (2, the (hs_peer_offer_payload s)),
        (3, the (hs_peer_response_payload s))]"

definition hs_ikm :: "crates \<Rightarrow> handshake \<Rightarrow> bytes" where
  "hs_ikm E s = combine_shared_secrets (the (hs_ss_to_peer s)) (the (hs_ss_from_peer s))
     (pid_less E (hs_my_id s) (the (hs_peer_id s)))"

definition hs_key_inv :: "crates \<Rightarrow> handshake \<Rightarrow> bool" where
  "hs_key_inv E s \<longleftrightarrow>
     (hs_keys s = None \<longleftrightarrow> hs_transcript s = None) \<and>
     (hs_transcript s \<noteq> None \<longrightarrow>
        hs_peer_hello s \<noteq> None \<and> hs_peer_offer_payload s \<noteq> None \<and>
        hs_peer_response_payload s \<noteq> None \<and> hs_transcript s = Some (hs_view E s) \<and>
        hs_keys s = derive_session_keys E (hs_ikm E s) (hs_view E s))"

definition hs_auth_inv :: "crates \<Rightarrow> frame list \<Rightarrow> handshake \<Rightarrow> bool" where
  "hs_auth_inv E fs s \<longleftrightarrow>
     (hs_peer_auth_ok s \<longrightarrow> hs_transcript s \<noteq> None \<and>
        (\<exists>sig. hs_got fs Auth sig \<and>
           mldsa_verify E (ph_pubkey (the (hs_peer_hello s)))
             (AUTH_LABEL @ the (hs_transcript s)) sig)) \<and>
     (hs_peer_ready s \<noteq> None \<longrightarrow> hs_peer_auth_ok s) \<and>
     (hs_result s = None \<longleftrightarrow> hs_peer_ready s = None) \<and>
     hs_step s =
       (if hs_peer_ready s \<noteq> None then StepEstablished
        else if hs_peer_auth_ok s then WaitReady
        else if hs_transcript s \<noteq> None then WaitAuth else WaitHello)"

definition hs_inv ::
  "crates \<Rightarrow> device_identity \<Rightarrow> peer_id option \<Rightarrow> hs_config \<Rightarrow> bool" where
  "hs_inv E d exp c \<longleftrightarrow>
     hs_hello_inv E d exp (fst c) (snd c) \<and> hs_kem_inv (fst c) (snd c) \<and>
     hs_key_inv E (snd c) \<and> hs_auth_inv E (fst c) (snd c)"

lemmas hs_inv_defs = hs_hello_inv_def hs_kem_inv_def hs_key_inv_def hs_auth_inv_def
  hs_view_def hs_ikm_def

lemma hs_got_snoc [simp]:
  "hs_got (fs @ [f]) t p \<longleftrightarrow> hs_got fs t p \<or> (fr_msg_type f = t \<and> fr_payload f = p)"
  by (auto simp: hs_got_def)

text \<open>The late phases leave the fields of the earlier invariants alone.\<close>

lemma hs_inv_frame [simp]:
  "hs_hello_inv E d exp fs (s\<lparr>hs_peer_auth_ok := a, hs_step := st\<rparr>) = hs_hello_inv E d exp fs s"
  "hs_kem_inv fs (s\<lparr>hs_peer_auth_ok := a, hs_step := st\<rparr>) = hs_kem_inv fs s"
  "hs_key_inv E (s\<lparr>hs_peer_auth_ok := a, hs_step := st\<rparr>) = hs_key_inv E s"
  "hs_hello_inv E d exp fs (s\<lparr>hs_peer_ready := p, hs_step := st, hs_result := r\<rparr>)
   = hs_hello_inv E d exp fs s"
  "hs_kem_inv fs (s\<lparr>hs_peer_ready := p, hs_step := st, hs_result := r\<rparr>) = hs_kem_inv fs s"
  "hs_key_inv E (s\<lparr>hs_peer_ready := p, hs_step := st, hs_result := r\<rparr>) = hs_key_inv E s"
  by (simp_all add: hs_hello_inv_def hs_kem_inv_def hs_key_inv_def hs_view_def hs_ikm_def
      split: option.splits)

lemma hs_inv_init: "hs_init E d exp c \<Longrightarrow> hs_inv E d exp c"
  by (auto simp: hs_init_def hs_inv_def hs_inv_defs handshake_new_def Let_def)

lemma hs_inv_more:
  assumes "hs_inv E d exp (fs, s)"
  shows "hs_inv E d exp (fs @ [f], s)"
  using assms by (auto simp: hs_inv_def hs_inv_defs split: option.splits)

text \<open>A handler either reports an error and leaves the state alone, or updates it in one way.\<close>

lemma on_hello_cases:
  assumes "on_hello E f r s = Some (s', res)"
  obtains (err) e where "s' = s" "res = Inl e"
  | (ok) hello pid ek dk where "hs_peer_hello_payload s = None"
      "decode_hello E (fr_payload f) = Some hello" "peer_id_of E (ph_pubkey hello) = Some pid"
      "hs_expected_peer s = None \<or> hs_expected_peer s = Some pid" "kem_generate E r = (ek, dk)"
      "s' = s\<lparr>hs_peer_id := Some pid, hs_peer_hello := Some hello,
               hs_peer_hello_payload := Some (fr_payload f),
               hs_kem_dk := Some dk, hs_my_offer_payload := Some ek\<rparr>"
      "res = Inr (Frames [frame_handshake KemOffer ek])"
  using assms by (auto simp: on_hello_def split: option.splits if_splits prod.splits)

lemma on_kem_offer_cases:
  assumes "on_kem_offer E f r s = Some (s', res)"
  obtains (err) e where "s' = s" "res = Inl e"
  | (ok) ct ss where "hs_peer_hello s \<noteq> None" "hs_peer_offer_payload s = None"
      "kem_encapsulate E (fr_payload f) r = Inr (ct, ss)"
      "s' = s\<lparr>hs_peer_offer_payload := Some (fr_payload f), hs_ss_to_peer := Some ss,
               hs_my_response_payload := Some ct\<rparr>"
      "res = Inr (Frames [frame_handshake KemResponse ct])"
  using assms by (auto simp: on_kem_offer_def split: option.splits if_splits sum.splits prod.splits)

lemma on_ready_cases:
  assumes "on_ready E f s = Some (s', res)"
  obtains (err) e where "s' = s" "res = Inl e"
  | (ok) keys pid hello where "hs_peer_ready s = None" "hs_peer_auth_ok s"
      "hs_keys s = Some keys" "fr_payload f = sk_session_id keys"
      "hs_peer_id s = Some pid" "hs_peer_hello s = Some hello"
      "s' = s\<lparr>hs_peer_ready := Some (fr_payload f), hs_step := StepEstablished,
               hs_result := Some \<lparr>hr_my_id = hs_my_id s, hr_peer_id = pid,
                 hr_peer_hello = hello, hr_keys = keys,
                 hr_send_key = fst (select_keys E keys (hs_my_id s) pid),
                 hr_recv_key = snd (select_keys E keys (hs_my_id s) pid)\<rparr>\<rparr>"
      "res = Inr (Established (the (hs_result s')))"
proof (cases "hs_peer_ready s = None \<and> hs_peer_auth_ok s \<and> length (fr_payload f) = SESSION_ID_LEN")
  case False
  then show thesis using assms err by (auto simp: on_ready_def split: if_splits)
next
  case True
  then obtain keys where k: "hs_keys s = Some keys"
    using assms by (cases "hs_keys s") (simp_all add: on_ready_def Let_def)
  show thesis
  proof (cases "fr_payload f = sk_session_id keys")
    case False
    then show thesis using assms err True k by (auto simp: on_ready_def)
  next
    case eq: True
    then obtain pid hello where "hs_peer_id s = Some pid" "hs_peer_hello s = Some hello"
      using assms True k
      by (cases "hs_peer_id s"; cases "hs_peer_hello s") (simp_all add: on_ready_def Let_def)
    with True k eq assms show thesis
      by (intro ok) (auto simp: on_ready_def Let_def split: prod.splits)
  qed
qed

lemma on_auth_cases:
  assumes "on_auth E f s = Some (s', res)"
  obtains (err) e where "s' = s" "res = Inl e"
  | (ok) transcript hello keys where "\<not> hs_peer_auth_ok s" "hs_transcript s = Some transcript"
      "hs_peer_hello s = Some hello" "hs_keys s = Some keys"
      "mldsa_verify E (ph_pubkey hello) (AUTH_LABEL @ transcript) (fr_payload f)"
      "s' = s\<lparr>hs_peer_auth_ok := True, hs_step := WaitReady\<rparr>"
      "res = Inr (Frames [frame_handshake Ready (sk_session_id keys)])"
  using assms by (auto simp: on_auth_def split: option.splits if_splits)

lemma on_hello_inv:
  assumes inv: "hs_inv E d exp (fs, s)" and f: "fr_msg_type f = Hello"
    and step: "on_hello E f r s = Some (s', res)"
  shows "hs_inv E d exp (fs @ [f], s')"
  using step
proof (cases rule: on_hello_cases)
  case err
  then show ?thesis using inv by (simp add: hs_inv_more)
next
  case ok
  from inv have none: "hs_peer_hello s = None" "hs_transcript s = None"
    using ok(1) by (auto simp: hs_inv_def hs_inv_defs split: option.splits)
  with inv show ?thesis unfolding ok(6) hs_inv_def fst_conv snd_conv
    by (intro conjI) (use ok(1-5) f in \<open>auto simp: hs_inv_defs\<close>)
qed

lemma on_kem_offer_inv:
  assumes inv: "hs_inv E d exp (fs, s)" and f: "fr_msg_type f = KemOffer"
    and step: "on_kem_offer E f r s = Some (s', res)"
  shows "hs_inv E d exp (fs @ [f], s')"
  using step
proof (cases rule: on_kem_offer_cases)
  case err
  then show ?thesis using inv by (simp add: hs_inv_more)
next
  case ok
  from inv have none: "hs_transcript s = None"
    using ok(2) by (auto simp: hs_inv_def hs_key_inv_def)
  from ok(1) obtain h where h: "hs_peer_hello s = Some h" by blast
  from inv none h show ?thesis unfolding ok(4) hs_inv_def fst_conv snd_conv
    by (intro conjI) (use ok(2) f in \<open>auto simp: hs_inv_defs\<close>)
qed

lemma finish_kem_inv:
  assumes inv: "hs_inv E d exp (fs, s)" and none: "hs_transcript s = None"
    and resp: "hs_peer_response_payload s \<noteq> None"
    and step: "finish_kem E d r s = Some (s', res)"
  shows "hs_inv E d exp (fs, s')"
  using assms
  by (auto simp: hs_inv_def hs_inv_defs finish_kem_def Let_def split: option.splits if_splits)

lemma on_kem_response_inv:
  assumes inv: "hs_inv E d exp (fs, s)" and "fr_msg_type f = KemResponse"
    and step: "on_kem_response E d f r s = Some (s', res)"
  shows "hs_inv E d exp (fs @ [f], s')"
proof (cases "s' = s")
  case True
  then show ?thesis using inv by (simp add: hs_inv_more)
next
  case False
  define s0 where "s0 ss = s\<lparr>hs_peer_response_payload := Some (fr_payload f),
                               hs_ss_from_peer := Some ss\<rparr>" for ss
  from step False obtain ss where none: "hs_peer_response_payload s = None"
    and hello: "hs_peer_hello s \<noteq> None"
    and out: "s' = s0 ss \<or> finish_kem E d r (s0 ss) = Some (s', res)"
    by (auto simp: on_kem_response_def s0_def Let_def split: option.splits if_splits sum.splits)
  have "hs_inv E d exp (fs @ [f], s0 ss)" "hs_transcript (s0 ss) = None"
    using inv none hello assms(2)
    by (auto simp: hs_inv_def hs_inv_defs s0_def split: option.splits if_splits)
  then show ?thesis using out finish_kem_inv [of E d exp "fs @ [f]" "s0 ss" r s' res]
    by (auto simp: s0_def)
qed

lemma on_auth_inv:
  assumes inv: "hs_inv E d exp (fs, s)" and f: "fr_msg_type f = Auth"
    and step: "on_auth E f s = Some (s', res)"
  shows "hs_inv E d exp (fs @ [f], s')"
  using step
proof (cases rule: on_auth_cases)
  case err
  then show ?thesis using inv by (simp add: hs_inv_more)
next
  case (ok transcript hello keys)
  have "hs_peer_ready s = None" using inv ok(1) by (auto simp: hs_inv_def hs_auth_inv_def)
  moreover have "hs_hello_inv E d exp (fs @ [f]) s" "hs_kem_inv (fs @ [f]) s" "hs_key_inv E s"
    "hs_auth_inv E fs s" using hs_inv_more [OF inv, of f] inv by (simp_all add: hs_inv_def)
  ultimately show ?thesis unfolding ok(6) hs_inv_def fst_conv snd_conv
    by (intro conjI) (use ok(2,3,5) f in \<open>auto simp: hs_auth_inv_def\<close>)
qed

lemma on_ready_inv:
  assumes inv: "hs_inv E d exp (fs, s)" and f: "fr_msg_type f = Ready"
    and step: "on_ready E f s = Some (s', res)"
  shows "hs_inv E d exp (fs @ [f], s')"
  using step
proof (cases rule: on_ready_cases)
  case err
  then show ?thesis using inv by (simp add: hs_inv_more)
next
  case (ok keys pid hello)
  have "hs_hello_inv E d exp (fs @ [f]) s" "hs_kem_inv (fs @ [f]) s" "hs_key_inv E s"
    "hs_auth_inv E (fs @ [f]) s" using hs_inv_more [OF inv, of f] by (simp_all add: hs_inv_def)
  then show ?thesis unfolding ok(7) hs_inv_def fst_conv snd_conv
    by (intro conjI) (use ok(2) in \<open>auto simp: hs_auth_inv_def\<close>)
qed

lemma on_frame_inv:
  assumes inv: "hs_inv E d exp (fs, s)" and step: "on_frame E d f r s = Some (s', res)"
  shows "hs_inv E d exp (fs @ [f], s')"
proof (cases "fr_flags f = 0")
  case False
  then show ?thesis using assms by (auto simp: on_frame_def intro: hs_inv_more)
next
  case True
  note rules = on_hello_inv on_kem_offer_inv on_kem_response_inv on_auth_inv on_ready_inv
  from True step show ?thesis
    by (cases "fr_msg_type f") (use inv in \<open>auto simp: on_frame_def intro: rules hs_inv_more\<close>)
qed

lemma hs_inv_next: "hs_inv E d exp c \<Longrightarrow> hs_next E d c c' \<Longrightarrow> hs_inv E d exp c'"
  using on_frame_inv [of E d exp "fst c" "snd c"] by (cases c') (auto simp: hs_next_def)

interpretation hs: invariant_system "hs_init E d exp" "hs_next E d" "hs_inv E d exp"
  for E d exp
  by unfold_locales (auto intro: hs_inv_init hs_inv_next)

section \<open>No panic, and errors leave the state alone\<close>

lemma finish_kem_total:
  assumes "kdf_total E" "dsa_correct E" "wf_identity E d" and inv: "hs_inv E d exp (fs, s)"
    and some: "hs_peer_hello s \<noteq> None" "hs_my_response_payload s \<noteq> None"
      "hs_peer_response_payload s \<noteq> None"
  shows "\<exists>s' fr. finish_kem E d r s = Some (s', Inr (Frames [fr]))"
proof -
  from some inv obtain pid mo mr ph po pr st sf where f:
    "hs_peer_id s = Some pid" "hs_my_offer_payload s = Some mo" "hs_my_response_payload s = Some mr"
    "hs_peer_hello_payload s = Some ph" "hs_peer_offer_payload s = Some po"
    "hs_peer_response_payload s = Some pr" "hs_ss_to_peer s = Some st" "hs_ss_from_peer s = Some sf"
    by (auto simp: hs_inv_def hs_hello_inv_def hs_kem_inv_def)
  let ?t = "build_transcript E (hs_my_id s) pid [(1, hs_my_hello_payload s), (2, mo), (3, mr)]
    [(1, ph), (2, po), (3, pr)]"
  obtain k where "derive_session_keys E
      (combine_shared_secrets st sf (pid_less E (hs_my_id s) pid)) ?t = Some k"
    by (rule derive_total [OF assms(1)])
  moreover obtain sig where "sk_sign E (di_secret_key d) (AUTH_LABEL @ ?t) r = Some sig"
    using wf_identity_sign [OF assms(2,3)] by (metis di_sign_def)
  ultimately show ?thesis by (simp add: finish_kem_def f Let_def)
qed

lemma on_kem_response_total:
  assumes "kdf_total E" "dsa_correct E" "wf_identity E d" and inv: "hs_inv E d exp (fs, s)"
    and f: "fr_msg_type f = KemResponse"
  shows "\<exists>s' res. on_kem_response E d f r s = Some (s', res) \<and> (\<forall>e. res = Inl e \<longrightarrow> s' = s)"
proof (cases "hs_peer_hello s = None \<or> hs_peer_response_payload s \<noteq> None")
  case True
  then show ?thesis by (auto simp: on_kem_response_def)
next
  case False
  then obtain dk where dk: "hs_kem_dk s = Some dk"
    using inv by (auto simp: hs_inv_def hs_hello_inv_def split: option.splits)
  show ?thesis
  proof (cases "kem_decapsulate E dk (fr_payload f)")
    case (Inl e)
    then show ?thesis using False dk by (auto simp: on_kem_response_def)
  next
    case (Inr ss)
    let ?s = "s\<lparr>hs_peer_response_payload := Some (fr_payload f), hs_ss_from_peer := Some ss\<rparr>"
    have none: "hs_transcript s = None" using inv False by (auto simp: hs_inv_def hs_key_inv_def)
    have "hs_inv E d exp (fs @ [f], ?s)"
      using inv False f none
      by (auto simp: hs_inv_def hs_inv_defs split: option.splits if_splits)
    then have "hs_my_response_payload s \<noteq> None \<Longrightarrow>
        \<exists>s' fr. finish_kem E d r ?s = Some (s', Inr (Frames [fr]))"
      using finish_kem_total [OF assms(1-3)] False by fastforce
    then show ?thesis using False dk Inr by (auto simp: on_kem_response_def Let_def)
  qed
qed

lemma on_frame_total:
  assumes laws: "hash_sized E" "peer_ids_ok E" "kdf_total E" "dsa_correct E" and d: "wf_identity E d"
    and inv: "hs_inv E d exp (fs, s)"
  shows "\<exists>s' res. on_frame E d f r s = Some (s', res) \<and> (\<forall>e. res = Inl e \<longrightarrow> s' = s)"
proof -
  have hello: "\<exists>s' res. on_hello E f r s = Some (s', res) \<and> (\<forall>e. res = Inl e \<longrightarrow> s' = s)"
  proof (cases "decode_hello E (fr_payload f)")
    case None
    then show ?thesis by (simp add: on_hello_def)
  next
    case (Some h)
    obtain pid where "peer_id_of E (ph_pubkey h) = Some pid" by (rule peer_id_of_total [OF laws(1,2)])
    then show ?thesis using Some by (cases "kem_generate E r") (simp add: on_hello_def)
  qed
  have offer: "\<exists>s' res. on_kem_offer E f r s = Some (s', res) \<and> (\<forall>e. res = Inl e \<longrightarrow> s' = s)"
    by (auto simp: on_kem_offer_def split: sum.splits)
  have auth: "\<exists>s' res. on_auth E f s = Some (s', res) \<and> (\<forall>e. res = Inl e \<longrightarrow> s' = s)"
    using inv by (auto simp: on_auth_def hs_inv_def hs_key_inv_def split: option.splits)
  have "hs_peer_auth_ok s \<Longrightarrow> hs_transcript s \<noteq> None"
    using inv by (auto simp: hs_inv_def hs_auth_inv_def)
  then have "hs_peer_auth_ok s \<Longrightarrow> hs_keys s \<noteq> None \<and> hs_peer_hello s \<noteq> None"
    using inv unfolding hs_inv_def hs_key_inv_def snd_conv by metis
  then have "hs_peer_auth_ok s \<Longrightarrow>
      \<exists>k pid h. hs_keys s = Some k \<and> hs_peer_id s = Some pid \<and> hs_peer_hello s = Some h"
    using inv by (auto simp: hs_inv_def hs_hello_inv_def)
  then have ready: "\<exists>s' res. on_ready E f s = Some (s', res) \<and> (\<forall>e. res = Inl e \<longrightarrow> s' = s)"
    by (auto simp: on_ready_def Let_def split: prod.splits)
  show ?thesis
    using hello offer auth ready on_kem_response_total [OF laws(3,4) d inv]
    by (cases "fr_msg_type f") (auto simp: on_frame_def)
qed

text \<open>No \<open>unwrap\<close> or \<open>expect\<close> of the handshake is reachable: after any sequence of frames
  from any peer, feeding any further frame returns, and when it returns an error the state
  machine is exactly as before (it fails closed and keeps no half-made update).\<close>

theorem handshake_never_panics:
  assumes "hash_sized E" "peer_ids_ok E" "kdf_total E" "dsa_correct E" and "wf_identity E d"
    and "reachable (hs_init E d exp) (hs_next E d) (fs, s)"
  shows "\<exists>s' res. on_frame E d f r s = Some (s', res) \<and> (\<forall>e. res = Inl e \<longrightarrow> s' = s)"
  using on_frame_total [OF assms(1-5) hs.reachable_inv [OF assms(6)]] .

section \<open>What an established handshake has checked\<close>

lemma finish_kem_no_result: "finish_kem E d r s \<noteq> Some (s', Inr (Established res))"
  by (auto simp: finish_kem_def Let_def split: option.splits)

lemma on_frame_Established:
  assumes est: "on_frame E d f r s = Some (s', Inr (Established res))"
  shows "fr_msg_type f = Ready \<and> on_ready E f s = Some (s', Inr (Established res))"
proof -
  have "on_hello E f r s \<noteq> Some (s', Inr (Established res))"
    by (auto elim: on_hello_cases)
  moreover have "on_kem_offer E f r s \<noteq> Some (s', Inr (Established res))"
    by (auto elim: on_kem_offer_cases)
  moreover have "on_auth E f s \<noteq> Some (s', Inr (Established res))"
    by (auto elim: on_auth_cases)
  moreover have "on_kem_response E d f r s \<noteq> Some (s', Inr (Established res))"
    by (auto simp: on_kem_response_def Let_def finish_kem_no_result
        split: option.splits sum.splits if_splits)
  ultimately show ?thesis
    using est by (cases "fr_msg_type f") (auto simp: on_frame_def split: if_splits)
qed

lemma established_checked:
  assumes inv: "hs_inv E d exp (fs, s)"
    and est: "on_frame E d f r s = Some (s', Inr (Established res))"
  shows "\<exists>t sig p.
    hs_got fs Hello p \<and> decode_hello E p = Some (hr_peer_hello res) \<and>
    peer_id_of E (ph_pubkey (hr_peer_hello res)) = Some (hr_peer_id res) \<and>
    (exp = None \<or> exp = Some (hr_peer_id res)) \<and> hr_my_id res = di_peer_id d \<and>
    hs_got fs Auth sig \<and>
    mldsa_verify E (ph_pubkey (hr_peer_hello res)) (AUTH_LABEL @ t) sig \<and>
    t = hs_view E s \<and> hs_peer_hello_payload s = Some p \<and>
    derive_session_keys E (hs_ikm E s) t = Some (hr_keys res) \<and>
    fr_payload f = sk_session_id (hr_keys res) \<and>
    (hr_send_key res, hr_recv_key res) = select_keys E (hr_keys res) (di_peer_id d) (hr_peer_id res)"
proof -
  from est have "on_ready E f s = Some (s', Inr (Established res))"
    using on_frame_Established by blast
  then show ?thesis
  proof (cases rule: on_ready_cases)
    case err
    then show ?thesis by simp
  next
    case (ok keys pid hello)
    from inv ok obtain p where p: "hs_peer_hello_payload s = Some p" "hs_got fs Hello p"
      "decode_hello E p = Some hello" "peer_id_of E (ph_pubkey hello) = Some pid"
      "exp = None \<or> exp = Some pid" "hs_my_id s = di_peer_id d"
      by (auto simp: hs_inv_def hs_hello_inv_def)
    from inv ok(2,3,6) obtain sig where "hs_got fs Auth sig"
      "mldsa_verify E (ph_pubkey hello) (AUTH_LABEL @ hs_view E s) sig"
      "derive_session_keys E (hs_ikm E s) (hs_view E s) = Some keys"
      by (auto simp: hs_inv_def hs_key_inv_def hs_auth_inv_def)
    moreover have "res = \<lparr>hr_my_id = hs_my_id s, hr_peer_id = pid, hr_peer_hello = hello,
        hr_keys = keys, hr_send_key = fst (select_keys E keys (hs_my_id s) pid),
        hr_recv_key = snd (select_keys E keys (hs_my_id s) pid)\<rparr>"
      using ok(7,8) by simp
    ultimately show ?thesis using p ok(4) by auto
  qed
qed

text \<open>C1. Authentication.  When a handshake reports \<open>Established\<close>, the reported peer is the
  SHA-256 self-certifying identity of the public key in the peer's Hello, it is the expected
  peer if one was dialled, the peer sent an \<open>Auth\<close> signature that verifies under that key over
  the transcript of exactly the six payloads exchanged, the session keys are derived from
  both KEM secrets bound to that transcript, the peer's \<open>Ready\<close> carried the derived session id,
  and the two directional keys are selected by Peer ID order.\<close>

theorem established_authenticated:
  assumes reach: "reachable (hs_init E d exp) (hs_next E d) (fs, s)"
    and est: "on_frame E d f r s = Some (s', Inr (Established res))"
  shows "\<exists>t sig p.
    hs_got fs Hello p \<and> decode_hello E p = Some (hr_peer_hello res) \<and>
    peer_id_of E (ph_pubkey (hr_peer_hello res)) = Some (hr_peer_id res) \<and>
    (exp = None \<or> exp = Some (hr_peer_id res)) \<and> hr_my_id res = di_peer_id d \<and>
    hs_got fs Auth sig \<and>
    mldsa_verify E (ph_pubkey (hr_peer_hello res)) (AUTH_LABEL @ t) sig \<and>
    t = hs_view E s \<and> hs_peer_hello_payload s = Some p \<and>
    derive_session_keys E (hs_ikm E s) t = Some (hr_keys res) \<and>
    fr_payload f = sk_session_id (hr_keys res) \<and>
    (hr_send_key res, hr_recv_key res) = select_keys E (hr_keys res) (di_peer_id d) (hr_peer_id res)"
  using established_checked [OF hs.reachable_inv [OF reach] est] .

section \<open>Every frame type is accepted once\<close>

fun hs_seen :: "message_type \<Rightarrow> handshake \<Rightarrow> bool" where
  "hs_seen Hello s \<longleftrightarrow> hs_peer_hello_payload s \<noteq> None"
| "hs_seen KemOffer s \<longleftrightarrow> hs_peer_offer_payload s \<noteq> None"
| "hs_seen KemResponse s \<longleftrightarrow> hs_peer_response_payload s \<noteq> None"
| "hs_seen Auth s \<longleftrightarrow> hs_peer_auth_ok s"
| "hs_seen Ready s \<longleftrightarrow> hs_peer_ready s \<noteq> None"
| "hs_seen _ s \<longleftrightarrow> False"

lemma finish_kem_keeps:
  "finish_kem E d r s = Some (s', res) \<Longrightarrow> hs_seen t s' = hs_seen t s"
  by (cases t) (auto simp: finish_kem_def Let_def split: option.splits)

lemma on_kem_response_seen:
  assumes "on_kem_response E d f r s = Some (s', res)"
  shows "hs_seen t s \<Longrightarrow> hs_seen t s'" and "res = Inr a \<Longrightarrow> hs_seen KemResponse s'"
proof -
  define s0 where "s0 ss = s\<lparr>hs_peer_response_payload := Some (fr_payload f),
                               hs_ss_from_peer := Some ss\<rparr>" for ss
  from assms obtain ss where "(s' = s \<and> (\<exists>e. res = Inl e)) \<or> s' = s0 ss \<or>
      finish_kem E d r (s0 ss) = Some (s', res)"
    by (auto simp: on_kem_response_def s0_def Let_def split: option.splits if_splits sum.splits)
  then have *: "(s' = s \<and> (\<exists>e. res = Inl e)) \<or> (\<forall>t. hs_seen t s' = hs_seen t (s0 ss))"
    using finish_kem_keeps by blast
  have "hs_seen t s \<Longrightarrow> hs_seen t (s0 ss)" by (cases t) (auto simp: s0_def)
  then show "hs_seen t s \<Longrightarrow> hs_seen t s'" using * by auto
  show "res = Inr a \<Longrightarrow> hs_seen KemResponse s'" using * by (auto simp: s0_def)
qed

lemma on_frame_seen:
  assumes "on_frame E d f r s = Some (s', res)"
  shows "hs_seen t s \<Longrightarrow> hs_seen t s'" and "res = Inr a \<Longrightarrow> hs_seen (fr_msg_type f) s'"
proof -
  have keep: "hs_seen t s \<Longrightarrow> hs_seen t s'" if "fr_flags f = 0" for t
  proof (cases "fr_msg_type f = KemResponse")
    case True
    then show "hs_seen t s \<Longrightarrow> hs_seen t s'"
      using assms that on_kem_response_seen(1) [of E d f r s s' res t] by (simp add: on_frame_def)
  next
    case False
    then show "hs_seen t s \<Longrightarrow> hs_seen t s'"
      using assms that
      by (cases "fr_msg_type f"; cases t)
        (auto simp: on_frame_def elim!: on_hello_cases on_kem_offer_cases on_auth_cases on_ready_cases)
  qed
  then show "hs_seen t s \<Longrightarrow> hs_seen t s'"
    using assms by (cases "fr_flags f = 0") (auto simp: on_frame_def)
  show "res = Inr a \<Longrightarrow> hs_seen (fr_msg_type f) s'"
    using assms on_kem_response_seen(2) [of E d f r s s' res a]
    by (cases "fr_msg_type f")
      (auto simp: on_frame_def split: if_splits
        elim!: on_hello_cases on_kem_offer_cases on_auth_cases on_ready_cases)
qed

lemma seen_is_duplicate:
  assumes "hs_inv E d exp (fs, s)" and "hs_seen (fr_msg_type f) s" and "fr_flags f = 0"
  shows "on_frame E d f r s = Some (s, Inl (Duplicate (fr_msg_type f)))"
  using assms
  by (cases "fr_msg_type f")
    (auto simp: on_frame_def on_hello_def on_kem_offer_def on_kem_response_def on_auth_def
      on_ready_def hs_inv_def hs_hello_inv_def split: option.splits)

lemma reachable_seen:
  assumes "reachable (\<lambda>c. c = c0) (hs_next E d) c" and "hs_seen t (snd c0)"
    and "hs_inv E d exp c0"
  shows "hs_seen t (snd c) \<and> hs_inv E d exp c"
  using assms(1)
proof (induction rule: reachable.induct)
  case (reach_init c)
  then show ?case using assms by simp
next
  case (reach_step c c')
  then have "hs_inv E d exp c'" using hs_inv_next by blast
  then show ?case using reach_step on_frame_seen(1) by (auto simp: hs_next_def)
qed

text \<open>C26. No replay inside a handshake: once a frame of some type was accepted, every later
  frame of that type is refused as a duplicate and changes nothing, whatever frames arrive in
  between.  In particular neither the peer identity nor the KEM secrets can be replaced.\<close>

theorem handshake_no_replay:
  assumes reach: "reachable (hs_init E d exp) (hs_next E d) (fs, s)"
    and ok: "on_frame E d f r s = Some (s', Inr a)"
    and later: "reachable (\<lambda>c. c = (fs @ [f], s')) (hs_next E d) (fs'', s'')"
    and same: "fr_msg_type f' = fr_msg_type f" "fr_flags f' = 0"
  shows "on_frame E d f' r' s'' = Some (s'', Inl (Duplicate (fr_msg_type f)))"
proof -
  have "hs_inv E d exp (fs @ [f], s')"
    using on_frame_inv [OF hs.reachable_inv [OF reach] ok] .
  moreover have "hs_seen (fr_msg_type f) s'" using on_frame_seen(2) [OF ok] by simp
  ultimately have "hs_seen (fr_msg_type f) s'' \<and> hs_inv E d exp (fs'', s'')"
    using reachable_seen [OF later] by simp
  then show ?thesis using seen_is_duplicate [of E d exp fs'' s'' f'] same by simp
qed

end
