(* ===== verification/Session.thy ===== *)
theory Session
  imports Handshake
begin

text \<open>
  \<open>src/session.rs\<close>: the state of an established session.  Outgoing plaintexts are sealed with a
  counter nonce; incoming frames pass the session check, the strict sequence check, the AEAD
  and the plaintext parser, in that order.  The wall clock and the random message
  identifiers of acks and control frames are arguments.  \<open>None\<close> is a panic: a counter
  \<open>expect\<close>, a failing AEAD \<open>expect\<close>, \<open>debug_assert!\<close>, or the unchecked violation counter.
\<close>

section \<open>Data\<close>

definition MAX_MESSAGE_BYTES :: nat where "MAX_MESSAGE_BYTES = 4096"
definition SEEN_WINDOW :: nat where "SEEN_WINDOW = 4096"
definition MAX_SEQ_VIOLATIONS :: u32 where "MAX_SEQ_VIOLATIONS = 5"
definition MAX_CONTROL_ADDR_BYTES :: nat where "MAX_CONTROL_ADDR_BYTES = 512"
definition MSG_PLAINTEXT_TAG :: u8 where "MSG_PLAINTEXT_TAG = 0x01"
definition ACK_PLAINTEXT_TAG :: u8 where "ACK_PLAINTEXT_TAG = 0x02"
definition OBSERVED_ADDR_TAG :: u8 where "OBSERVED_ADDR_TAG = 0x03"
definition DIAL_BACK_REQ_TAG :: u8 where "DIAL_BACK_REQ_TAG = 0x04"
definition DIAL_BACK_RES_TAG :: u8 where "DIAL_BACK_RES_TAG = 0x05"

lemmas session_consts = MAX_MESSAGE_BYTES_def SEEN_WINDOW_def MAX_SEQ_VIOLATIONS_def
  MAX_CONTROL_ADDR_BYTES_def MSG_PLAINTEXT_TAG_def ACK_PLAINTEXT_TAG_def OBSERVED_ADDR_TAG_def
  DIAL_BACK_REQ_TAG_def DIAL_BACK_RES_TAG_def

text \<open>\<open>Inbound\<close>, with the fields in the order of the source.\<close>

datatype inbound =
  Inbound_Message u32 u64 u64 string
| Inbound_Ack u64 u32
| Inbound_ObservedAddr u32 ip_addr u16
| Inbound_DialBackReq u32 multiaddr
| Inbound_DialBackRes u32 multiaddr bool

datatype session_error =
  WrongSession
| Replay
| SessionAuthenticationFailed
| MalformedPlaintext
| MessageTooLarge nat
| Hostile
| InvalidFrameType

fun session_error_display :: "session_error \<Rightarrow> string" where
  "session_error_display WrongSession = ''frame for the wrong session''"
| "session_error_display Replay = ''replayed or out-of-order frame''"
| "session_error_display SessionAuthenticationFailed = ''AEAD authentication failed''"
| "session_error_display MalformedPlaintext = ''malformed plaintext''"
| "session_error_display (MessageTooLarge n) = ''message too large ('' @ show_nat n @ '' bytes)''"
| "session_error_display Hostile = ''too many sequence violations''"
| "session_error_display InvalidFrameType = ''invalid frame type for session''"

record session =
  ss_session_id :: bytes
  ss_send_key :: bytes
  ss_recv_key :: bytes
  ss_my_dir :: bytes
  ss_peer_dir :: bytes
  ss_out_seq :: u32
  ss_in_seq :: u32
  ss_seq_violations :: u32
  ss_seen :: "(u32 \<times> u64) list"

definition session_new :: "crates \<Rightarrow> handshake_result \<Rightarrow> session" where
  "session_new E res =
     (let mine_lower = pid_less E (hr_my_id res) (hr_peer_id res);
          dirs = (if mine_lower then ([0x00, 0x01], [0x00, 0x02])
                  else ([0x00, 0x02], [0x00, 0x01])) in
      \<lparr>ss_session_id = sk_session_id (hr_keys res), ss_send_key = hr_send_key res,
       ss_recv_key = hr_recv_key res, ss_my_dir = fst dirs, ss_peer_dir = snd dirs,
       ss_out_seq = 0, ss_in_seq = 0, ss_seq_violations = 0, ss_seen = []\<rparr>)"

section \<open>Small helpers\<close>

text \<open>Milliseconds since the epoch, \<open>0\<close> for a clock before it, truncated to 64 bits.\<close>

definition now_ms :: "int \<Rightarrow> u64" where
  "now_ms clock = (if clock < 0 then 0 else of_nat (nat clock))"

definition be128 :: "128 word \<Rightarrow> bytes" where "be128 w = be_bytes 16 (unat w)"
definition un_be128 :: "bytes \<Rightarrow> 128 word" where "un_be128 bs = of_nat (be_val bs)"

unbundle bit_operations_syntax

definition session_aad :: "session \<Rightarrow> message_type \<Rightarrow> u32 \<Rightarrow> u64 \<Rightarrow> bytes" where
  "session_aad s t sq mid =
     [VERSION OR push_bit 4 (message_type_u8 t)] @ ss_session_id s @ be32 sq @ be64 mid"

definition session_nonce :: "bytes \<Rightarrow> u32 \<Rightarrow> bytes" where
  "session_nonce dir sq = dir @ [0, 0] @ be32 sq @ [0, 0, 0, 0]"

definition remember :: "u32 \<Rightarrow> u64 \<Rightarrow> session \<Rightarrow> session" where
  "remember sq mid s =
     (let seen = (if length (ss_seen s) \<ge> SEEN_WINDOW then tl (ss_seen s) else ss_seen s) in
      s\<lparr>ss_seen := seen @ [(sq, mid)]\<rparr>)"

definition was_seen :: "session \<Rightarrow> u32 \<Rightarrow> u64 \<Rightarrow> bool" where
  "was_seen s sq mid \<longleftrightarrow> (sq, mid) \<in> set (ss_seen s)"

definition push_addr :: "crates \<Rightarrow> bytes \<Rightarrow> multiaddr \<Rightarrow> bytes option" where
  "push_addr E out addr =
     (let s = ma_to_string E addr in
      if debug_assertions E \<and> \<not> length s \<le> MAX_CONTROL_ADDR_BYTES then None
      else
        (let len = (of_nat (min (length s) MAX_CONTROL_ADDR_BYTES) :: u16) in
         Some (out @ be16 len @ take (unat len) (as_bytes s))))"

definition take_addr_with_rest :: "crates \<Rightarrow> bytes \<Rightarrow> session_error + (multiaddr \<times> bytes)" where
  "take_addr_with_rest E plaintext =
     (if length plaintext < 1 + 2 + 1 then Inl MalformedPlaintext
      else
        (let len = unat (un_be16 (slice_of 1 3 plaintext)) in
         if len = 0 \<or> len > MAX_CONTROL_ADDR_BYTES then Inl MalformedPlaintext
         else
           (let stop = 3 + len in
            if length plaintext < stop then Inl MalformedPlaintext
            else case from_utf8 (slice_of 3 stop plaintext) of
              None \<Rightarrow> Inl MalformedPlaintext
            | Some s \<Rightarrow>
                (case ma_from_str E s of
                   None \<Rightarrow> Inl MalformedPlaintext
                 | Some addr \<Rightarrow> Inr (addr, drop stop plaintext)))))"

definition take_addr :: "crates \<Rightarrow> bytes \<Rightarrow> session_error + multiaddr" where
  "take_addr E plaintext =
     (case take_addr_with_rest E plaintext of Inl e \<Rightarrow> Inl e | Inr (a, _) \<Rightarrow> Inr a)"

section \<open>Sending\<close>

definition session_seal ::
  "crates \<Rightarrow> session \<Rightarrow> message_type \<Rightarrow> u32 \<Rightarrow> u64 \<Rightarrow> bytes \<Rightarrow> frame option" where
  "session_seal E s t sq mid plaintext =
     (let nonce = session_nonce (ss_my_dir s) sq; aad = session_aad s t sq mid in
      case aead_seal E (ss_send_key s) nonce aad plaintext of
        None \<Rightarrow> None
      | Some ct \<Rightarrow> Some \<lparr>fr_msg_type = t, fr_flags = 0, fr_session_id = ss_session_id s,
                         fr_seq = sq, fr_msg_id = mid, fr_payload = ct\<rparr>)"

definition encrypt_message ::
  "crates \<Rightarrow> string \<Rightarrow> u64 \<Rightarrow> int \<Rightarrow> session \<Rightarrow> (session \<times> (session_error + frame)) option" where
  "encrypt_message E text msg_id clock s =
     (let body = as_bytes text in
      if length body > MAX_MESSAGE_BYTES then Some (s, Inl (MessageTooLarge (length body)))
      else
        (let ts = now_ms clock; plaintext = [MSG_PLAINTEXT_TAG] @ be64 ts @ body;
             sq = ss_out_seq s in
         case checked_add sq 1 of
           None \<Rightarrow> Some (s, Inl Hostile)
         | Some sq' \<Rightarrow>
             (let s' = s\<lparr>ss_out_seq := sq'\<rparr> in
              map_option (\<lambda>f. (s', Inr f)) (session_seal E s' Message sq msg_id plaintext))))"

definition encrypt_ack ::
  "crates \<Rightarrow> u64 \<Rightarrow> u32 \<Rightarrow> int \<Rightarrow> u64 \<Rightarrow> session \<Rightarrow> (session \<times> frame) option" where
  "encrypt_ack E ack_msg_id ack_seq clock rid s =
     (let ts = now_ms clock;
          plaintext = [ACK_PLAINTEXT_TAG] @ be64 ack_msg_id @ be32 ack_seq @ be64 ts;
          sq = ss_out_seq s in
      case checked_add sq 1 of
        None \<Rightarrow> None
      | Some sq' \<Rightarrow>
          (let s' = s\<lparr>ss_out_seq := sq'\<rparr> in
           map_option (\<lambda>f. (s', f)) (session_seal E s' Ack sq rid plaintext)))"

definition seal_control ::
  "crates \<Rightarrow> bytes \<Rightarrow> u64 \<Rightarrow> session \<Rightarrow> (session \<times> frame) option" where
  "seal_control E plaintext rid s =
     (let sq = ss_out_seq s in
      case checked_add sq 1 of
        None \<Rightarrow> None
      | Some sq' \<Rightarrow>
          (let s' = s\<lparr>ss_out_seq := sq'\<rparr> in
           map_option (\<lambda>f. (s', f)) (session_seal E s' Control sq rid plaintext)))"

definition encrypt_observed_addr ::
  "crates \<Rightarrow> ip_addr \<Rightarrow> u16 \<Rightarrow> u64 \<Rightarrow> session \<Rightarrow> (session \<times> frame) option" where
  "encrypt_observed_addr E ip source_port rid s =
     (let addr = (case ip of V4 v4 \<Rightarrow> [4] @ be32 v4 | V6 v6 \<Rightarrow> [16] @ be128 v6) in
      seal_control E ([OBSERVED_ADDR_TAG] @ addr @ be16 source_port) rid s)"

definition encrypt_dial_back_req ::
  "crates \<Rightarrow> multiaddr \<Rightarrow> u64 \<Rightarrow> session \<Rightarrow> (session \<times> frame) option" where
  "encrypt_dial_back_req E addr rid s =
     (case push_addr E [DIAL_BACK_REQ_TAG] addr of
        None \<Rightarrow> None
      | Some plaintext \<Rightarrow> seal_control E plaintext rid s)"

definition encrypt_dial_back_res ::
  "crates \<Rightarrow> multiaddr \<Rightarrow> bool \<Rightarrow> u64 \<Rightarrow> session \<Rightarrow> (session \<times> frame) option" where
  "encrypt_dial_back_res E addr rch rid s =
     (case push_addr E [DIAL_BACK_RES_TAG] addr of
        None \<Rightarrow> None
      | Some plaintext \<Rightarrow> seal_control E (plaintext @ [if rch then 1 else 0]) rid s)"

section \<open>Receiving\<close>

text \<open>\<open>parse_plaintext\<close> reports \<open>in_seq - 1\<close>; its only caller has just incremented \<open>in_seq\<close>.\<close>

definition parse_plaintext ::
  "crates \<Rightarrow> session \<Rightarrow> message_type \<Rightarrow> u64 \<Rightarrow> bytes \<Rightarrow> session_error + inbound" where
  "parse_plaintext E s t mid plaintext =
     (if plaintext = [] then Inl MalformedPlaintext
      else
        (let tag = plaintext ! 0; sq = ss_in_seq s - 1 in
         if t = Message \<and> tag = MSG_PLAINTEXT_TAG then
           (if length plaintext < 1 + 8 then Inl MalformedPlaintext
            else case from_utf8 (drop 9 plaintext) of
              None \<Rightarrow> Inl MalformedPlaintext
            | Some body \<Rightarrow>
                Inr (Inbound_Message sq mid (un_be64 (slice_of 1 9 plaintext)) body))
         else if t = Ack \<and> tag = ACK_PLAINTEXT_TAG then
           (if length plaintext \<noteq> 1 + 8 + 4 + 8 then Inl MalformedPlaintext
            else Inr (Inbound_Ack (un_be64 (slice_of 1 9 plaintext))
                   (un_be32 (slice_of 9 13 plaintext))))
         else if t = Control \<and> tag = OBSERVED_ADDR_TAG then
           (if length plaintext < 1 + 1 + 4 + 2 then Inl MalformedPlaintext
            else
              (let ip_len = unat (plaintext ! 1) in
               if length plaintext \<noteq> 1 + 1 + ip_len + 2 \<or> (ip_len \<noteq> 4 \<and> ip_len \<noteq> 16)
               then Inl MalformedPlaintext
               else
                 (let ip = (if ip_len = 4 then V4 (un_be32 (slice_of 2 6 plaintext))
                            else V6 (un_be128 (slice_of 2 18 plaintext))) in
                  Inr (Inbound_ObservedAddr sq ip
                    (un_be16 (slice_of (1 + 1 + ip_len) (1 + 1 + ip_len + 2) plaintext))))))
         else if t = Control \<and> tag = DIAL_BACK_REQ_TAG then
           (case take_addr E plaintext of
              Inl e \<Rightarrow> Inl e
            | Inr addr \<Rightarrow> Inr (Inbound_DialBackReq sq addr))
         else if t = Control \<and> tag = DIAL_BACK_RES_TAG then
           (if length plaintext < 1 + 2 + 1 then Inl MalformedPlaintext
            else case take_addr_with_rest E plaintext of
              Inl e \<Rightarrow> Inl e
            | Inr (addr, rest) \<Rightarrow>
                if length rest \<noteq> 1 then Inl MalformedPlaintext
                else Inr (Inbound_DialBackRes sq addr (rest ! 0 = 1)))
         else Inl MalformedPlaintext))"

definition handle_frame ::
  "crates \<Rightarrow> frame \<Rightarrow> session \<Rightarrow> (session \<times> (session_error + inbound)) option" where
  "handle_frame E f s =
     (if fr_session_id f \<noteq> ss_session_id s then Some (s, Inl WrongSession)
      else if fr_seq f \<noteq> ss_in_seq s then
        (case plain_add (overflow_checks E) (ss_seq_violations s) 1 of
           None \<Rightarrow> None
         | Some v \<Rightarrow>
             (let s' = s\<lparr>ss_seq_violations := v\<rparr> in
              if v \<ge> MAX_SEQ_VIOLATIONS then Some (s', Inl Hostile) else Some (s', Inl Replay)))
      else case checked_add (ss_in_seq s) 1 of
        None \<Rightarrow> Some (s, Inl Hostile)
      | Some n \<Rightarrow>
          (let s' = remember (fr_seq f) (fr_msg_id f) (s\<lparr>ss_in_seq := n\<rparr>) in
           if fr_msg_type f = Message \<or> fr_msg_type f = Ack \<or> fr_msg_type f = Control then
             (let nonce = session_nonce (ss_peer_dir s') (fr_seq f);
                  aad = session_aad s' (fr_msg_type f) (fr_seq f) (fr_msg_id f) in
              case aead_open E (ss_recv_key s') nonce aad (fr_payload f) of
                Inl _ \<Rightarrow> Some (s', Inl SessionAuthenticationFailed)
              | Inr plaintext \<Rightarrow>
                  Some (s', parse_plaintext E s' (fr_msg_type f) (fr_msg_id f) plaintext))
           else Some (s', Inl InvalidFrameType)))"

section \<open>Layouts\<close>

interpretation be128_codec: fixed_codec be128 un_be128 16
proof
  fix x :: "128 word" and bs :: bytes
  show "length (be128 x) = 16" by (simp add: be128_def)
  show "un_be128 (be128 x) = x"
    using unat_bound [of x] by (simp add: be128_def un_be128_def be_val_be_bytes)
  assume "length bs = 16"
  then show "be128 (un_be128 bs) = bs"
    using be_val_bound [of bs] be_bytes_be_val [of bs]
    by (simp add: be128_def un_be128_def unat_of_nat)
qed

lemma take_addr_push_addr:
  assumes ok: "text_codecs_ok E" and len: "1 \<le> length (ma_to_string E a)"
    "length (ma_to_string E a) \<le> MAX_CONTROL_ADDR_BYTES" and p: "push_addr E [tag] a = Some p"
  shows "take_addr_with_rest E (p @ rest) = Inr (a, rest)" and "p ! 0 = tag"
    and "length p = 3 + length (ma_to_string E a)"
proof -
  let ?b = "as_bytes (ma_to_string E a)"
  have small: "unat (of_nat (length ?b) :: u16) = length ?b"
    using len by (simp add: unat_of_nat MAX_CONTROL_ADDR_BYTES_def)
  have p': "p = [tag] @ be16 (of_nat (length ?b)) @ ?b"
    using p len small by (simp add: push_addr_def Let_def min_def split: if_splits)
  show "p ! 0 = tag" and lenp: "length p = 3 + length (ma_to_string E a)" by (simp_all add: p')
  have f: "un_be16 (slice_of 1 3 (p @ rest)) = of_nat (length ?b)"
    using be16_codec.read_field [of "[tag]" 1 3 _ "?b @ rest"] by (simp add: p')
  have s: "slice_of 3 (3 + length ?b) (p @ rest) = ?b" by (simp add: p' slice_of_def)
  have d: "drop (3 + length ?b) (p @ rest) = rest" using lenp by simp
  show "take_addr_with_rest E (p @ rest) = Inr (a, rest)"
    unfolding take_addr_with_rest_def Let_def f small s d
    using len text_codecs_simps(3,4) [OF ok, of a] by (auto simp: p')
qed

lemma parse_message:
  "valid_str text \<Longrightarrow> parse_plaintext E s Message mid ([MSG_PLAINTEXT_TAG] @ be64 ts @ as_bytes text)
   = Inr (Inbound_Message (ss_in_seq s - 1) mid ts text)"
  using be64_codec.read_field [of "[MSG_PLAINTEXT_TAG]" 1 9 ts "as_bytes text"]
  by (simp add: parse_plaintext_def)

lemma parse_ack:
  "parse_plaintext E s Ack mid ([ACK_PLAINTEXT_TAG] @ be64 i @ be32 n @ be64 ts)
   = Inr (Inbound_Ack i n)"
  using be64_codec.read_field [of "[ACK_PLAINTEXT_TAG]" 1 9 i "be32 n @ be64 ts"]
    be32_codec.read_field [of "ACK_PLAINTEXT_TAG # be64 i" 9 13 n "be64 ts"]
  by (simp add: parse_plaintext_def)

lemma parse_observed:
  "parse_plaintext E s Control mid
     ([OBSERVED_ADDR_TAG] @ (case ip of V4 v4 \<Rightarrow> [4] @ be32 v4 | V6 v6 \<Rightarrow> [16] @ be128 v6) @ be16 port)
   = Inr (Inbound_ObservedAddr (ss_in_seq s - 1) ip port)"
proof (cases ip)
  case (V4 w)
  have "un_be32 (slice_of 2 6 (3 # 4 # be32 w @ be16 port)) = w"
    "un_be16 (slice_of 6 8 (3 # 4 # be32 w @ be16 port)) = port"
    using be32_codec.read_field [of "[3, 4]" 2 6 w "be16 port"]
      be16_codec.read_field [of "[3, 4] @ be32 w" 6 8 port "[]"] by simp_all
  then show ?thesis using V4 by (simp add: parse_plaintext_def session_consts)
next
  case (V6 w)
  have "un_be128 (slice_of 2 18 (3 # 16 # be128 w @ be16 port)) = w"
    "un_be16 (slice_of 18 20 (3 # 16 # be128 w @ be16 port)) = port"
    using be128_codec.read_field [of "[3, 16]" 2 18 w "be16 port"]
      be16_codec.read_field [of "[3, 16] @ be128 w" 18 20 port "[]"]
    by (simp_all add: be128_codec.enc_length)
  then show ?thesis using V6
    by (simp add: parse_plaintext_def session_consts be128_codec.enc_length)
qed

lemma parse_dial_back_req:
  assumes "text_codecs_ok E" "1 \<le> length (ma_to_string E a)"
    "length (ma_to_string E a) \<le> MAX_CONTROL_ADDR_BYTES" "push_addr E [DIAL_BACK_REQ_TAG] a = Some p"
  shows "parse_plaintext E s Control mid p = Inr (Inbound_DialBackReq (ss_in_seq s - 1) a)"
  using take_addr_push_addr(1) [OF assms, of "[]"] take_addr_push_addr(2,3) [OF assms] assms(2)
  by (auto simp: parse_plaintext_def take_addr_def session_consts)

lemma parse_dial_back_res:
  assumes "text_codecs_ok E" "1 \<le> length (ma_to_string E a)"
    "length (ma_to_string E a) \<le> MAX_CONTROL_ADDR_BYTES" "push_addr E [DIAL_BACK_RES_TAG] a = Some p"
  shows "parse_plaintext E s Control mid (p @ [if b then 1 else 0])
    = Inr (Inbound_DialBackRes (ss_in_seq s - 1) a b)"
proof -
  from take_addr_push_addr(2,3) [OF assms] assms(2) have
    "(p @ [if b then 1 else 0]) ! 0 = DIAL_BACK_RES_TAG" by (cases p) auto
  then show ?thesis
    using take_addr_push_addr(1) [OF assms, of "[if b then 1 else 0]"]
      take_addr_push_addr(3) [OF assms] assms(2)
    by (simp add: parse_plaintext_def session_consts)
qed

section \<open>The channel between two sessions\<close>

text \<open>A request to send, with the clock reading and the random identifier its call would
  draw; \<open>session_send\<close> is the successful case of the five \<open>encrypt_*\<close> methods.\<close>

datatype outgoing =
  OutMessage string u64
| OutAck u64 u32
| OutObserved ip_addr u16
| OutDialReq multiaddr
| OutDialRes multiaddr bool

type_synonym request = "outgoing \<times> int \<times> u64"

fun session_send :: "crates \<Rightarrow> request \<Rightarrow> session \<Rightarrow> (session \<times> frame) option" where
  "session_send E (OutMessage text mid, clock, rid) s =
     (case encrypt_message E text mid clock s of Some (s', Inr f) \<Rightarrow> Some (s', f) | _ \<Rightarrow> None)"
| "session_send E (OutAck i n, clock, rid) s = encrypt_ack E i n clock rid s"
| "session_send E (OutObserved ip port, clock, rid) s = encrypt_observed_addr E ip port rid s"
| "session_send E (OutDialReq a, clock, rid) s = encrypt_dial_back_req E a rid s"
| "session_send E (OutDialRes a b, clock, rid) s = encrypt_dial_back_res E a b rid s"

definition session_recv :: "crates \<Rightarrow> frame \<Rightarrow> session \<Rightarrow> (session \<times> inbound) option" where
  "session_recv E f s =
     (case handle_frame E f s of Some (s', Inr i) \<Rightarrow> Some (s', i) | _ \<Rightarrow> None)"

text \<open>What the peer is to see of a request sent in a given state.\<close>

fun session_view :: "session \<Rightarrow> request \<Rightarrow> inbound" where
  "session_view s (OutMessage text mid, clock, rid) =
     Inbound_Message (ss_out_seq s) mid (now_ms clock) text"
| "session_view s (OutAck i n, clock, rid) = Inbound_Ack i n"
| "session_view s (OutObserved ip port, clock, rid) = Inbound_ObservedAddr (ss_out_seq s) ip port"
| "session_view s (OutDialReq a, clock, rid) = Inbound_DialBackReq (ss_out_seq s) a"
| "session_view s (OutDialRes a b, clock, rid) = Inbound_DialBackRes (ss_out_seq s) a b"

fun request_ok :: "crates \<Rightarrow> request \<Rightarrow> bool" where
  "request_ok E (OutMessage text mid, clock, rid) = valid_str text"
| "request_ok E (OutDialReq a, clock, rid) =
     (1 \<le> length (ma_to_string E a) \<and> length (ma_to_string E a) \<le> MAX_CONTROL_ADDR_BYTES)"
| "request_ok E (OutDialRes a b, clock, rid) =
     (1 \<le> length (ma_to_string E a) \<and> length (ma_to_string E a) \<le> MAX_CONTROL_ADDR_BYTES)"
| "request_ok E _ = True"

text \<open>Sender and receiver of one direction agree on session, key, direction and counter.\<close>

definition paired :: "crates \<Rightarrow> session \<Rightarrow> session \<Rightarrow> bool" where
  "paired E s r \<longleftrightarrow>
     aead_correct E \<and> text_codecs_ok E \<and> ss_session_id s = ss_session_id r \<and>
     ss_send_key s = ss_recv_key r \<and> ss_my_dir s = ss_peer_dir r \<and> ss_out_seq s = ss_in_seq r"

text \<open>What \<open>handle_frame\<close> does to the state when the sequence number is the expected one.\<close>

definition advance :: "frame \<Rightarrow> session \<Rightarrow> session" where
  "advance f s = remember (fr_seq f) (fr_msg_id f) (s\<lparr>ss_in_seq := ss_in_seq s + 1\<rparr>)"

lemma remember_fields [simp]:
  "ss_session_id (remember sq i s) = ss_session_id s" "ss_send_key (remember sq i s) = ss_send_key s"
  "ss_recv_key (remember sq i s) = ss_recv_key s" "ss_my_dir (remember sq i s) = ss_my_dir s"
  "ss_peer_dir (remember sq i s) = ss_peer_dir s" "ss_out_seq (remember sq i s) = ss_out_seq s"
  "ss_in_seq (remember sq i s) = ss_in_seq s"
  "ss_seq_violations (remember sq i s) = ss_seq_violations s"
  by (simp_all add: remember_def Let_def)

lemma advance_fields [simp]:
  "ss_session_id (advance f s) = ss_session_id s" "ss_send_key (advance f s) = ss_send_key s"
  "ss_recv_key (advance f s) = ss_recv_key s" "ss_my_dir (advance f s) = ss_my_dir s"
  "ss_peer_dir (advance f s) = ss_peer_dir s" "ss_out_seq (advance f s) = ss_out_seq s"
  "ss_in_seq (advance f s) = ss_in_seq s + 1"
  "ss_seq_violations (advance f s) = ss_seq_violations s"
  by (simp_all add: advance_def)

lemma session_aad_advance [simp]: "session_aad (advance f s) = session_aad s"
  by (simp add: fun_eq_iff session_aad_def)

lemma session_aad_out [simp]: "session_aad (s\<lparr>ss_out_seq := n\<rparr>) = session_aad s"
  by (simp add: fun_eq_iff session_aad_def)

lemma handle_frame_in_order:
  assumes "fr_session_id f = ss_session_id s" "fr_seq f = ss_in_seq s"
    and "checked_add (ss_in_seq s) 1 \<noteq> None" and "fr_msg_type f \<in> {Message, Ack, Control}"
  shows "handle_frame E f s = Some (advance f s,
    case aead_open E (ss_recv_key s) (session_nonce (ss_peer_dir s) (fr_seq f))
      (session_aad s (fr_msg_type f) (fr_seq f) (fr_msg_id f)) (fr_payload f) of
      Inl _ \<Rightarrow> Inl SessionAuthenticationFailed
    | Inr p \<Rightarrow> parse_plaintext E (advance f s) (fr_msg_type f) (fr_msg_id f) p)"
proof -
  have "checked_add (ss_in_seq s) 1 = Some (ss_in_seq s + 1)"
    using assms(3) by (auto simp: checked_add_def split: if_splits)
  then show ?thesis
    using assms by (auto simp: handle_frame_def advance_def session_aad_def Let_def
        split: sum.splits)
qed

lemma session_seal_delivers:
  assumes pr: "paired E s r" and room: "checked_add (ss_out_seq s) 1 = Some n"
    and t: "t \<in> {Message, Ack, Control}"
    and seal: "session_seal E (s\<lparr>ss_out_seq := n\<rparr>) t (ss_out_seq s) mid p = Some f"
  shows "handle_frame E f r = Some (advance f r, parse_plaintext E (advance f r) t mid p)"
    and "paired E (s\<lparr>ss_out_seq := n\<rparr>) (advance f r)"
proof -
  from pr have q: "aead_correct E" "ss_session_id s = ss_session_id r"
    "ss_send_key s = ss_recv_key r" "ss_my_dir s = ss_peer_dir r" "ss_out_seq s = ss_in_seq r"
    by (simp_all add: paired_def)
  have n: "n = ss_out_seq s + 1" using room by (auto simp: checked_add_def split: if_splits)
  from seal obtain ct where ct: "aead_seal E (ss_send_key s) (session_nonce (ss_my_dir s) (ss_out_seq s))
      (session_aad s t (ss_out_seq s) mid) p = Some ct"
    and f: "f = \<lparr>fr_msg_type = t, fr_flags = 0, fr_session_id = ss_session_id s,
                 fr_seq = ss_out_seq s, fr_msg_id = mid, fr_payload = ct\<rparr>"
    by (auto simp: session_seal_def Let_def split: option.splits)
  from ct have "aead_open E (ss_recv_key r) (session_nonce (ss_peer_dir r) (ss_in_seq r))
      (session_aad r t (ss_in_seq r) mid) ct = Inr p"
    using q by (simp add: aead_open_iff_seal session_aad_def)
  then show "handle_frame E f r = Some (advance f r, parse_plaintext E (advance f r) t mid p)"
    using handle_frame_in_order [of f r E] t room q by (simp add: f)
  show "paired E (s\<lparr>ss_out_seq := n\<rparr>) (advance f r)" using pr n by (simp add: paired_def)
qed

lemma encrypt_ackE:
  assumes "encrypt_ack E i n clock rid s = Some (s', f)"
  obtains m where "checked_add (ss_out_seq s) 1 = Some m" "s' = s\<lparr>ss_out_seq := m\<rparr>"
    "session_seal E s' Ack (ss_out_seq s) rid
       ([ACK_PLAINTEXT_TAG] @ be64 i @ be32 n @ be64 (now_ms clock)) = Some f"
  using assms by (auto simp: encrypt_ack_def Let_def split: option.splits)

lemma seal_controlE:
  assumes "seal_control E p rid s = Some (s', f)"
  obtains m where "checked_add (ss_out_seq s) 1 = Some m" "s' = s\<lparr>ss_out_seq := m\<rparr>"
    "session_seal E s' Control (ss_out_seq s) rid p = Some f"
  using assms by (auto simp: seal_control_def Let_def split: option.splits)

lemma encrypt_messageE:
  assumes "encrypt_message E text mid clock s = Some (s', Inr f)"
  obtains m where "checked_add (ss_out_seq s) 1 = Some m" "s' = s\<lparr>ss_out_seq := m\<rparr>"
    "session_seal E s' Message (ss_out_seq s) mid
       ([MSG_PLAINTEXT_TAG] @ be64 (now_ms clock) @ as_bytes text) = Some f"
    "length text \<le> MAX_MESSAGE_BYTES"
  using assms by (auto simp: encrypt_message_def Let_def split: option.splits if_splits)

lemma advance_seq [simp]: "ss_in_seq (advance f r) - 1 = ss_in_seq r"
  by simp

lemma control_delivers:
  assumes pr: "paired E s r" and send: "seal_control E p rid s = Some (s', f)"
    and parse: "parse_plaintext E (advance f r) Control rid p = Inr v"
  shows "\<exists>r'. session_recv E f r = Some (r', v) \<and> paired E s' r'"
proof -
  from send obtain m where m: "checked_add (ss_out_seq s) 1 = Some m" "s' = s\<lparr>ss_out_seq := m\<rparr>"
    "session_seal E (s\<lparr>ss_out_seq := m\<rparr>) Control (ss_out_seq s) rid p = Some f"
    by (auto elim: seal_controlE)
  show ?thesis
    using session_seal_delivers [OF pr m(1) _ m(3)] parse m(2) by (simp add: session_recv_def)
qed

lemma session_channel_step:
  assumes pr: "paired E s r" and ok: "request_ok E q" and send: "session_send E q s = Some (s', f)"
  shows "\<exists>r'. session_recv E f r = Some (r', session_view s q) \<and> paired E s' r'"
proof -
  have seq: "ss_in_seq r = ss_out_seq s" and tc: "text_codecs_ok E"
    using pr by (simp_all add: paired_def)
  obtain out clock rid where q: "q = (out, clock, rid)" by (cases q)
  show ?thesis
  proof (cases out)
    case (OutMessage body mid)
    then have "encrypt_message E body mid clock s = Some (s', Inr f)"
      using send q by (auto split: option.splits sum.splits)
    then obtain m where m: "checked_add (ss_out_seq s) 1 = Some m" "s' = s\<lparr>ss_out_seq := m\<rparr>"
      "session_seal E (s\<lparr>ss_out_seq := m\<rparr>) Message (ss_out_seq s) mid
         ([MSG_PLAINTEXT_TAG] @ be64 (now_ms clock) @ as_bytes body) = Some f"
      by (auto elim: encrypt_messageE)
    have "valid_str body" using ok q OutMessage by simp
    then show ?thesis
      using session_seal_delivers [OF pr m(1) _ m(3)] m(2) parse_message [of body E "advance f r"]
      by (simp add: session_recv_def q OutMessage seq)
  next
    case (OutAck i n)
    then obtain m where m: "checked_add (ss_out_seq s) 1 = Some m" "s' = s\<lparr>ss_out_seq := m\<rparr>"
      "session_seal E (s\<lparr>ss_out_seq := m\<rparr>) Ack (ss_out_seq s) rid
         ([ACK_PLAINTEXT_TAG] @ be64 i @ be32 n @ be64 (now_ms clock)) = Some f"
      using send q by (auto elim: encrypt_ackE)
    then show ?thesis
      using session_seal_delivers [OF pr m(1) _ m(3)] parse_ack [of E "advance f r"]
      by (simp add: session_recv_def q OutAck)
  next
    case (OutObserved ip port)
    then show ?thesis
      using send q control_delivers [OF pr _ parse_observed] seq
      by (auto simp: encrypt_observed_addr_def Let_def)
  next
    case (OutDialReq a)
    then obtain p where "push_addr E [DIAL_BACK_REQ_TAG] a = Some p" "seal_control E p rid s = Some (s', f)"
      using send q by (auto simp: encrypt_dial_back_req_def split: option.splits)
    then show ?thesis
      using control_delivers [OF pr _ parse_dial_back_req [OF tc]] ok q OutDialReq seq by auto
  next
    case (OutDialRes a b)
    then obtain p where "push_addr E [DIAL_BACK_RES_TAG] a = Some p"
      "seal_control E (p @ [if b then 1 else 0]) rid s = Some (s', f)"
      using send q by (auto simp: encrypt_dial_back_res_def split: option.splits)
    then show ?thesis
      using control_delivers [OF pr _ parse_dial_back_res [OF tc]] ok q OutDialRes seq by auto
  qed
qed

section \<open>Streams\<close>

fun send_all :: "('m \<Rightarrow> 's \<Rightarrow> ('s \<times> 'f) option) \<Rightarrow> 'm list \<Rightarrow> 's \<Rightarrow> ('s \<times> 'f list) option" where
  "send_all send [] s = Some (s, [])"
| "send_all send (m # ms) s =
     (case send m s of
        None \<Rightarrow> None
      | Some (s', f) \<Rightarrow> map_option (\<lambda>(s'', fs). (s'', f # fs)) (send_all send ms s'))"

fun views :: "('m \<Rightarrow> 's \<Rightarrow> ('s \<times> 'f) option) \<Rightarrow> ('s \<Rightarrow> 'm \<Rightarrow> 'o) \<Rightarrow> 'm list \<Rightarrow> 's \<Rightarrow> 'o list" where
  "views send view [] s = []"
| "views send view (m # ms) s =
     view s m # (case send m s of None \<Rightarrow> [] | Some (s', _) \<Rightarrow> views send view ms s')"

text \<open>A channel that delivers one message at a time, as seen by a pair of matching states.\<close>

locale ordered_channel =
  fixes send :: "'m \<Rightarrow> 's \<Rightarrow> ('s \<times> 'f) option" and recv :: "'f \<Rightarrow> 'r \<Rightarrow> ('r \<times> 'o) option"
    and matches :: "'s \<Rightarrow> 'r \<Rightarrow> bool" and ok :: "'m \<Rightarrow> bool" and view :: "'s \<Rightarrow> 'm \<Rightarrow> 'o"
  assumes channel_step:
    "matches s r \<Longrightarrow> ok m \<Longrightarrow> send m s = Some (s', f) \<Longrightarrow>
     \<exists>r'. recv f r = Some (r', view s m) \<and> matches s' r'"
begin

lemma stream_delivery:
  assumes "matches s r" and "\<forall>m \<in> set ms. ok m" and "send_all send ms s = Some (s', fs)"
  shows "\<exists>r'. send_all recv fs r = Some (r', views send view ms s) \<and> matches s' r'"
  using assms
proof (induction ms arbitrary: s r fs)
  case Nil
  then show ?case by simp
next
  case (Cons m ms)
  from Cons.prems(3) obtain s1 f fs1 where s1: "send m s = Some (s1, f)"
    "send_all send ms s1 = Some (s', fs1)" "fs = f # fs1"
    by (auto split: option.splits)
  obtain r1 where r1: "recv f r = Some (r1, view s m)" "matches s1 r1"
    using channel_step [OF Cons.prems(1) _ s1(1)] Cons.prems(2) by auto
  obtain r' where "send_all recv fs1 r1 = Some (r', views send view ms s1)" "matches s' r'"
    using Cons.IH [OF r1(2) _ s1(2)] Cons.prems(2) by auto
  then show ?case using s1 r1 by simp
qed

end

interpretation session_channel: ordered_channel "session_send E" "session_recv E" "paired E"
  "request_ok E" session_view
  for E
  by unfold_locales (rule session_channel_step)

section \<open>Sending succeeds\<close>

fun request_fits :: "crates \<Rightarrow> request \<Rightarrow> bool" where
  "request_fits E (OutMessage text mid, clock, rid) = (length text \<le> MAX_MESSAGE_BYTES)"
| "request_fits E _ = True"

lemma session_seal_total:
  assumes "aead_correct E" "length p \<le> 65536"
  shows "\<exists>f. session_seal E s t sq mid p = Some f"
proof -
  obtain ct where "aead_seal E (ss_send_key s) (session_nonce (ss_my_dir s) sq)
      (session_aad s t sq mid) p = Some ct" by (rule seal_total [OF assms])
  then show ?thesis by (simp add: session_seal_def)
qed

lemma seal_control_total:
  assumes "aead_correct E" "length p \<le> 65536" "unat (ss_out_seq s) < 2 ^ 32 - 1"
  shows "\<exists>f. seal_control E p rid s = Some (s\<lparr>ss_out_seq := ss_out_seq s + 1\<rparr>, f)"
  using session_seal_total [OF assms(1,2), of "s\<lparr>ss_out_seq := ss_out_seq s + 1\<rparr>" Control
      "ss_out_seq s" rid] assms(3)
  by (auto simp: seal_control_def checked_add_def)

lemma push_addr_total:
  "length (ma_to_string E a) \<le> MAX_CONTROL_ADDR_BYTES \<Longrightarrow>
   \<exists>p. push_addr E [tag] a = Some p \<and> length p \<le> 515"
  by (auto simp: push_addr_def Let_def MAX_CONTROL_ADDR_BYTES_def min_def unat_of_nat)

lemma session_send_total:
  assumes ae: "aead_correct E" and ok: "request_ok E q" "request_fits E q"
    and room: "unat (ss_out_seq s) < 2 ^ 32 - 1"
  shows "\<exists>f. session_send E q s = Some (s\<lparr>ss_out_seq := ss_out_seq s + 1\<rparr>, f)"
proof -
  obtain out clock rid where q: "q = (out, clock, rid)" by (cases q)
  show ?thesis
  proof (cases out)
    case (OutMessage body mid)
    then show ?thesis
      using ok q room session_seal_total [OF ae, of "[MSG_PLAINTEXT_TAG] @ be64 (now_ms clock)
          @ as_bytes body" "s\<lparr>ss_out_seq := ss_out_seq s + 1\<rparr>" Message "ss_out_seq s" mid]
      by (auto simp: encrypt_message_def checked_add_def MAX_MESSAGE_BYTES_def)
  next
    case (OutAck i n)
    then show ?thesis
      using q room session_seal_total [OF ae, of "[ACK_PLAINTEXT_TAG] @ be64 i @ be32 n
          @ be64 (now_ms clock)" "s\<lparr>ss_out_seq := ss_out_seq s + 1\<rparr>" Ack "ss_out_seq s" rid]
      by (auto simp: encrypt_ack_def checked_add_def)
  next
    case (OutObserved ip port)
    then show ?thesis
      using q seal_control_total [OF ae _ room, of _ rid]
      by (auto simp: encrypt_observed_addr_def Let_def be128_codec.enc_length split: ip_addr.splits)
  next
    case (OutDialReq a)
    then show ?thesis
      using q ok push_addr_total [of E a DIAL_BACK_REQ_TAG] seal_control_total [OF ae _ room, of _ rid]
      by (fastforce simp: encrypt_dial_back_req_def)
  next
    case (OutDialRes a b)
    then show ?thesis
      using q ok push_addr_total [of E a DIAL_BACK_RES_TAG] seal_control_total [OF ae _ room, of _ rid]
      by (fastforce simp: encrypt_dial_back_res_def)
  qed
qed

lemma unat_suc_word: "unat (x::u32) < 2 ^ 32 - 1 \<Longrightarrow> unat (x + 1) = unat x + 1"
  by (simp add: unat_word_ariths)

lemma send_all_total:
  assumes "aead_correct E" and "\<forall>q \<in> set qs. request_ok E q \<and> request_fits E q"
    and "unat (ss_out_seq s) + length qs < 2 ^ 32"
  shows "\<exists>s' fs. send_all (session_send E) qs s = Some (s', fs)"
  using assms(2,3)
proof (induction qs arbitrary: s)
  case Nil
  then show ?case by simp
next
  case (Cons q qs)
  then have room: "unat (ss_out_seq s) < 2 ^ 32 - 1" by simp
  obtain f where f: "session_send E q s = Some (s\<lparr>ss_out_seq := ss_out_seq s + 1\<rparr>, f)"
    using session_send_total [OF assms(1) _ _ room, of q] Cons.prems(1) by auto
  have "unat (ss_out_seq (s\<lparr>ss_out_seq := ss_out_seq s + 1\<rparr>)) + length qs < 2 ^ 32"
    using Cons.prems(2) unat_suc_word [OF room] by simp
  then obtain s' fs where "send_all (session_send E) qs (s\<lparr>ss_out_seq := ss_out_seq s + 1\<rparr>)
      = Some (s', fs)" using Cons.IH Cons.prems(1) by fastforce
  then show ?case using f by simp
qed

section \<open>Sequence numbers and nonces\<close>

lemma session_send_seq:
  assumes "session_send E q s = Some (s', f)"
  shows "fr_seq f = ss_out_seq s" "unat (ss_out_seq s') = unat (ss_out_seq s) + 1"
    "s' = s\<lparr>ss_out_seq := ss_out_seq s'\<rparr>" "fr_session_id f = ss_session_id s" "fr_flags f = 0"
    "fr_msg_type f \<in> {Message, Ack, Control}"
proof -
  obtain out clock rid where q: "q = (out, clock, rid)" by (cases q)
  obtain m t mid p where "checked_add (ss_out_seq s) 1 = Some m" "s' = s\<lparr>ss_out_seq := m\<rparr>"
    "session_seal E s' t (ss_out_seq s) mid p = Some f" "t \<in> {Message, Ack, Control}"
  proof (cases out)
    case (OutMessage body mid)
    then have "encrypt_message E body mid clock s = Some (s', Inr f)"
      using assms q by (auto split: option.splits sum.splits)
    then show ?thesis using that by (auto elim: encrypt_messageE)
  next
    case (OutAck i n)
    then show ?thesis using assms q that by (auto elim: encrypt_ackE)
  next
    case (OutObserved ip port)
    then show ?thesis using assms q that
      by (auto simp: encrypt_observed_addr_def Let_def elim!: seal_controlE)
  next
    case (OutDialReq a)
    then show ?thesis using assms q that
      by (auto simp: encrypt_dial_back_req_def split: option.splits elim!: seal_controlE)
  next
    case (OutDialRes a b)
    then show ?thesis using assms q that
      by (auto simp: encrypt_dial_back_res_def split: option.splits elim!: seal_controlE)
  qed
  then show "fr_seq f = ss_out_seq s" "unat (ss_out_seq s') = unat (ss_out_seq s) + 1"
    "s' = s\<lparr>ss_out_seq := ss_out_seq s'\<rparr>" "fr_session_id f = ss_session_id s" "fr_flags f = 0"
    "fr_msg_type f \<in> {Message, Ack, Control}"
    using checked_add_unat [of "ss_out_seq s" 1 m]
    by (auto simp: session_seal_def Let_def split: option.splits)
qed

lemma send_all_seqs:
  assumes "send_all (session_send E) qs s = Some (s', fs)"
  shows "map (unat \<circ> fr_seq) fs = [unat (ss_out_seq s) ..< unat (ss_out_seq s) + length qs]"
  using assms
proof (induction qs arbitrary: s fs)
  case Nil
  then show ?case by simp
next
  case (Cons q qs)
  from Cons.prems obtain s1 f fs1 where s1: "session_send E q s = Some (s1, f)"
    "send_all (session_send E) qs s1 = Some (s', fs1)" "fs = f # fs1"
    by (auto split: option.splits)
  have "[unat (ss_out_seq s) ..< unat (ss_out_seq s) + length (q # qs)]
      = unat (ss_out_seq s) # [unat (ss_out_seq s1) ..< unat (ss_out_seq s1) + length qs]"
    using session_send_seq(2) [OF s1(1)] by (simp add: upt_conv_Cons del: upt_Suc)
  then show ?case
    using Cons.IH [OF s1(2)] session_send_seq(1) [OF s1(1)] s1(3) by (simp del: upt_Suc)
qed

lemma session_nonce_inject:
  "length d = length d' \<Longrightarrow> session_nonce d sq = session_nonce d' sq' \<longleftrightarrow> d = d' \<and> sq = sq'"
  by (auto simp: session_nonce_def be32_codec.enc_append_eq be32_codec.enc_eq_iff)

lemma session_new_dirs:
  "length (ss_my_dir (session_new E r)) = 2" "length (ss_peer_dir (session_new E r)) = 2"
  "ss_my_dir (session_new E r) \<noteq> ss_peer_dir (session_new E r)"
  by (auto simp: session_new_def Let_def)


text \<open>The associated data determines type, session, sequence number and message id.\<close>

lemma aad_head_inject:
  "VERSION OR push_bit 4 (message_type_u8 t) = VERSION OR push_bit 4 (message_type_u8 t') \<Longrightarrow> t = t'"
  by (cases t; cases t') (simp_all add: VERSION_def)

lemma session_aad_inject:
  assumes "length (ss_session_id s) = length (ss_session_id s')"
    and "session_aad s t sq mid = session_aad s' t' sq' mid'"
  shows "t = t' \<and> ss_session_id s = ss_session_id s' \<and> sq = sq' \<and> mid = mid'"
  using assms aad_head_inject [of t t']
  by (auto simp: session_aad_def be32_codec.enc_append_eq be64_codec.enc_eq_iff)

section \<open>Receiving: authenticity, replay, window\<close>

text \<open>The ways \<open>handle_frame\<close> can return.\<close>

lemma checked_add_one:
  "checked_add x 1 = Some n \<Longrightarrow> n = x + 1 \<and> unat (x::u32) < 2 ^ 32 - 1"
  by (auto simp: checked_add_def split: if_splits)

lemma handle_frame_cases:
  assumes h: "handle_frame E f s = Some (s', res)"
  obtains (refused) e where "s' = s" "res = Inl e" "e = WrongSession \<or> e = Hostile"
  | (violation) v where "fr_seq f \<noteq> ss_in_seq s" "s' = s\<lparr>ss_seq_violations := v\<rparr>"
      "plain_add (overflow_checks E) (ss_seq_violations s) 1 = Some v"
      "res = Inl (if v \<ge> MAX_SEQ_VIOLATIONS then Hostile else Replay)"
  | (in_order) "fr_session_id f = ss_session_id s" "fr_seq f = ss_in_seq s" "s' = advance f s"
      "unat (ss_in_seq s) < 2 ^ 32 - 1" "checked_add (ss_in_seq s) 1 \<noteq> None"
proof -
  consider "fr_session_id f \<noteq> ss_session_id s"
    | "fr_session_id f = ss_session_id s" "fr_seq f \<noteq> ss_in_seq s"
    | "fr_session_id f = ss_session_id s" "fr_seq f = ss_in_seq s" by blast
  then show thesis
  proof cases
    case 1
    then show thesis using h refused by (auto simp: handle_frame_def)
  next
    case 2
    then obtain v where "plain_add (overflow_checks E) (ss_seq_violations s) 1 = Some v"
      using h by (auto simp: handle_frame_def split: option.splits)
    then show thesis using 2 h by (intro violation) (auto simp: handle_frame_def Let_def split: if_splits)
  next
    case 3
    show thesis
    proof (cases "checked_add (ss_in_seq s) 1")
      case None
      then show thesis using 3 h refused by (auto simp: handle_frame_def)
    next
      case (Some n)
      note n = checked_add_one [OF Some]
      have "s' = advance f s"
        using h 3 Some n unfolding handle_frame_def advance_def
        by (auto simp: Let_def split: if_splits sum.splits)
      then show thesis using 3 Some n by (intro in_order) auto
    qed
  qed
qed

lemma handle_frame_accepts:
  assumes "handle_frame E f s = Some (s', Inr i)"
  shows "fr_session_id f = ss_session_id s" "fr_seq f = ss_in_seq s" "s' = advance f s"
    "unat (ss_in_seq s) < 2 ^ 32 - 1" "checked_add (ss_in_seq s) 1 \<noteq> None"
  using assms by (cases rule: handle_frame_cases; simp)+

text \<open>C3. Authenticity.  A frame that \<open>handle_frame\<close> accepts is, field for field, a frame that
  the peer's matching session seals at exactly the expected sequence number for some
  plaintext, and the event reported is the parse of that plaintext.  Since the associated
  data covers type, session, sequence number and message id, none of them can have been
  altered on the way.\<close>

theorem session_accepts_only_sealed:
  assumes pr: "paired E peer s" and acc: "handle_frame E f s = Some (s', Inr i)"
    and "fr_flags f = 0"
  shows "\<exists>p. session_seal E peer (fr_msg_type f) (ss_in_seq s) (fr_msg_id f) p = Some f \<and>
    parse_plaintext E s' (fr_msg_type f) (fr_msg_id f) p = Inr i"
proof -
  note a = handle_frame_accepts [OF acc]
  note room = a(5)
  have "fr_msg_type f \<in> {Message, Ack, Control}"
    using acc a room by (auto simp: handle_frame_def Let_def split: if_splits option.splits)
  note h = handle_frame_in_order [OF a(1,2) room this, of E]
  from acc h obtain p where p: "aead_open E (ss_recv_key s) (session_nonce (ss_peer_dir s) (fr_seq f))
      (session_aad s (fr_msg_type f) (fr_seq f) (fr_msg_id f)) (fr_payload f) = Inr p"
    "parse_plaintext E s' (fr_msg_type f) (fr_msg_id f) p = Inr i"
    by (auto split: sum.splits)
  have "aead_seal E (ss_send_key peer) (session_nonce (ss_my_dir peer) (ss_in_seq s))
      (session_aad peer (fr_msg_type f) (ss_in_seq s) (fr_msg_id f)) p = Some (fr_payload f)"
    using p(1) pr a(2) by (simp add: paired_def aead_open_iff_seal session_aad_def)
  then have "session_seal E peer (fr_msg_type f) (ss_in_seq s) (fr_msg_id f) p = Some f"
    using pr a assms(3) by (cases f) (simp add: session_seal_def paired_def)
  then show ?thesis using p(2) by blast
qed

definition session_start :: "crates \<Rightarrow> session \<Rightarrow> bool" where
  "session_start E s \<longleftrightarrow> (\<exists>res. s = session_new E res)"

definition session_next :: "crates \<Rightarrow> session \<Rightarrow> session \<Rightarrow> bool" where
  "session_next E s t \<longleftrightarrow>
     (\<exists>f res. handle_frame E f s = Some (t, res)) \<or> (\<exists>q f. session_send E q s = Some (t, f))"

text \<open>The window holds the identifiers of the last accepted sequence numbers, in order.\<close>

definition session_inv :: "session \<Rightarrow> bool" where
  "session_inv s \<longleftrightarrow>
     length (ss_seen s) = min SEEN_WINDOW (unat (ss_in_seq s)) \<and>
     map (unat \<circ> fst) (ss_seen s) = [unat (ss_in_seq s) - length (ss_seen s) ..< unat (ss_in_seq s)]"

lemma advance_session_inv:
  assumes inv: "session_inv s" and seq: "fr_seq f = ss_in_seq s" and room: "unat (ss_in_seq s) < 2 ^ 32 - 1"
  shows "session_inv (advance f s)"
proof -
  let ?n = "unat (ss_in_seq s)" and ?xs = "ss_seen s"
  define ys where "ys = (if length ?xs \<ge> SEEN_WINDOW then tl ?xs else ?xs)"
  have seen: "ss_seen (advance f s) = ys @ [(ss_in_seq s, fr_msg_id f)]"
    by (simp add: advance_def remember_def Let_def seq ys_def)
  have n: "unat (ss_in_seq (advance f s)) = ?n + 1" using unat_suc_word [OF room] by simp
  have len: "length ?xs = min SEEN_WINDOW ?n" and
    m: "map (unat \<circ> fst) ?xs = [?n - length ?xs ..< ?n]" using inv by (simp_all add: session_inv_def)
  have ys: "map (unat \<circ> fst) ys = [?n - length ys ..< ?n]"
  proof (cases "length ?xs \<ge> SEEN_WINDOW")
    case True
    then have "length ?xs = SEEN_WINDOW" "SEEN_WINDOW \<le> ?n" using len by auto
    moreover have "0 < SEEN_WINDOW" by (simp add: SEEN_WINDOW_def)
    ultimately show ?thesis using m True by (simp add: ys_def map_tl Suc_diff_le)
  next
    case False
    then show ?thesis using m by (simp add: ys_def)
  qed
  have ly: "length ys + 1 = min SEEN_WINDOW (?n + 1)"
    using len by (auto simp: SEEN_WINDOW_def ys_def)
  have "[?n + 1 - (length ys + 1) ..< ?n + 1] = [?n - length ys ..< ?n] @ [?n]" by simp
  then have m': "map (unat \<circ> fst) (ys @ [(ss_in_seq s, fr_msg_id f)])
      = [?n + 1 - (length ys + 1) ..< ?n + 1]" using ys by (simp del: upt_Suc)
  have "length (ys @ [(ss_in_seq s, fr_msg_id f)]) = length ys + 1" by simp
  then show ?thesis
    unfolding session_inv_def n seen by (simp only: ly m' [unfolded ly])
qed

lemma session_inv_next: "session_inv s \<Longrightarrow> session_next E s t \<Longrightarrow> session_inv t"
proof -
  assume inv: "session_inv s" and "session_next E s t"
  then consider f res where "handle_frame E f s = Some (t, res)"
    | q f where "session_send E q s = Some (t, f)" by (auto simp: session_next_def)
  then show "session_inv t"
  proof cases
    case 1
    then show ?thesis
    proof (cases rule: handle_frame_cases)
      case refused
      then show ?thesis using inv by simp
    next
      case violation
      then show ?thesis using inv by (simp add: session_inv_def)
    next
      case in_order
      then show ?thesis using advance_session_inv [OF inv] by simp
    qed
  next
    case 2
    then obtain n where "t = s\<lparr>ss_out_seq := n\<rparr>" using session_send_seq(3) by blast
    then show ?thesis using inv by (simp add: session_inv_def)
  qed
qed

lemma session_inv_start: "session_start E s \<Longrightarrow> session_inv s"
  by (auto simp: session_start_def session_inv_def session_new_def Let_def)

interpretation session_sys: invariant_system "session_start E" "session_next E" session_inv
  for E
  by unfold_locales (auto intro: session_inv_start session_inv_next)


lemma session_next_mono: "session_next E s t \<Longrightarrow> unat (ss_in_seq s) \<le> unat (ss_in_seq t)"
proof -
  assume "session_next E s t"
  then consider f res where "handle_frame E f s = Some (t, res)"
    | q f where "session_send E q s = Some (t, f)" by (auto simp: session_next_def)
  then show ?thesis
  proof cases
    case 1
    then show ?thesis
      by (cases rule: handle_frame_cases) (simp_all add: unat_suc_word)
  next
    case 2
    then obtain n where "t = s\<lparr>ss_out_seq := n\<rparr>" using session_send_seq(3) by blast
    then show ?thesis by simp
  qed
qed

lemma session_later_mono:
  "reachable (\<lambda>x. x = s) (session_next E) t \<Longrightarrow> unat (ss_in_seq s) \<le> unat (ss_in_seq t)"
  by (induction rule: reachable.induct) (auto dest: session_next_mono)

text \<open>C4. No replay: a frame that was accepted once is never accepted again, in any later state
  of the session and whatever frames were received or sent in between.\<close>

theorem session_no_replay:
  assumes acc: "handle_frame E f s = Some (s1, Inr i)"
    and later: "reachable (\<lambda>x. x = s1) (session_next E) s2"
  shows "handle_frame E f s2 \<noteq> Some (s3, Inr i')"
proof
  assume again: "handle_frame E f s2 = Some (s3, Inr i')"
  note a = handle_frame_accepts [OF acc]
  have "unat (ss_in_seq s1) = unat (fr_seq f) + 1" using a unat_suc_word by simp
  then have "unat (fr_seq f) < unat (ss_in_seq s2)" using session_later_mono [OF later] by simp
  then show False using handle_frame_accepts(2) [OF again] by simp
qed

section \<open>Hostile peers\<close>

fun handle_all :: "crates \<Rightarrow> frame list \<Rightarrow> session \<Rightarrow> (session \<times> (session_error + inbound) list) option" where
  "handle_all E [] s = Some (s, [])"
| "handle_all E (f # fs) s =
     (case handle_frame E f s of
        None \<Rightarrow> None
      | Some (s', r) \<Rightarrow> map_option (\<lambda>(s'', rs). (s'', r # rs)) (handle_all E fs s'))"

lemma violations_step:
  assumes h: "handle_frame E f s = Some (s', r)" and small: "unat (ss_seq_violations s) < 2 ^ 32 - 1"
  shows "unat (ss_seq_violations s') \<le> unat (ss_seq_violations s) + 1"
    and "unat (ss_seq_violations s) \<le> unat (ss_seq_violations s')"
    and "r = Inl Replay \<Longrightarrow> unat (ss_seq_violations s') = unat (ss_seq_violations s) + 1 \<and>
       unat (ss_seq_violations s') < 5"
proof -
  have v: "unat v = unat (ss_seq_violations s) + 1"
    if "plain_add (overflow_checks E) (ss_seq_violations s) 1 = Some v" for v
  proof -
    have "unat (ss_seq_violations s) + unat (1::u32) < 2 ^ LENGTH(32)" using small by simp
    from plain_add_fits [OF this] that have "v = ss_seq_violations s + 1" by simp
    then show ?thesis using unat_suc_word [OF small] by simp
  qed
  show "unat (ss_seq_violations s') \<le> unat (ss_seq_violations s) + 1"
    "unat (ss_seq_violations s) \<le> unat (ss_seq_violations s')"
    using h v by (cases rule: handle_frame_cases; simp)+
  have not_in_order: "r \<noteq> Inl Replay" if "s' = advance f s" "fr_seq f = ss_in_seq s"
    "fr_session_id f = ss_session_id s" "checked_add (ss_in_seq s) 1 \<noteq> None"
    using h that handle_frame_in_order [of f s E]
    by (cases "fr_msg_type f \<in> {Message, Ack, Control}")
      (auto simp: handle_frame_def parse_plaintext_def take_addr_def take_addr_with_rest_def Let_def
        split: sum.splits option.splits if_splits)
  show "r = Inl Replay \<Longrightarrow> unat (ss_seq_violations s') = unat (ss_seq_violations s) + 1 \<and>
       unat (ss_seq_violations s') < 5"
    using h
  proof (cases rule: handle_frame_cases)
    case (refused e)
    assume "r = Inl Replay"
    then show ?thesis using refused by auto
  next
    case (violation w)
    assume "r = Inl Replay"
    then have "\<not> w \<ge> 5" using violation by (simp add: MAX_SEQ_VIOLATIONS_def split: if_splits)
    then show ?thesis using violation v by (simp add: word_le_nat_alt)
  next
    case in_order
    assume "r = Inl Replay"
    then show ?thesis using not_in_order in_order by blast
  qed
qed

lemma replay_count:
  assumes "handle_all E fs s = Some (s', rs)" and "unat (ss_seq_violations s) + length fs < 2 ^ 32"
  shows "length (filter (\<lambda>r. r = Inl Replay) rs) + unat (ss_seq_violations s)
         \<le> max 4 (unat (ss_seq_violations s))"
  using assms
proof (induction fs arbitrary: s rs)
  case Nil
  then show ?case by simp
next
  case (Cons f fs)
  from Cons.prems obtain s1 r rs1 where s1: "handle_frame E f s = Some (s1, r)"
    "handle_all E fs s1 = Some (s', rs1)" "rs = r # rs1"
    by (auto split: option.splits)
  have small: "unat (ss_seq_violations s) < 2 ^ 32 - 1" using Cons.prems(2) by simp
  note v = violations_step [OF s1(1) small]
  have ih: "length (filter (\<lambda>r. r = Inl Replay) rs1) + unat (ss_seq_violations s1)
      \<le> max 4 (unat (ss_seq_violations s1))"
    using Cons.IH [OF s1(2)] Cons.prems(2) v(1) by simp
  show ?case
  proof (cases "r = Inl Replay")
    case True
    then show ?thesis using ih v(3) s1(3) by auto
  next
    case False
    have "unat (ss_seq_violations s1) = unat (ss_seq_violations s) \<or>
        unat (ss_seq_violations s1) = unat (ss_seq_violations s) + 1" using v(1,2) by linarith
    then show ?thesis using ih s1(3) False by (auto simp: max_def split: if_splits)
  qed
qed

text \<open>A peer gets at most four tolerated sequence violations: over any run of fewer than
  \<open>2 ^ 32\<close> frames of a new session, at most four are reported as \<open>Replay\<close>; every further
  violation is reported as \<open>Hostile\<close>.\<close>

theorem session_tolerates_four_violations:
  assumes "handle_all E fs (session_new E res) = Some (s', rs)" and "length fs < 2 ^ 32"
  shows "length (filter (\<lambda>r. r = Inl Replay) rs) \<le> 4"
  using replay_count [OF assms(1)] assms(2) by (simp add: session_new_def Let_def)

section \<open>Delivery\<close>

text \<open>The two results of a completed handshake.\<close>

definition complementary :: "handshake_result \<Rightarrow> handshake_result \<Rightarrow> bool" where
  "complementary a b \<longleftrightarrow>
     hr_my_id a \<noteq> hr_my_id b \<and> hr_peer_id a = hr_my_id b \<and> hr_peer_id b = hr_my_id a \<and>
     hr_keys a = hr_keys b \<and> hr_send_key a = hr_recv_key b \<and> hr_send_key b = hr_recv_key a"

lemma paired_new:
  assumes "aead_correct E" "text_codecs_ok E" "peer_ids_ok E" "complementary a b"
  shows "paired E (session_new E a) (session_new E b)"
  using assms pid_less_cases [OF assms(3), of "hr_my_id a" "hr_my_id b"]
  by (auto simp: paired_def complementary_def session_new_def Let_def)

text \<open>C14. Reliable in-order delivery: over the two sessions of a completed handshake, every
  sequence of fewer than \<open>2 ^ 32\<close> well-formed requests is sent without error, and the
  peer, fed the resulting frames in order, accepts every one of them and reports exactly the
  requested messages, acks and control records, in order and with their contents.\<close>

theorem session_stream_delivery:
  assumes "aead_correct E" "text_codecs_ok E" "peer_ids_ok E" and "complementary a b"
    and "\<forall>q \<in> set qs. request_ok E q \<and> request_fits E q" and "length qs < 2 ^ 32"
  shows "\<exists>s' fs r'. send_all (session_send E) qs (session_new E a) = Some (s', fs) \<and>
    length fs = length qs \<and>
    send_all (session_recv E) fs (session_new E b)
      = Some (r', views (session_send E) session_view qs (session_new E a))"
proof -
  have "unat (ss_out_seq (session_new E a)) = 0" by (simp add: session_new_def Let_def)
  then obtain s' fs where send: "send_all (session_send E) qs (session_new E a) = Some (s', fs)"
    using send_all_total [OF assms(1,5), of "session_new E a"] assms(6) by auto
  then have "length fs = length qs" using send_all_seqs [OF send] by (metis diff_add_inverse length_map length_upt)
  moreover have "\<forall>q \<in> set qs. request_ok E q" using assms(5) by blast
  note session_channel.stream_delivery [OF paired_new [OF assms(1-4)] this send]
  ultimately show ?thesis using send by blast
qed

section \<open>Witnesses\<close>

definition sample_result :: "bool \<Rightarrow> handshake_result" where
  "sample_result p =
     \<lparr>hr_my_id = PeerId [if p then 1 else 2], hr_peer_id = PeerId [if p then 2 else 1],
      hr_peer_hello = \<lparr>ph_pubkey = VerifyingKey [], ph_device_uuid = [], ph_user_name = []\<rparr>,
      hr_keys = \<lparr>sk_session_id = replicate 16 1, a_to_b = [1], b_to_a = [2]\<rparr>,
      hr_send_key = [if p then 1 else 2], hr_recv_key = [if p then 2 else 1]\<rparr>"

lemma sample_complementary: "complementary (sample_result True) (sample_result False)"
  by (simp add: complementary_def sample_result_def)

lemmas sample_paired = paired_new [OF ref_aead_correct ref_text_codecs_ok ref_peer_ids_ok
  sample_complementary]

abbreviation sample_requests :: "request list" where
  "sample_requests \<equiv> [(OutMessage ''user'' 7, 1000, 0), (OutAck 9 3, 1000, 5)]"

lemma sample_requests_ok: "\<forall>q \<in> set sample_requests. request_ok ref_crates q \<and> request_fits ref_crates q"
  by (simp add: valid_user MAX_MESSAGE_BYTES_def)

lemma sample_exchange:
  obtains f s1 i where "handle_frame ref_crates f (session_new ref_crates (sample_result False))
      = Some (s1, Inr i)" and "fr_flags f = 0"
proof -
  let ?s = "session_new ref_crates (sample_result True)" and ?q = "(OutAck 9 3, 1000, 5) :: request"
  have "unat (ss_out_seq ?s) < 2 ^ 32 - 1" by (simp add: session_new_def Let_def)
  then obtain f where f: "session_send ref_crates ?q ?s = Some (?s\<lparr>ss_out_seq := ss_out_seq ?s + 1\<rparr>, f)"
    using session_send_total [OF ref_aead_correct, of ?q ?s] by auto
  have "request_ok ref_crates ?q" by simp
  from session_channel_step [OF sample_paired this f] obtain r' where
    "session_recv ref_crates f (session_new ref_crates (sample_result False))
      = Some (r', session_view ?s ?q)" by blast
  then show thesis
    using that [of f] session_send_seq(5) [OF f]
    by (auto simp: session_recv_def split: option.splits sum.splits)
qed


theorem session_accepts_only_sealed_witness:
  "\<exists>f p. session_seal ref_crates (session_new ref_crates (sample_result True)) (fr_msg_type f)
     (ss_in_seq (session_new ref_crates (sample_result False))) (fr_msg_id f) p = Some f"
proof -
  obtain f s1 i where f: "handle_frame ref_crates f (session_new ref_crates (sample_result False))
      = Some (s1, Inr i)" "fr_flags f = 0" by (rule sample_exchange)
  show ?thesis using session_accepts_only_sealed [OF sample_paired f] by blast
qed


theorem session_no_replay_witness:
  "\<exists>f s1 i. handle_frame ref_crates f (session_new ref_crates (sample_result False)) = Some (s1, Inr i) \<and>
     (\<forall>s3 i'. handle_frame ref_crates f s1 \<noteq> Some (s3, Inr i'))"
proof -
  obtain f s1 i where f: "handle_frame ref_crates f (session_new ref_crates (sample_result False))
      = Some (s1, Inr i)" by (rule sample_exchange)
  have "reachable (\<lambda>x. x = s1) (session_next ref_crates) s1" by (rule reach_init) simp
  from session_no_replay [OF f this] f show ?thesis by blast
qed

abbreviation sample_stray :: frame where
  "sample_stray \<equiv> \<lparr>fr_msg_type = Ack, fr_flags = 0, fr_session_id = replicate 16 1,
     fr_seq = 9, fr_msg_id = 0, fr_payload = []\<rparr>"

theorem session_tolerates_four_violations_witness:
  "\<exists>s' rs. handle_all ref_crates (sample_stray # sample_stray # sample_stray # sample_stray
       # sample_stray # sample_stray # []) (session_new ref_crates (sample_result True)) = Some (s', rs) \<and>
     rs = [Inl Replay, Inl Replay, Inl Replay, Inl Replay, Inl Hostile, Inl Hostile] \<and>
     length (filter (\<lambda>r. r = Inl Replay) rs) \<le> 4"
proof -
  let ?fs = "sample_stray # sample_stray # sample_stray # sample_stray # sample_stray # sample_stray # []"
  have "overflow_checks ref_crates = False" by (simp add: ref_crates_def)
  then have "\<exists>s' rs. handle_all ref_crates ?fs (session_new ref_crates (sample_result True)) = Some (s', rs) \<and>
      rs = [Inl Replay, Inl Replay, Inl Replay, Inl Replay, Inl Hostile, Inl Hostile]"
    by (simp add: handle_frame_def plain_add_def session_new_def sample_result_def
        MAX_SEQ_VIOLATIONS_def Let_def word_le_nat_alt)
  then obtain s' rs where h: "handle_all ref_crates ?fs (session_new ref_crates (sample_result True))
      = Some (s', rs)"
    "rs = [Inl Replay, Inl Replay, Inl Replay, Inl Replay, Inl Hostile, Inl Hostile]" by blast
  show ?thesis using session_tolerates_four_violations [OF h(1)] h by auto
qed

theorem session_stream_delivery_witness:
  "\<exists>s' fs r'. send_all (session_send ref_crates) sample_requests
       (session_new ref_crates (sample_result True)) = Some (s', fs) \<and>
     send_all (session_recv ref_crates) fs (session_new ref_crates (sample_result False))
       = Some (r', views (session_send ref_crates) session_view sample_requests
           (session_new ref_crates (sample_result True)))"
  using session_stream_delivery [OF ref_aead_correct ref_text_codecs_ok ref_peer_ids_ok
      sample_complementary sample_requests_ok] by auto

end
