(* ===== verification/Handler.thy ===== *)
theory Handler
  imports Framing Crates
begin

text \<open>
  The connection handler of \<open>src/transport.rs\<close> (\<open>SessionHandler\<close>): it owns the substream, the
  read buffer and the write queue, and turns bytes into frames.  The substream is modelled by
  what it will do: the outcomes of the coming \<open>poll_read\<close> and \<open>poll_write\<close> calls in order
  (any fragmentation, \<open>Pending\<close> in between), and the bytes it has accepted so far.  When the
  listed outcomes run out a call is \<open>Pending\<close>.  Logging is left out.
\<close>

section \<open>Data\<close>

definition PROTOCOL_NAME :: string where "PROTOCOL_NAME = ''/jeangrey/1.0.0''"
definition MAX_READ_BUFFER :: nat where "MAX_READ_BUFFER = HEADER_LEN + MAX_PAYLOAD"

datatype 'a poll = Pending | PollReady 'a

text \<open>An \<open>io::Error\<close> by its message.\<close>

type_synonym io_error = string

text \<open>\<open>poll_read\<close> fills at most the 4096-byte buffer it is given; a read of no bytes is the end
  of the stream.  \<open>poll_write\<close> accepts at most what it is offered.\<close>

datatype read_outcome = ReadBytes bytes | ReadPending | ReadError io_error
datatype write_outcome = WriteUpTo nat | WritePending | WriteError io_error

record stream =
  st_reads :: "read_outcome list"
  st_writes :: "write_outcome list"
  st_sent :: bytes

datatype handler_to_behaviour = SubstreamReady | FrameReceived frame | StreamClosed
datatype behaviour_to_handler = SendFrames "frame list"
datatype handler_event = OutboundSubstreamRequest | NotifyBehaviour handler_to_behaviour

text \<open>The connection events the handler distinguishes.\<close>

datatype connection_event =
  FullyNegotiatedInbound stream | FullyNegotiatedOutbound stream
| DialUpgradeError | ListenUpgradeError | OtherConnectionEvent

record session_handler =
  hd_initiator :: bool
  hd_peer :: string
  hd_outbound_requested :: bool
  hd_substream :: "stream option"
  hd_pending_ready :: bool
  hd_read_buf :: bytes
  hd_write_queue :: "bytes list"
  hd_writing :: "(bytes \<times> nat) option"
  hd_closed :: bool

definition handler_new :: "crates \<Rightarrow> bool \<Rightarrow> peer_id \<Rightarrow> session_handler" where
  "handler_new E initiator peer =
     \<lparr>hd_initiator = initiator, hd_peer = pid_to_base58 E peer, hd_outbound_requested = False,
      hd_substream = None, hd_pending_ready = False, hd_read_buf = [], hd_write_queue = [],
      hd_writing = None, hd_closed = False\<rparr>"

definition set_substream :: "stream \<Rightarrow> session_handler \<Rightarrow> session_handler" where
  "set_substream s h =
     (if hd_substream h \<noteq> None then h
      else h\<lparr>hd_substream := Some s, hd_pending_ready := True\<rparr>)"

section \<open>Writing\<close>

text \<open>The chunk to write next: the one in progress, or else the front of the queue.\<close>

definition next_write ::
  "(bytes \<times> nat) option \<Rightarrow> bytes list \<Rightarrow> ((bytes \<times> nat) \<times> bytes list) option" where
  "next_write writing queue =
     (case writing of
        Some w \<Rightarrow> Some (w, queue)
      | None \<Rightarrow> (case queue of [] \<Rightarrow> None | chunk # q \<Rightarrow> Some ((chunk, 0), q)))"

type_synonym write_state = "write_outcome list \<times> bytes \<times> bytes list \<times> (bytes \<times> nat) option"

fun flush_loop ::
  "write_outcome list \<Rightarrow> bytes \<Rightarrow> bytes list \<Rightarrow> (bytes \<times> nat) option
   \<Rightarrow> write_state \<times> (io_error + bool) poll" where
  "flush_loop [] sent queue writing =
     (case next_write writing queue of
        None \<Rightarrow> (([], sent, [], None), PollReady (Inr True))
      | Some (w, q) \<Rightarrow> (([], sent, q, Some w), Pending))"
| "flush_loop (ev # ws) sent queue writing =
     (case next_write writing queue of
        None \<Rightarrow> ((ev # ws, sent, [], None), PollReady (Inr True))
      | Some ((buf, off), q) \<Rightarrow>
          (case ev of
             WritePending \<Rightarrow> ((ws, sent, q, Some (buf, off)), Pending)
           | WriteError e \<Rightarrow> ((ws, sent, q, Some (buf, off)), PollReady (Inl e))
           | WriteUpTo k \<Rightarrow>
               (let n = min k (length buf - off); sent' = sent @ take n (drop off buf) in
                if n = 0
                then ((ws, sent, q, Some (buf, off)), PollReady (Inl ''substream write returned 0''))
                else if off + n = length buf then flush_loop ws sent' q None
                else flush_loop ws sent' q (Some (buf, off + n)))))"

definition poll_flush_writes ::
  "session_handler \<Rightarrow> session_handler \<times> (io_error + bool) poll" where
  "poll_flush_writes h =
     (case hd_substream h of
        None \<Rightarrow> (h, PollReady (Inr True))
      | Some s \<Rightarrow>
          (case flush_loop (st_writes s) (st_sent s) (hd_write_queue h) (hd_writing h) of
             ((ws, sent, q, w), r) \<Rightarrow>
               (h\<lparr>hd_substream := Some (s\<lparr>st_writes := ws, st_sent := sent\<rparr>),
                  hd_write_queue := q, hd_writing := w\<rparr>, r)))"

section \<open>Reading\<close>

fun read_loop ::
  "read_outcome list \<Rightarrow> bytes \<Rightarrow> (read_outcome list \<times> bytes) \<times> (io_error + frame option) poll" where
  "read_loop [] buf =
     (case decode buf of
        Inr f \<Rightarrow> (([], drop (HEADER_LEN + length (fr_payload f)) buf), PollReady (Inr (Some f)))
      | Inl e \<Rightarrow>
          if e \<noteq> Truncated
          then (([], buf), PollReady (Inl (''malformed frame: '' @ frame_error_display e)))
          else if length buf > MAX_READ_BUFFER
          then (([], buf), PollReady (Inl ''read buffer exceeds frame size limit''))
          else (([], buf), Pending))"
| "read_loop (ev # rs) buf =
     (case decode buf of
        Inr f \<Rightarrow> ((ev # rs, drop (HEADER_LEN + length (fr_payload f)) buf), PollReady (Inr (Some f)))
      | Inl e \<Rightarrow>
          if e \<noteq> Truncated
          then ((ev # rs, buf), PollReady (Inl (''malformed frame: '' @ frame_error_display e)))
          else if length buf > MAX_READ_BUFFER
          then ((ev # rs, buf), PollReady (Inl ''read buffer exceeds frame size limit''))
          else case ev of
            ReadPending \<Rightarrow> ((rs, buf), Pending)
          | ReadError err \<Rightarrow> ((rs, buf), PollReady (Inl err))
          | ReadBytes bs \<Rightarrow>
              let tmp = take 4096 bs in
              if length tmp = 0 then ((rs, buf), PollReady (Inr None))
              else read_loop rs (buf @ tmp))"

definition poll_read_once ::
  "session_handler \<Rightarrow> session_handler \<times> (io_error + frame option) poll" where
  "poll_read_once h =
     (case hd_substream h of
        None \<Rightarrow> (h, PollReady (Inr None))
      | Some s \<Rightarrow>
          (case read_loop (st_reads s) (hd_read_buf h) of
             ((rs, buf), r) \<Rightarrow>
               (h\<lparr>hd_substream := Some (s\<lparr>st_reads := rs\<rparr>), hd_read_buf := buf\<rparr>, r)))"

section \<open>The \<open>ConnectionHandler\<close> interface\<close>

definition handler_close :: "session_handler \<Rightarrow> session_handler" where
  "handler_close h = h\<lparr>hd_closed := True, hd_substream := None\<rparr>"

text \<open>The last part of \<open>poll\<close>: decode the next frame.\<close>

definition poll_frame :: "session_handler \<Rightarrow> session_handler \<times> handler_event poll" where
  "poll_frame h =
     (case poll_read_once h of
        (h', PollReady (Inr (Some f))) \<Rightarrow> (h', PollReady (NotifyBehaviour (FrameReceived f)))
      | (h', PollReady (Inr None)) \<Rightarrow> (h', Pending)
      | (h', PollReady (Inl e)) \<Rightarrow> (handler_close h', PollReady (NotifyBehaviour StreamClosed))
      | (h', Pending) \<Rightarrow> (h', Pending))"

definition handler_poll :: "session_handler \<Rightarrow> session_handler \<times> handler_event poll" where
  "handler_poll h =
     (if hd_closed h then (h, Pending)
      else if hd_initiator h \<and> \<not> hd_outbound_requested h \<and> hd_substream h = None
      then (h\<lparr>hd_outbound_requested := True\<rparr>, PollReady OutboundSubstreamRequest)
      else if hd_pending_ready h
      then (h\<lparr>hd_pending_ready := False\<rparr>, PollReady (NotifyBehaviour SubstreamReady))
      else if hd_write_queue h \<noteq> [] \<or> hd_writing h \<noteq> None then
        (case poll_flush_writes h of
           (h', PollReady (Inr _)) \<Rightarrow> poll_frame h'
         | (h', PollReady (Inl e)) \<Rightarrow> (handler_close h', PollReady (NotifyBehaviour StreamClosed))
         | (h', Pending) \<Rightarrow> (h', Pending))
      else poll_frame h)"

fun on_behaviour_event :: "behaviour_to_handler \<Rightarrow> session_handler \<Rightarrow> session_handler" where
  "on_behaviour_event (SendFrames frames) h =
     h\<lparr>hd_write_queue := hd_write_queue h @ map encode frames\<rparr>"

fun on_connection_event :: "connection_event \<Rightarrow> session_handler \<Rightarrow> session_handler" where
  "on_connection_event (FullyNegotiatedInbound s) h = set_substream s h"
| "on_connection_event (FullyNegotiatedOutbound s) h = set_substream s h"
| "on_connection_event DialUpgradeError h = h\<lparr>hd_closed := True\<rparr>"
| "on_connection_event ListenUpgradeError h = h\<lparr>hd_closed := True\<rparr>"
| "on_connection_event OtherConnectionEvent h = h"

definition poll_close :: "session_handler \<Rightarrow> session_handler" where
  "poll_close h = h\<lparr>hd_substream := None, hd_closed := True\<rparr>"

section \<open>Reassembly of frames from any fragmentation\<close>

fun read_data :: "read_outcome list \<Rightarrow> bytes" where
  "read_data [] = []"
| "read_data (ReadBytes bs # rs) = bs @ read_data rs"
| "read_data (_ # rs) = read_data rs"

text \<open>A live stream that never fails: fragments of 1 to 4096 bytes, possibly with pauses.\<close>

definition live_reads :: "read_outcome list \<Rightarrow> bool" where
  "live_reads rs \<longleftrightarrow> (\<forall>r \<in> set rs. case r of
     ReadBytes bs \<Rightarrow> 1 \<le> length bs \<and> length bs \<le> 4096 | ReadPending \<Rightarrow> True | ReadError _ \<Rightarrow> False)"

text \<open>The limit on the read buffer can only be hit by a buffer that decodes as incomplete, and such
  a buffer is always shorter.\<close>

lemma truncated_below_limit: "decode buf = Inl Truncated \<Longrightarrow> \<not> length buf > MAX_READ_BUFFER"
  using decode_Truncated_bound [of buf] by (simp add: MAX_READ_BUFFER_def)

lemma read_loop_frame:
  assumes "\<forall>f \<in> set fs. wf_frame f" and "live_reads rs"
    and "buf @ read_data rs = concat (map encode fs)"
  shows "case fs of
      [] \<Rightarrow> \<exists>rs'. read_loop rs buf = ((rs', []), Pending) \<and> read_data rs' = [] \<and> live_reads rs' \<and>
            length rs' \<le> length rs - 1
    | f # fs' \<Rightarrow>
        (\<exists>rs' buf'. read_loop rs buf = ((rs', buf'), PollReady (Inr (Some f))) \<and>
           buf' @ read_data rs' = concat (map encode fs') \<and> live_reads rs' \<and> length rs' \<le> length rs) \<or>
        (\<exists>rs' buf'. read_loop rs buf = ((rs', buf'), Pending) \<and>
           buf' @ read_data rs' = concat (map encode fs) \<and> live_reads rs' \<and> length rs' < length rs)"
  using assms(2,3)
proof (induction rs arbitrary: buf)
  case Nil
  show ?case
  proof (cases fs)
    case Nil
    then show ?thesis using \<open>buf @ read_data [] = concat (map encode fs)\<close>
      by (simp add: decode_def live_reads_def MAX_READ_BUFFER_def)
  next
    case (Cons f fs')
    then have wf: "wf_frame f" and buf: "buf = encode f @ concat (map encode fs')"
      using assms(1) Nil.prems(2) by simp_all
    then have "decode buf = Inr f" by (simp add: decode_encode_rest)
    then show ?thesis using Cons buf wf by (simp add: live_reads_def)
  qed
next
  case (Cons ev rs)
  have live: "live_reads rs" using Cons.prems(1) by (simp add: live_reads_def)
  show ?case
  proof (cases "\<exists>f fs'. fs = f # fs' \<and> decode buf = Inr f \<and> length (encode f) \<le> length buf")
    case True
    then obtain f fs' where f: "fs = f # fs'" "decode buf = Inr f" "length (encode f) \<le> length buf"
      by blast
    have wf: "wf_frame f" using assms(1) f(1) by simp
    have "buf @ read_data (ev # rs) = encode f @ concat (map encode fs')"
      using Cons.prems(2) f(1) by simp
    then obtain r where r: "buf = encode f @ r" "r @ read_data (ev # rs) = concat (map encode fs')"
      by (metis f(3) append_split_le)
    then have "drop (HEADER_LEN + length (fr_payload f)) buf = r" using wf by simp
    then show ?thesis using f r Cons.prems(1) by simp
  next
    case False
    have trunc: "decode buf = Inl Truncated"
    proof (cases fs)
      case Nil
      then show ?thesis using Cons.prems(2) by (simp add: decode_def)
    next
      case (Cons f fs')
      then have "wf_frame f" "buf @ read_data (ev # rs) = encode f @ concat (map encode fs')"
        using assms(1) \<open>buf @ read_data (ev # rs) = concat (map encode fs)\<close> by simp_all
      from frames.first_frame [OF this] False Cons show ?thesis by auto
    qed
    note nolimit = truncated_below_limit [OF trunc]
    show ?thesis
    proof (cases ev)
      case (ReadBytes bs)
      then have bs: "1 \<le> length bs" "length bs \<le> 4096"
        using Cons.prems(1) by (auto simp: live_reads_def)
      then have "read_loop (ev # rs) buf = read_loop rs (buf @ bs)"
        using ReadBytes trunc nolimit by auto
      moreover have "(buf @ bs) @ read_data rs = concat (map encode fs)"
        using Cons.prems(2) ReadBytes by simp
      ultimately show ?thesis
        using Cons.IH [OF live, of "buf @ bs"] by (auto split: list.splits)
    next
      case ReadPending
      then show ?thesis
        using trunc nolimit Cons.prems(2) live by (auto split: list.splits)
    next
      case (ReadError e)
      then show ?thesis using Cons.prems(1) by (simp add: live_reads_def)
    qed
  qed
qed

text \<open>Polling a number of times, and the events it yields.\<close>

fun poll_times :: "nat \<Rightarrow> session_handler \<Rightarrow> session_handler \<times> handler_event list" where
  "poll_times 0 h = (h, [])"
| "poll_times (Suc n) h =
     (case handler_poll h of
        (h', Pending) \<Rightarrow> poll_times n h'
      | (h', PollReady e) \<Rightarrow> (case poll_times n h' of (h'', es) \<Rightarrow> (h'', e # es)))"

text \<open>A handler that has nothing to do but read.\<close>

definition reading :: "session_handler \<Rightarrow> stream \<Rightarrow> bool" where
  "reading h s \<longleftrightarrow> hd_substream h = Some s \<and> \<not> hd_closed h \<and> \<not> hd_pending_ready h \<and>
     hd_write_queue h = [] \<and> hd_writing h = None"

lemma reading_poll:
  assumes "reading h s" and "read_loop (st_reads s) (hd_read_buf h) = ((rs, buf), r)"
  shows "handler_poll h =
    (let h' = h\<lparr>hd_substream := Some (s\<lparr>st_reads := rs\<rparr>), hd_read_buf := buf\<rparr> in
     case r of
       PollReady (Inr (Some f)) \<Rightarrow> (h', PollReady (NotifyBehaviour (FrameReceived f)))
     | PollReady (Inr None) \<Rightarrow> (h', Pending)
     | PollReady (Inl e) \<Rightarrow> (handler_close h', PollReady (NotifyBehaviour StreamClosed))
     | Pending \<Rightarrow> (h', Pending))"
  using assms
  by (simp add: reading_def handler_poll_def poll_frame_def poll_read_once_def Let_def)

lemma reading_update:
  "reading h s \<Longrightarrow> reading (h\<lparr>hd_substream := Some s', hd_read_buf := b\<rparr>) s'"
  by (simp add: reading_def)

lemma poll_times_reassembles:
  assumes "\<forall>f \<in> set fs. wf_frame f" and "live_reads (st_reads s)" and "reading h s"
    and "hd_read_buf h @ read_data (st_reads s) = concat (map encode fs)"
  shows "\<exists>k \<le> length fs. snd (poll_times n h) = map (\<lambda>f. NotifyBehaviour (FrameReceived f)) (take k fs) \<and>
    (length (st_reads s) + length fs \<le> n \<longrightarrow> k = length fs)"
  using assms
proof (induction n arbitrary: h s fs)
  case 0
  then show ?case by (intro exI [of _ 0]) simp
next
  case (Suc n)
  note rl = read_loop_frame [OF Suc.prems(1,2,4)]
  let ?upd = "\<lambda>rs b. h\<lparr>hd_substream := Some (s\<lparr>st_reads := rs\<rparr>), hd_read_buf := b\<rparr>"
  have rd: "reading (?upd rs b) (s\<lparr>st_reads := rs\<rparr>)" for rs b
    using Suc.prems(3) by (rule reading_update)
  show ?case
  proof (cases fs)
    case Nil
    with rl obtain rs' where r: "read_loop (st_reads s) (hd_read_buf h) = ((rs', []), Pending)"
      "read_data rs' = []" "live_reads rs'" by auto
    have "handler_poll h = (?upd rs' [], Pending)"
      using reading_poll [OF Suc.prems(3) r(1)] by (simp add: Let_def)
    then show ?thesis
      using Suc.IH [OF Suc.prems(1) _ rd [of "[]" rs']] r Nil by simp
  next
    case (Cons f fs')
    then have wf: "\<forall>f \<in> set fs'. wf_frame f" using Suc.prems(1) by simp
    from rl Cons consider
      (frame) rs' buf' where "read_loop (st_reads s) (hd_read_buf h) = ((rs', buf'), PollReady (Inr (Some f)))"
        "buf' @ read_data rs' = concat (map encode fs')" "live_reads rs'" "length rs' \<le> length (st_reads s)"
    | (wait) rs' buf' where "read_loop (st_reads s) (hd_read_buf h) = ((rs', buf'), Pending)"
        "buf' @ read_data rs' = concat (map encode fs)" "live_reads rs'" "length rs' < length (st_reads s)"
      by auto
    then show ?thesis
    proof cases
      case frame
      have p: "handler_poll h = (?upd rs' buf', PollReady (NotifyBehaviour (FrameReceived f)))"
        using reading_poll [OF Suc.prems(3) frame(1)] by (simp add: Let_def)
      obtain k where "k \<le> length fs'"
        "snd (poll_times n (?upd rs' buf')) = map (\<lambda>f. NotifyBehaviour (FrameReceived f)) (take k fs')"
        "length rs' + length fs' \<le> n \<longrightarrow> k = length fs'"
        using Suc.IH [OF wf _ rd [of buf' rs']] frame by auto
      then show ?thesis
        using p Cons frame(4) by (intro exI [of _ "Suc k"]) (auto split: prod.splits)
    next
      case wait
      have p: "handler_poll h = (?upd rs' buf', Pending)"
        using reading_poll [OF Suc.prems(3) wait(1)] by (simp add: Let_def)
      obtain k where "k \<le> length fs"
        "snd (poll_times n (?upd rs' buf')) = map (\<lambda>f. NotifyBehaviour (FrameReceived f)) (take k fs)"
        "length rs' + length fs \<le> n \<longrightarrow> k = length fs"
        using Suc.IH [OF Suc.prems(1) _ rd [of buf' rs']] wait by auto
      then show ?thesis using p wait(4) by (intro exI [of _ k]) auto
    qed
  qed
qed

text \<open>C27. Reassembly: however the bytes of a sequence of well-formed frames are cut into reads of 1
  to 4096 bytes and whatever pauses lie between them, polling the handler reports exactly
  those frames, in order, none twice and none skipped, and reports nothing else; after as many
  polls as there are reads and frames, all of them have been reported.\<close>

theorem handler_reassembles:
  assumes "\<forall>f \<in> set fs. wf_frame f" and "live_reads (st_reads s)" and "reading h s"
    and "hd_read_buf h = []" and "read_data (st_reads s) = concat (map encode fs)"
  shows "\<exists>k \<le> length fs.
    snd (poll_times n h) = map (\<lambda>f. NotifyBehaviour (FrameReceived f)) (take k fs) \<and>
    (length (st_reads s) + length fs \<le> n \<longrightarrow> k = length fs)"
  using poll_times_reassembles [OF assms(1-3)] assms(4,5) by simp

section \<open>Writes keep order\<close>

definition unsent :: "(bytes \<times> nat) option \<Rightarrow> bytes list \<Rightarrow> bytes" where
  "unsent writing queue =
     (case writing of None \<Rightarrow> [] | Some (b, off) \<Rightarrow> drop off b) @ concat queue"

definition writing_ok :: "(bytes \<times> nat) option \<Rightarrow> bool" where
  "writing_ok w \<longleftrightarrow> (case w of None \<Rightarrow> True | Some (b, off) \<Rightarrow> off \<le> length b)"

lemma next_write_unsent:
  "(case next_write w q of None \<Rightarrow> unsent w q = [] | Some ((b, off), q') \<Rightarrow>
      unsent w q = drop off b @ concat q' \<and> (writing_ok w \<longrightarrow> off \<le> length b))"
  by (auto simp: next_write_def unsent_def writing_ok_def split: option.splits list.splits)

lemma flush_loop_unsent:
  assumes "writing_ok w" and "flush_loop ws sent q w = ((ws', sent', q', w'), r)"
  shows "sent' @ unsent w' q' = sent @ unsent w q \<and> writing_ok w' \<and>
    (r = PollReady (Inr b) \<longrightarrow> w' = None \<and> q' = [])"
  using assms
proof (induction ws arbitrary: sent q w)
  case Nil
  then show ?case
    using next_write_unsent [of w q]
    by (auto simp: unsent_def writing_ok_def split: option.splits prod.splits)
next
  case (Cons ev ws)
  show ?case
  proof (cases "next_write w q")
    case None
    then show ?thesis using Cons.prems next_write_unsent [of w q]
      by (auto simp: unsent_def writing_ok_def)
  next
    case (Some x)
    obtain buf off q0 where x: "x = ((buf, off), q0)" by (metis prod.exhaust)
    have u: "unsent w q = drop off buf @ concat q0" and off: "off \<le> length buf"
      using next_write_unsent [of w q] Some x Cons.prems(1) by auto
    show ?thesis
    proof (cases ev)
      case (WriteUpTo k)
      define n where "n = min k (length buf - off)"
      have adv: "take n (drop off buf) @ drop (off + n) buf = drop off buf"
        by (metis append_take_drop_id drop_drop add.commute)
      then have adv': "take n (drop off buf) @ drop (off + n) buf @ c = drop off buf @ c" for c
        by (metis append.assoc)
      consider "n = 0" | "n \<noteq> 0" "off + n = length buf" | "n \<noteq> 0" "off + n \<noteq> length buf" by blast
      then show ?thesis
      proof cases
        case 1
        then show ?thesis using Cons.prems(2) Some x WriteUpTo u off
          by (auto simp: Let_def n_def unsent_def writing_ok_def)
      next
        case 2
        then have "flush_loop ws (sent @ take n (drop off buf)) q0 None = ((ws', sent', q', w'), r)"
          using Cons.prems(2) Some x WriteUpTo by (simp add: Let_def n_def)
        moreover have "take n (drop off buf) = drop off buf" using 2 by simp
        ultimately show ?thesis
          using Cons.IH [of None "sent @ take n (drop off buf)" q0] u
          by (simp add: unsent_def writing_ok_def)
      next
        case 3
        then have "flush_loop ws (sent @ take n (drop off buf)) q0 (Some (buf, off + n))
            = ((ws', sent', q', w'), r)"
          using Cons.prems(2) Some x WriteUpTo by (simp add: Let_def n_def split: if_splits)
        moreover have "off + n \<le> length buf" using off by (simp add: n_def)
        ultimately show ?thesis
          using Cons.IH [of "Some (buf, off + n)" "sent @ take n (drop off buf)" q0] u adv'
          by (simp add: unsent_def writing_ok_def)
      qed
    next
      case WritePending
      then show ?thesis using Cons.prems(2) Some x u off by (auto simp: unsent_def writing_ok_def)
    next
      case (WriteError e)
      then show ?thesis using Cons.prems(2) Some x u off by (auto simp: unsent_def writing_ok_def)
    qed
  qed
qed

definition handler_unsent :: "session_handler \<Rightarrow> bytes" where
  "handler_unsent h = unsent (hd_writing h) (hd_write_queue h)"

lemma poll_frame_fields:
  assumes "poll_frame h = (h', r)"
  shows "hd_write_queue h' = hd_write_queue h" "hd_writing h' = hd_writing h"
    "hd_substream h' = Some s' \<Longrightarrow> \<exists>s. hd_substream h = Some s \<and> st_sent s' = st_sent s"
  using assms
  by (auto simp: poll_frame_def poll_read_once_def handler_close_def
      split: option.splits prod.splits poll.splits sum.splits)

lemma handler_poll_sent:
  assumes "writing_ok (hd_writing h)" and "hd_substream h = Some s" and "handler_poll h = (h', r)"
  shows "writing_ok (hd_writing h') \<and> (\<forall>s'. hd_substream h' = Some s' \<longrightarrow>
    st_sent s' @ handler_unsent h' = st_sent s @ handler_unsent h)"
proof -
  obtain ws sent q w p where fl: "flush_loop (st_writes s) (st_sent s) (hd_write_queue h) (hd_writing h)
      = ((ws, sent, q, w), p)" by (metis prod.exhaust)
  note inv = flush_loop_unsent [OF assms(1) fl]
  define h1 where "h1 = h\<lparr>hd_substream := Some (s\<lparr>st_writes := ws, st_sent := sent\<rparr>),
      hd_write_queue := q, hd_writing := w\<rparr>"
  have pf: "poll_flush_writes h = (h1, p)" using assms(2) fl by (simp add: poll_flush_writes_def h1_def)
  have h1: "writing_ok (hd_writing h1)" "sent @ handler_unsent h1 = st_sent s @ handler_unsent h"
    using inv by (simp_all add: h1_def handler_unsent_def)
  have frame: "writing_ok (hd_writing h2) \<and> (\<forall>s'. hd_substream h2 = Some s' \<longrightarrow>
      st_sent s' @ handler_unsent h2 = st_sent s @ handler_unsent h)"
    if "poll_frame h0 = (h2, r2)" "h0 = h \<or> h0 = h1" for h0 h2 r2
    using that poll_frame_fields [OF that(1)] assms(1,2) h1
    by (fastforce simp: handler_unsent_def h1_def)
  show ?thesis
    using assms pf h1 frame
    by (auto simp: handler_poll_def handler_close_def handler_unsent_def h1_def
        split: if_splits poll.splits sum.splits)
qed

section \<open>Invariant of the handler\<close>

text \<open>Everything that can happen to a handler.\<close>

inductive handler_step :: "session_handler \<Rightarrow> session_handler \<Rightarrow> bool" where
  hs_poll: "handler_poll h = (h', r) \<Longrightarrow> handler_step h h'"
| hs_behaviour: "handler_step h (on_behaviour_event e h)"
| hs_connection: "handler_step h (on_connection_event e h)"
| hs_close: "handler_step h (poll_close h)"

inductive_cases handler_stepE: "handler_step h h'"

definition handler_init :: "crates \<Rightarrow> session_handler \<Rightarrow> bool" where
  "handler_init E h \<longleftrightarrow> (\<exists>i p. h = handler_new E i p)"

definition handler_inv :: "session_handler \<Rightarrow> bool" where
  "handler_inv h \<longleftrightarrow>
     length (hd_read_buf h) \<le> MAX_READ_BUFFER + 4096 \<and> writing_ok (hd_writing h)"

lemma read_loop_bound:
  assumes "length buf \<le> MAX_READ_BUFFER + 4096" and "read_loop rs buf = ((rs', buf'), r)"
  shows "length buf' \<le> MAX_READ_BUFFER + 4096"
  using assms
proof (induction rs arbitrary: buf)
  case Nil
  then show ?case by (auto split: sum.splits if_splits)
next
  case (Cons ev rs)
  show ?case
  proof (cases "\<exists>bs. ev = ReadBytes bs \<and> take 4096 bs \<noteq> [] \<and> decode buf = Inl Truncated \<and>
      \<not> length buf > MAX_READ_BUFFER")
    case True
    then obtain bs where "read_loop rs (buf @ take 4096 bs) = ((rs', buf'), r)"
      "\<not> length buf > MAX_READ_BUFFER" using Cons.prems(2) by auto
    then show ?thesis using Cons.IH [of "buf @ take 4096 bs"] by simp
  next
    case False
    then show ?thesis using Cons.prems
      by (auto simp: Let_def split: sum.splits if_splits read_outcome.splits)
  qed
qed

lemma poll_frame_bound:
  assumes "length (hd_read_buf h) \<le> MAX_READ_BUFFER + 4096" and "poll_frame h = (h', r)"
  shows "length (hd_read_buf h') \<le> MAX_READ_BUFFER + 4096"
proof (cases "hd_substream h")
  case None
  then show ?thesis using assms by (simp add: poll_frame_def poll_read_once_def)
next
  case (Some s)
  obtain rs buf p where rl: "read_loop (st_reads s) (hd_read_buf h) = ((rs, buf), p)"
    by (metis prod.exhaust)
  have "hd_read_buf h' = buf"
    using assms(2) Some rl
    by (auto simp: poll_frame_def poll_read_once_def handler_close_def
        split: poll.splits sum.splits option.splits)
  then show ?thesis using read_loop_bound [OF assms(1) rl] by simp
qed

lemma poll_flush_fields: "poll_flush_writes h = (h', r) \<Longrightarrow> hd_read_buf h' = hd_read_buf h"
  by (auto simp: poll_flush_writes_def split: option.splits prod.splits)

lemma poll_flush_ok:
  "writing_ok (hd_writing h) \<Longrightarrow> poll_flush_writes h = (h', r) \<Longrightarrow> writing_ok (hd_writing h')"
  by (auto simp: poll_flush_writes_def split: option.splits prod.splits dest: flush_loop_unsent)

lemma handler_poll_cases:
  assumes "handler_poll h = (h', r)"
  obtains (idle) "h' = h" | (request) "h' = h\<lparr>hd_outbound_requested := True\<rparr>"
  | (ready) "h' = h\<lparr>hd_pending_ready := False\<rparr>" | (frame) "poll_frame h = (h', r)"
  | (flushed) h1 b where "poll_flush_writes h = (h1, PollReady (Inr b))" "poll_frame h1 = (h', r)"
  | (blocked) "poll_flush_writes h = (h', Pending)"
  | (failed) h1 e where "poll_flush_writes h = (h1, PollReady (Inl e))" "h' = handler_close h1"
  using assms
  by (auto simp: handler_poll_def split: if_splits prod.splits poll.splits sum.splits)

lemma handler_poll_inv:
  assumes inv: "handler_inv h" and "handler_poll h = (h', r)"
  shows "handler_inv h'"
proof -
  have pf: "handler_inv h2" if "handler_inv h0" "poll_frame h0 = (h2, r2)" for h0 h2 r2
    using that poll_frame_bound [of h0 h2 r2] poll_frame_fields(2) [of h0 h2 r2]
    by (simp add: handler_inv_def)
  have fl: "handler_inv h1" if "poll_flush_writes h = (h1, p)" for h1 p
    using inv poll_flush_fields [OF that] poll_flush_ok [OF _ that] by (simp add: handler_inv_def)
  show ?thesis
    using assms(2)
  proof (cases rule: handler_poll_cases)
    case (flushed h1 b)
    then show ?thesis using pf fl by blast
  next
    case (failed h1 e)
    then show ?thesis using fl by (simp add: handler_inv_def handler_close_def)
  next
    case frame
    then show ?thesis using pf inv by blast
  next
    case blocked
    then show ?thesis by (rule fl)
  qed (use inv in \<open>simp_all add: handler_inv_def\<close>)
qed

lemma handler_step_inv: "handler_inv h \<Longrightarrow> handler_step h h' \<Longrightarrow> handler_inv h'"
proof (erule handler_stepE)
  fix r assume "handler_inv h" "handler_poll h = (h', r)"
  then show "handler_inv h'" by (rule handler_poll_inv)
next
  fix e assume "handler_inv h" "h' = on_connection_event e h"
  then show "handler_inv h'" by (cases e) (auto simp: handler_inv_def set_substream_def)
next
  fix e assume "handler_inv h" "h' = on_behaviour_event e h"
  then show "handler_inv h'" by (cases e) (auto simp: handler_inv_def)
qed (auto simp: handler_inv_def poll_close_def)

lemma handler_inv_init: "handler_init E h \<Longrightarrow> handler_inv h"
  by (auto simp: handler_init_def handler_new_def handler_inv_def writing_ok_def)

interpretation handler_sys: invariant_system "handler_init E" handler_step handler_inv
  for E
  by unfold_locales (auto intro: handler_inv_init handler_step_inv)


text \<open>C28. Writes are neither lost, repeated nor reordered: in any number of polls, under any
  partial writes and pauses, the bytes the stream accepted followed by the bytes still queued
  are always the same sequence, as long as the handler keeps its stream.\<close>

theorem handler_writes_in_order:
  assumes "writing_ok (hd_writing h)" and "hd_substream h = Some s"
    and "hd_substream (fst (poll_times n h)) = Some s'"
  shows "st_sent s' @ handler_unsent (fst (poll_times n h)) = st_sent s @ handler_unsent h"
proof -
  have closed: "hd_substream (fst (poll_times n h)) = None" if "hd_substream h = None" for n h
    using that
  proof (induction n arbitrary: h)
    case (Suc n)
    have "hd_substream (fst (handler_poll h)) = None"
      using Suc.prems by (auto simp: handler_poll_def poll_flush_writes_def poll_frame_def
          poll_read_once_def handler_close_def)
    then have "hd_substream (fst (poll_times n (fst (handler_poll h)))) = None" by (rule Suc.IH)
    then show ?case by (cases "handler_poll h") (auto split: poll.splits prod.splits)
  qed simp
  show ?thesis
    using assms
  proof (induction n arbitrary: h s)
    case (Suc n)
    obtain h1 r where p: "handler_poll h = (h1, r)" by (cases "handler_poll h")
    have rest: "fst (poll_times (Suc n) h) = fst (poll_times n h1)"
      using p by (auto split: poll.splits prod.splits)
    then obtain s1 where s1: "hd_substream h1 = Some s1"
      using Suc.prems(3) closed [of h1 n] by (cases "hd_substream h1") auto
    note one = handler_poll_sent [OF Suc.prems(1,2) p]
    then have "st_sent s1 @ handler_unsent h1 = st_sent s @ handler_unsent h" using s1 by blast
    then show ?case using Suc.IH [of h1 s1] one s1 Suc.prems(3) rest by simp
  qed simp
qed

text \<open>The end of the stream is not reported: when the peer closes its side between frames (or
  inside one), \<open>poll\<close> stays \<open>Pending\<close>, no \<open>StreamClosed\<close> event is produced and the handler stays
  open with its stream.\<close>

theorem handler_eof_not_reported:
  assumes "reading h s" and "decode (hd_read_buf h) = Inl Truncated" and "st_reads s = ReadBytes [] # rs"
  shows "\<exists>h'. handler_poll h = (h', Pending) \<and> \<not> hd_closed h' \<and> hd_substream h' \<noteq> None"
proof -
  have "read_loop (st_reads s) (hd_read_buf h) = ((rs, hd_read_buf h), PollReady (Inr None))"
    using assms(2,3) truncated_below_limit [OF assms(2)] by simp
  from reading_poll [OF assms(1) this] show ?thesis
    using assms(1) by (simp add: Let_def reading_def)
qed

section \<open>Witnesses\<close>

definition sample_stream :: "read_outcome list \<Rightarrow> write_outcome list \<Rightarrow> stream" where
  "sample_stream rs ws = \<lparr>st_reads = rs, st_writes = ws, st_sent = []\<rparr>"

definition sample_handler :: "stream \<Rightarrow> bytes list \<Rightarrow> session_handler" where
  "sample_handler s q = \<lparr>hd_initiator = False, hd_peer = [], hd_outbound_requested = False,
     hd_substream = Some s, hd_pending_ready = False, hd_read_buf = [], hd_write_queue = q,
     hd_writing = None, hd_closed = False\<rparr>"

lemma sample_reading: "reading (sample_handler s []) s"
  by (simp add: reading_def sample_handler_def)

abbreviation sample_frame :: frame where
  "sample_frame \<equiv> frame_handshake Hello [1, 2, 3]"

lemma wf_sample_frame: "wf_frame sample_frame"
  by (rule wf_frame_handshake) (simp_all add: is_hs_def MAX_PAYLOAD_def)

theorem handler_reassembles_witness:
  "\<exists>n. snd (poll_times n (sample_handler (sample_stream
       [ReadBytes (take 20 (encode sample_frame)), ReadPending,
        ReadBytes (drop 20 (encode sample_frame))] []) []))
     = [NotifyBehaviour (FrameReceived sample_frame)]"
proof -
  let ?rs = "[ReadBytes (take 20 (encode sample_frame)), ReadPending,
        ReadBytes (drop 20 (encode sample_frame))]"
  have len: "length (encode sample_frame) = 40"
    using wf_sample_frame by (simp add: frame_handshake_def)
  then have live: "live_reads (st_reads (sample_stream ?rs []))"
    by (simp add: live_reads_def sample_stream_def)
  have "read_data (st_reads (sample_stream ?rs [])) = concat (map encode [sample_frame])"
    by (simp add: sample_stream_def)
  moreover have "\<forall>f \<in> set [sample_frame]. wf_frame f" using wf_sample_frame by simp
  ultimately have "\<exists>k \<le> length [sample_frame].
      snd (poll_times 4 (sample_handler (sample_stream ?rs []) []))
        = map (\<lambda>f. NotifyBehaviour (FrameReceived f)) (take k [sample_frame]) \<and>
      (length (st_reads (sample_stream ?rs [])) + length [sample_frame] \<le> 4 \<longrightarrow> k = length [sample_frame])"
    using live by (intro handler_reassembles [OF _ live sample_reading]) (simp_all add: sample_handler_def)
  then show ?thesis by (intro exI [of _ 4]) (auto simp: sample_stream_def)
qed


theorem handler_writes_in_order_witness:
  "\<exists>s'. hd_substream (fst (poll_times 1 (sample_handler (sample_stream [] [WriteUpTo 3]) [[1, 2], [3, 4]])))
      = Some s' \<and> st_sent s' = [1, 2] \<and>
    st_sent s' @ handler_unsent (fst (poll_times 1
      (sample_handler (sample_stream [] [WriteUpTo 3]) [[1, 2], [3, 4]]))) = [1, 2, 3, 4]"
proof -
  let ?s = "sample_stream [] [WriteUpTo 3]"
  let ?h = "sample_handler ?s [[1, 2], [3, 4]]"
  obtain s' where s': "hd_substream (fst (poll_times 1 ?h)) = Some s'" "st_sent s' = [1, 2]"
    by (simp add: sample_handler_def sample_stream_def handler_poll_def poll_flush_writes_def
        next_write_def poll_frame_def)
  have h: "writing_ok (hd_writing ?h)" "hd_substream ?h = Some ?s"
    by (simp_all add: sample_handler_def writing_ok_def)
  have "st_sent ?s @ handler_unsent ?h = [1, 2, 3, 4]"
    by (simp add: sample_stream_def sample_handler_def handler_unsent_def unsent_def)
  then show ?thesis using handler_writes_in_order [OF h s'(1)] s' by simp
qed

theorem handler_eof_not_reported_witness:
  "\<exists>h'. handler_poll (sample_handler (sample_stream [ReadBytes []] []) []) = (h', Pending) \<and>
     \<not> hd_closed h'"
proof -
  have "decode (hd_read_buf (sample_handler (sample_stream [ReadBytes []] []) [])) = Inl Truncated"
    by (simp add: sample_handler_def decode_def)
  from handler_eof_not_reported [OF sample_reading this] show ?thesis
    by (auto simp: sample_stream_def)
qed

end
