(* ===== verification/Behaviour.thy ===== *)
theory Behaviour
  imports Session Handler
begin

text \<open>
  The swarm side of \<open>src/transport.rs\<close> (\<open>SessionBehaviour\<close>): the tables of running handshakes,
  of established sessions and of messages waiting for one, and the queue of orders to the
  swarm.  An operation returns the new state, or \<open>None\<close> when the code panics.  What a call reads
  from its surroundings (the clocks, a random \<open>u64\<close>, entropy) is the \<open>ambient\<close> argument;
  no operation draws more than one random \<open>u64\<close>.  Logging is left out.  A hash map is
  iterated in the order of the model's list; the statements do not depend on that order.
\<close>

section \<open>Data\<close>

datatype behaviour_event =
  SessionEstablished peer_id connection_id handshake_result
| HandshakeFailed peer_id string
| MessageReceived peer_id u64 string u64
| AckReceived peer_id u64 u32
| ObservedAddrReported peer_id ip_addr u16
| DialBackRequested peer_id multiaddr
| DialBackResolved peer_id multiaddr bool
| PeerConnected peer_id
| PeerDisconnected peer_id

text \<open>\<open>DialOpts::peer_id(..).addresses(..)\<close> with \<open>PeerCondition::Always\<close>, and
  \<open>DialOpts::unknown_peer_id().address(..)\<close>; both allocate a new port.\<close>

datatype dial_opts = DialPeer peer_id "multiaddr list" | DialAddr multiaddr

datatype to_swarm =
  GenerateEvent behaviour_event
| NotifyHandler peer_id connection_id behaviour_to_handler
| Dial dial_opts

record behaviour =
  bh_identity :: device_identity
  bh_handshakes :: "(peer_id \<times> connection_id, handshake \<times> peer_id option) hmap"
  bh_sessions :: "(peer_id, peer_id \<times> connection_id \<times> session) hmap"
  bh_peer_names :: "(peer_id, string) hmap"
  bh_pending_sends :: "(peer_id, (u64 \<times> string) list) hmap"
  bh_connected :: "peer_id list"
  bh_transport_devices :: "(peer_id, peer_id) hmap"
  bh_device_transports :: "(peer_id, peer_id) hmap"
  bh_observed_addrs :: "(peer_id \<times> connection_id, ip_addr \<times> u16) hmap"
  bh_queue :: "to_swarm list"

text \<open>\<open>am_clock i\<close> is the wall clock at the \<open>i\<close>-th message of one call.\<close>

record ambient =
  am_instant :: instant
  am_clock :: "nat \<Rightarrow> int"
  am_rid :: u64
  am_entropy :: entropy

definition behaviour_new :: "device_identity \<Rightarrow> behaviour" where
  "behaviour_new identity =
     \<lparr>bh_identity = identity, bh_handshakes = [], bh_sessions = [], bh_peer_names = [],
      bh_pending_sends = [], bh_connected = [], bh_transport_devices = [],
      bh_device_transports = [], bh_observed_addrs = [], bh_queue = []\<rparr>"

section \<open>Queries\<close>

definition has_session :: "peer_id \<Rightarrow> behaviour \<Rightarrow> bool" where
  "has_session peer b = hm_contains (bh_sessions b) peer"

definition peer_name :: "peer_id \<Rightarrow> behaviour \<Rightarrow> string option" where
  "peer_name peer b = hm_get (bh_peer_names b) peer"

definition transport_of :: "peer_id \<Rightarrow> behaviour \<Rightarrow> peer_id option" where
  "transport_of device b = hm_get (bh_device_transports b) device"

definition device_of :: "peer_id \<Rightarrow> behaviour \<Rightarrow> peer_id option" where
  "device_of transport b = hm_get (bh_transport_devices b) transport"

definition session_peers :: "behaviour \<Rightarrow> peer_id list" where
  "session_peers b = hm_keys (bh_sessions b)"

text \<open>\<open>device_of(..).unwrap_or(transport)\<close>.\<close>

definition peer_or_device :: "peer_id \<Rightarrow> behaviour \<Rightarrow> peer_id" where
  "peer_or_device transport b = (case device_of transport b of None \<Rightarrow> transport | Some d \<Rightarrow> d)"

section \<open>Orders to the swarm\<close>

definition push_back :: "to_swarm \<Rightarrow> behaviour \<Rightarrow> behaviour" where
  "push_back ev b = b\<lparr>bh_queue := bh_queue b @ [ev]\<rparr>"

definition notify_conn :: "peer_id \<Rightarrow> connection_id \<Rightarrow> frame list \<Rightarrow> behaviour \<Rightarrow> behaviour" where
  "notify_conn peer conn_id frames b = push_back (NotifyHandler peer conn_id (SendFrames frames)) b"

definition set_session ::
  "peer_id \<Rightarrow> peer_id \<Rightarrow> connection_id \<Rightarrow> session \<Rightarrow> behaviour \<Rightarrow> behaviour" where
  "set_session device transport conn_id s b =
     b\<lparr>bh_sessions := hm_insert device (transport, conn_id, s) (bh_sessions b)\<rparr>"

definition map_transport :: "peer_id \<Rightarrow> peer_id \<Rightarrow> behaviour \<Rightarrow> behaviour" where
  "map_transport device transport b =
     b\<lparr>bh_transport_devices := hm_insert transport device (bh_transport_devices b),
       bh_device_transports := hm_insert device transport (bh_device_transports b)\<rparr>"

definition send_message ::
  "crates \<Rightarrow> ambient \<Rightarrow> peer_id \<Rightarrow> string \<Rightarrow> behaviour \<Rightarrow> (behaviour \<times> u64) option" where
  "send_message E A peer body b =
     (let msg_id = am_rid A in
      case hm_get (bh_sessions b) peer of
        Some (transport, conn_id, s) \<Rightarrow>
          (case encrypt_message E body msg_id (am_clock A 0) s of
             None \<Rightarrow> None
           | Some (s', Inr frame) \<Rightarrow>
               Some (notify_conn transport conn_id [frame]
                 (set_session peer transport conn_id s' b), msg_id)
           | Some (s', Inl e) \<Rightarrow>
               Some (push_back (GenerateEvent (HandshakeFailed peer
                   (''session error: '' @ session_error_display e)))
                 (set_session peer transport conn_id s' b), msg_id))
      | None \<Rightarrow>
          (let q = (case hm_get (bh_pending_sends b) peer of None \<Rightarrow> [] | Some q \<Rightarrow> q) in
           Some (b\<lparr>bh_pending_sends
               := hm_insert peer (q @ [(msg_id, body)]) (bh_pending_sends b)\<rparr>, msg_id)))"

definition connect :: "peer_id \<Rightarrow> peer_id \<Rightarrow> multiaddr list \<Rightarrow> behaviour \<Rightarrow> behaviour" where
  "connect device transport addrs b =
     (if addrs = [] then b
      else push_back (Dial (DialPeer transport addrs)) (map_transport device transport b))"

definition connect_unknown :: "multiaddr list \<Rightarrow> behaviour \<Rightarrow> behaviour" where
  "connect_unknown addrs b =
     (case addrs of [] \<Rightarrow> b | addr # _ \<Rightarrow> push_back (Dial (DialAddr addr)) b)"

definition connect_probe :: "multiaddr \<Rightarrow> behaviour \<Rightarrow> behaviour" where
  "connect_probe addr b = push_back (Dial (DialAddr addr)) b"

text \<open>The three control reports share their shape: seal with the session of the peer, if there
  is one, and hand the frame to its connection.\<close>

definition send_sealed ::
  "(session \<Rightarrow> (session \<times> frame) option) \<Rightarrow> peer_id \<Rightarrow> behaviour \<Rightarrow> behaviour option" where
  "send_sealed seal peer b =
     (case hm_get (bh_sessions b) peer of
        None \<Rightarrow> Some b
      | Some (transport, conn_id, s) \<Rightarrow>
          (case seal s of
             None \<Rightarrow> None
           | Some (s', frame) \<Rightarrow>
               Some (notify_conn transport conn_id [frame]
                 (set_session peer transport conn_id s' b))))"

definition send_observed_addr ::
  "crates \<Rightarrow> ambient \<Rightarrow> peer_id \<Rightarrow> ip_addr \<Rightarrow> u16 \<Rightarrow> behaviour \<Rightarrow> behaviour option" where
  "send_observed_addr E A peer ip source_port b =
     send_sealed (encrypt_observed_addr E ip source_port (am_rid A)) peer b"

definition send_dial_back_req ::
  "crates \<Rightarrow> ambient \<Rightarrow> peer_id \<Rightarrow> multiaddr \<Rightarrow> behaviour \<Rightarrow> behaviour option" where
  "send_dial_back_req E A peer addr b =
     send_sealed (encrypt_dial_back_req E addr (am_rid A)) peer b"

definition send_dial_back_res ::
  "crates \<Rightarrow> ambient \<Rightarrow> peer_id \<Rightarrow> multiaddr \<Rightarrow> bool \<Rightarrow> behaviour \<Rightarrow> behaviour option" where
  "send_dial_back_res E A peer addr rch b =
     send_sealed (encrypt_dial_back_res E addr rch (am_rid A)) peer b"

section \<open>Handshake and session frames\<close>

text \<open>The loop of \<open>flush_pending_sends\<close>: a message that fails to encrypt is skipped.\<close>

fun seal_pending ::
  "crates \<Rightarrow> (nat \<Rightarrow> int) \<Rightarrow> (u64 \<times> string) list \<Rightarrow> session \<Rightarrow> (session \<times> frame list) option" where
  "seal_pending E clock [] s = Some (s, [])"
| "seal_pending E clock ((msg_id, body) # q) s =
     (case encrypt_message E body msg_id (clock 0) s of
        None \<Rightarrow> None
      | Some (s', Inr frame) \<Rightarrow>
          map_option (\<lambda>(s'', fs). (s'', frame # fs)) (seal_pending E (\<lambda>i. clock (Suc i)) q s')
      | Some (s', Inl e) \<Rightarrow> seal_pending E (\<lambda>i. clock (Suc i)) q s')"

definition flush_pending_sends ::
  "crates \<Rightarrow> ambient \<Rightarrow> peer_id \<Rightarrow> peer_id \<Rightarrow> connection_id \<Rightarrow> behaviour \<Rightarrow> behaviour option" where
  "flush_pending_sends E A device transport conn_id b =
     (case hm_get (bh_pending_sends b) device of
        None \<Rightarrow> Some b
      | Some q \<Rightarrow>
          (let b' = b\<lparr>bh_pending_sends := hm_remove device (bh_pending_sends b)\<rparr> in
           case hm_get (bh_sessions b') device of
             None \<Rightarrow> Some b'
           | Some (t, c, s) \<Rightarrow>
               (case seal_pending E (am_clock A) q s of
                  None \<Rightarrow> None
                | Some (s', frames) \<Rightarrow>
                    Some (notify_conn transport conn_id frames (set_session device t c s' b')))))"

text \<open>The branch of \<open>on_frame\<close> for an established handshake.\<close>

definition on_established ::
  "crates \<Rightarrow> ambient \<Rightarrow> peer_id \<Rightarrow> connection_id \<Rightarrow> handshake_result \<Rightarrow> behaviour
   \<Rightarrow> behaviour option" where
  "on_established E A transport conn_id res b =
     (let device = hr_peer_id res;
          b1 = b\<lparr>bh_handshakes := hm_remove (transport, conn_id) (bh_handshakes b)\<rparr>;
          b2 = map_transport device transport b1;
          b3 = b2\<lparr>bh_peer_names
                 := hm_insert device (ph_user_name (hr_peer_hello res)) (bh_peer_names b2)\<rparr>;
          b4 = set_session device transport conn_id (session_new E res) b3 in
      case flush_pending_sends E A device transport conn_id b4 of
        None \<Rightarrow> None
      | Some b5 \<Rightarrow>
          map_option (push_back (GenerateEvent (SessionEstablished device conn_id res)))
            (case hm_get (bh_observed_addrs b5) (transport, conn_id) of
               None \<Rightarrow> Some b5
             | Some (ip, source_port) \<Rightarrow>
                 send_observed_addr E A device ip source_port
                   (b5\<lparr>bh_observed_addrs
                      := hm_remove (transport, conn_id) (bh_observed_addrs b5)\<rparr>)))"

definition on_session_frame ::
  "crates \<Rightarrow> ambient \<Rightarrow> peer_id \<Rightarrow> connection_id \<Rightarrow> frame \<Rightarrow> behaviour \<Rightarrow> behaviour option" where
  "on_session_frame E A transport conn_id frame b =
     (case device_of transport b of
        None \<Rightarrow> Some b
      | Some device \<Rightarrow>
     (case hm_get (bh_sessions b) device of
        None \<Rightarrow> Some b
      | Some (t, c, s) \<Rightarrow>
     (case handle_frame E frame s of
        None \<Rightarrow> None
      | Some (s', Inl e) \<Rightarrow>
          Some (push_back (GenerateEvent (HandshakeFailed device
              (''session error: '' @ session_error_display e)))
            (b\<lparr>bh_sessions := hm_remove device (bh_sessions b)\<rparr>))
      | Some (s', Inr (Inbound_Message sq msg_id created_ts_ms body)) \<Rightarrow>
          (case encrypt_ack E msg_id sq (am_clock A 0) (am_rid A) s' of
             None \<Rightarrow> None
           | Some (s'', ack) \<Rightarrow>
               Some (push_back (GenerateEvent (MessageReceived device msg_id body created_ts_ms))
                 (notify_conn transport conn_id [ack] (set_session device t c s'' b))))
      | Some (s', Inr (Inbound_Ack msg_id ack_seq)) \<Rightarrow>
          Some (push_back (GenerateEvent (AckReceived device msg_id ack_seq))
            (set_session device t c s' b))
      | Some (s', Inr (Inbound_ObservedAddr _ ip source_port)) \<Rightarrow>
          Some (push_back (GenerateEvent (ObservedAddrReported device ip source_port))
            (set_session device t c s' b))
      | Some (s', Inr (Inbound_DialBackReq _ addr)) \<Rightarrow>
          Some (push_back (GenerateEvent (DialBackRequested device addr))
            (set_session device t c s' b))
      | Some (s', Inr (Inbound_DialBackRes _ addr rch)) \<Rightarrow>
          Some (push_back (GenerateEvent (DialBackResolved device addr rch))
            (set_session device t c s' b)))))"

definition bh_on_frame ::
  "crates \<Rightarrow> ambient \<Rightarrow> peer_id \<Rightarrow> connection_id \<Rightarrow> frame \<Rightarrow> behaviour \<Rightarrow> behaviour option" where
  "bh_on_frame E A transport conn_id frame b =
     (if is_session_frame frame then on_session_frame E A transport conn_id frame b
      else case hm_get (bh_handshakes b) (transport, conn_id) of
        None \<Rightarrow> Some b
      | Some (hs, expected) \<Rightarrow>
          (case on_frame E (bh_identity b) frame (am_entropy A) hs of
             None \<Rightarrow> None
           | Some (hs', Inr (Frames frames)) \<Rightarrow>
               Some (notify_conn transport conn_id frames
                 (b\<lparr>bh_handshakes
                    := hm_insert (transport, conn_id) (hs', expected) (bh_handshakes b)\<rparr>))
           | Some (hs', Inr (Established res)) \<Rightarrow> on_established E A transport conn_id res b
           | Some (hs', Inl e) \<Rightarrow>
               Some (push_back (GenerateEvent (HandshakeFailed (peer_or_device transport b)
                   (handshake_error_display e)))
                 (b\<lparr>bh_handshakes := hm_remove (transport, conn_id) (bh_handshakes b)\<rparr>))))"

definition on_handler_event ::
  "crates \<Rightarrow> ambient \<Rightarrow> peer_id \<Rightarrow> connection_id \<Rightarrow> handler_to_behaviour \<Rightarrow> behaviour
   \<Rightarrow> behaviour option" where
  "on_handler_event E A transport conn_id event b =
     (case event of
        SubstreamReady \<Rightarrow>
          if hm_contains (bh_handshakes b) (transport, conn_id) then Some b
          else
            (let expected_device = device_of transport b in
             case handshake_new E (bh_identity b) expected_device (am_instant A) of
               (hs, hello) \<Rightarrow>
                 Some (notify_conn transport conn_id [hello]
                   (b\<lparr>bh_handshakes := hm_insert (transport, conn_id) (hs, expected_device)
                        (bh_handshakes b)\<rparr>)))
      | FrameReceived frame \<Rightarrow> bh_on_frame E A transport conn_id frame b
      | StreamClosed \<Rightarrow>
          Some (b\<lparr>bh_handshakes := hm_remove (transport, conn_id) (bh_handshakes b)\<rparr>))"

section \<open>Events of the swarm\<close>

text \<open>The events the behaviour distinguishes.  An established connection carries the
  \<open>send_back_addr\<close> of an inbound endpoint; a closed one the number of remaining connections.\<close>

datatype from_swarm =
  ConnectionEstablished peer_id connection_id "multiaddr option"
| ConnectionClosed peer_id connection_id nat
| DialFailure
| OtherSwarmEvent

fun find_ip :: "protocol list \<Rightarrow> ip_addr option" where
  "find_ip [] = None"
| "find_ip (p # ps) = (case p of Ip4 i \<Rightarrow> Some (V4 i) | Ip6 i \<Rightarrow> Some (V6 i) | _ \<Rightarrow> find_ip ps)"

fun find_tcp :: "protocol list \<Rightarrow> u16 option" where
  "find_tcp [] = None"
| "find_tcp (p # ps) = (case p of Tcp n \<Rightarrow> Some n | _ \<Rightarrow> find_tcp ps)"

definition observe_inbound ::
  "peer_id \<Rightarrow> connection_id \<Rightarrow> multiaddr option \<Rightarrow> behaviour \<Rightarrow> behaviour" where
  "observe_inbound peer conn_id send_back b =
     (case send_back of
        None \<Rightarrow> b
      | Some addr \<Rightarrow>
          (let port = (case find_tcp (ma_iter addr) of None \<Rightarrow> 0 | Some p \<Rightarrow> p) in
           case find_ip (ma_iter addr) of
             None \<Rightarrow> b
           | Some ip \<Rightarrow>
               b\<lparr>bh_observed_addrs := hm_insert (peer, conn_id) (ip, port) (bh_observed_addrs b)\<rparr>))"

definition on_connection_closed ::
  "peer_id \<Rightarrow> connection_id \<Rightarrow> nat \<Rightarrow> behaviour \<Rightarrow> behaviour" where
  "on_connection_closed transport conn_id remaining b =
     (let b1 = b\<lparr>bh_observed_addrs := hm_remove (transport, conn_id) (bh_observed_addrs b)\<rparr>;
          device = device_of transport b1;
          who = peer_or_device transport b1;
          b2 = b1\<lparr>bh_connected := hs_remove transport (bh_connected b1),
                  bh_handshakes := hm_remove (transport, conn_id) (bh_handshakes b1)\<rparr>;
          b3 = (case hm_get (bh_sessions b2) who of
                  None \<Rightarrow> b2
                | Some (t, conn, _) \<Rightarrow>
                    if conn = conn_id \<and> t = transport then
                      (let b' = b2\<lparr>bh_sessions := hm_remove who (bh_sessions b2)\<rparr> in
                       case device of
                         None \<Rightarrow> b'
                       | Some d \<Rightarrow> b'\<lparr>bh_peer_names := hm_remove d (bh_peer_names b')\<rparr>)
                    else b2) in
      if remaining = 0 then push_back (GenerateEvent (PeerDisconnected who)) b3 else b3)"

fun on_swarm_event :: "from_swarm \<Rightarrow> behaviour \<Rightarrow> behaviour" where
  "on_swarm_event (ConnectionEstablished peer conn_id send_back) b =
     (let b1 = b\<lparr>bh_connected := hs_insert peer (bh_connected b)\<rparr>;
          b2 = observe_inbound peer conn_id send_back b1 in
      push_back (GenerateEvent (PeerConnected (peer_or_device peer b2))) b2)"
| "on_swarm_event (ConnectionClosed peer conn_id remaining) b =
     on_connection_closed peer conn_id remaining b"
| "on_swarm_event DialFailure b = b"
| "on_swarm_event OtherSwarmEvent b = b"

definition handle_established_inbound_connection :: "crates \<Rightarrow> peer_id \<Rightarrow> session_handler" where
  "handle_established_inbound_connection E peer = handler_new E False peer"

definition handle_established_outbound_connection :: "crates \<Rightarrow> peer_id \<Rightarrow> session_handler" where
  "handle_established_outbound_connection E peer = handler_new E True peer"

definition expired_handshakes :: "instant \<Rightarrow> behaviour \<Rightarrow> (peer_id \<times> connection_id) list" where
  "expired_handshakes now b =
     map fst (filter (\<lambda>(_, hs, _). hs_timed_out hs now) (bh_handshakes b))"

definition expire_handshake :: "peer_id \<times> connection_id \<Rightarrow> behaviour \<Rightarrow> behaviour" where
  "expire_handshake k b =
     push_back (GenerateEvent (HandshakeFailed (peer_or_device (fst k) b) ''handshake timed out''))
       (b\<lparr>bh_handshakes := hm_remove k (bh_handshakes b)\<rparr>)"

definition bh_poll :: "instant \<Rightarrow> behaviour \<Rightarrow> behaviour \<times> to_swarm poll" where
  "bh_poll now b =
     (let b' = fold expire_handshake (expired_handshakes now b) b in
      case bh_queue b' of
        ev # q \<Rightarrow> (b'\<lparr>bh_queue := q\<rparr>, PollReady ev)
      | [] \<Rightarrow> (b', Pending))"

section \<open>How the small operations change the state\<close>

lemma push_back_fields [simp]:
  "bh_identity (push_back ev b) = bh_identity b"
  "bh_handshakes (push_back ev b) = bh_handshakes b"
  "bh_sessions (push_back ev b) = bh_sessions b"
  "bh_peer_names (push_back ev b) = bh_peer_names b"
  "bh_pending_sends (push_back ev b) = bh_pending_sends b"
  "bh_connected (push_back ev b) = bh_connected b"
  "bh_transport_devices (push_back ev b) = bh_transport_devices b"
  "bh_device_transports (push_back ev b) = bh_device_transports b"
  "bh_observed_addrs (push_back ev b) = bh_observed_addrs b"
  "bh_queue (push_back ev b) = bh_queue b @ [ev]"
  by (simp_all add: push_back_def)

lemma notify_conn_fields [simp]:
  "bh_identity (notify_conn p c fs b) = bh_identity b"
  "bh_handshakes (notify_conn p c fs b) = bh_handshakes b"
  "bh_sessions (notify_conn p c fs b) = bh_sessions b"
  "bh_peer_names (notify_conn p c fs b) = bh_peer_names b"
  "bh_pending_sends (notify_conn p c fs b) = bh_pending_sends b"
  "bh_connected (notify_conn p c fs b) = bh_connected b"
  "bh_transport_devices (notify_conn p c fs b) = bh_transport_devices b"
  "bh_device_transports (notify_conn p c fs b) = bh_device_transports b"
  "bh_observed_addrs (notify_conn p c fs b) = bh_observed_addrs b"
  "bh_queue (notify_conn p c fs b) = bh_queue b @ [NotifyHandler p c (SendFrames fs)]"
  by (simp_all add: notify_conn_def)

lemma set_session_fields [simp]:
  "bh_identity (set_session d t c s b) = bh_identity b"
  "bh_handshakes (set_session d t c s b) = bh_handshakes b"
  "bh_sessions (set_session d t c s b) = hm_insert d (t, c, s) (bh_sessions b)"
  "bh_peer_names (set_session d t c s b) = bh_peer_names b"
  "bh_pending_sends (set_session d t c s b) = bh_pending_sends b"
  "bh_connected (set_session d t c s b) = bh_connected b"
  "bh_transport_devices (set_session d t c s b) = bh_transport_devices b"
  "bh_device_transports (set_session d t c s b) = bh_device_transports b"
  "bh_observed_addrs (set_session d t c s b) = bh_observed_addrs b"
  "bh_queue (set_session d t c s b) = bh_queue b"
  by (simp_all add: set_session_def)

lemma map_transport_fields [simp]:
  "bh_identity (map_transport d t b) = bh_identity b"
  "bh_handshakes (map_transport d t b) = bh_handshakes b"
  "bh_sessions (map_transport d t b) = bh_sessions b"
  "bh_peer_names (map_transport d t b) = bh_peer_names b"
  "bh_pending_sends (map_transport d t b) = bh_pending_sends b"
  "bh_connected (map_transport d t b) = bh_connected b"
  "bh_transport_devices (map_transport d t b) = hm_insert t d (bh_transport_devices b)"
  "bh_device_transports (map_transport d t b) = hm_insert d t (bh_device_transports b)"
  "bh_observed_addrs (map_transport d t b) = bh_observed_addrs b"
  "bh_queue (map_transport d t b) = bh_queue b"
  by (simp_all add: map_transport_def)

lemma expire_handshake_fields [simp]:
  "bh_identity (expire_handshake k b) = bh_identity b"
  "bh_handshakes (expire_handshake k b) = hm_remove k (bh_handshakes b)"
  "bh_sessions (expire_handshake k b) = bh_sessions b"
  "bh_peer_names (expire_handshake k b) = bh_peer_names b"
  "bh_pending_sends (expire_handshake k b) = bh_pending_sends b"
  "bh_connected (expire_handshake k b) = bh_connected b"
  "bh_transport_devices (expire_handshake k b) = bh_transport_devices b"
  "bh_device_transports (expire_handshake k b) = bh_device_transports b"
  "bh_observed_addrs (expire_handshake k b) = bh_observed_addrs b"
  "bh_queue (expire_handshake k b) = bh_queue b @ [GenerateEvent (HandshakeFailed (peer_or_device (fst k) b) ''handshake timed out'')]"
  by (simp_all add: expire_handshake_def)

lemma observe_inbound_fields [simp]:
  "bh_identity (observe_inbound p c a b) = bh_identity b"
  "bh_handshakes (observe_inbound p c a b) = bh_handshakes b"
  "bh_sessions (observe_inbound p c a b) = bh_sessions b"
  "bh_peer_names (observe_inbound p c a b) = bh_peer_names b"
  "bh_pending_sends (observe_inbound p c a b) = bh_pending_sends b"
  "bh_connected (observe_inbound p c a b) = bh_connected b"
  "bh_transport_devices (observe_inbound p c a b) = bh_transport_devices b"
  "bh_device_transports (observe_inbound p c a b) = bh_device_transports b"
  "bh_queue (observe_inbound p c a b) = bh_queue b"
  by (simp_all add: observe_inbound_def Let_def split: option.splits)

end
