(* ===== verification/Records.thy ===== *)
theory Records
  imports Identity
begin

text \<open>
  \<open>src/records.rs\<close>: signed address records for the DHT.  \<open>signed_bytes\<close> is the exact signing
  input, \<open>verify_addr_record\<close> the whole verification with its checks in the order of the
  code; \<open>None\<close> is a panic (integer overflow in the freshness test when the build has overflow
  checks, or the \<open>expect\<close> in \<open>peer_id_of\<close>).  \<open>serde_json\<close> is a parameter.
\<close>

section \<open>Data\<close>

definition RECORD_SIGN_PREFIX :: bytes where
  "RECORD_SIGN_PREFIX = as_bytes ''jeangrey/mvp1/addr-record/v1''"
definition MAX_RECORD_BYTES :: nat where "MAX_RECORD_BYTES = 16 * 1024"
definition MAX_ADDRS :: nat where "MAX_ADDRS = 8"
definition DEFAULT_TTL_SECS :: u64 where "DEFAULT_TTL_SECS = 120"
definition MAX_SKEW_SECS :: u64 where "MAX_SKEW_SECS = 30"
definition RECORD_KIND :: string where "RECORD_KIND = ''jeangrey.device-addr.v1''"

record addr_record =
  ar_v :: u32
  ar_kind :: string
  ar_device_uuid :: string
  ar_peer_id :: string
  ar_pubkey_b64 :: string
  ar_user_id_hex :: string
  ar_user_name :: string
  ar_transport_peer_b58 :: string
  ar_addrs :: "string list"
  ar_issued_at :: u64
  ar_ttl_secs :: u64
  ar_sig_b64 :: string

record verified_record =
  vr_peer_id :: peer_id
  vr_user_id :: bytes
  vr_user_name :: string
  vr_device_uuid :: bytes
  vr_transport_peer :: peer_id
  vr_addrs :: "multiaddr list"
  vr_issued_at :: u64

datatype record_error =
  RecTooLarge nat
| RecMalformed
| RecUnsupportedVersion u32
| RecExpired
| RecFromTheFuture
| RecKeyMismatch
| RecBadSignature
| RecBadKey
| RecNoAddresses
| RecTooManyAddresses
| RecBadAddress

fun record_error_display :: "record_error \<Rightarrow> string" where
  "record_error_display (RecTooLarge n) = ''record too large ('' @ show_nat n @ '' bytes)''"
| "record_error_display RecMalformed = ''malformed record''"
| "record_error_display (RecUnsupportedVersion v) = ''unsupported record version '' @ show_nat (unat v)"
| "record_error_display RecExpired = ''record expired''"
| "record_error_display RecFromTheFuture = ''record timestamp in the future''"
| "record_error_display RecKeyMismatch = ''record key does not match the public key''"
| "record_error_display RecBadSignature = ''record signature verification failed''"
| "record_error_display RecBadKey = ''record key is not a valid Peer ID''"
| "record_error_display RecNoAddresses = ''record has no addresses''"
| "record_error_display RecTooManyAddresses = ''record has too many addresses''"
| "record_error_display RecBadAddress = ''record contains an invalid address''"

text \<open>\<open>serde_json::to_vec\<close> and \<open>from_slice\<close> at the type of records.\<close>

record record_json =
  rj_to_vec :: "addr_record \<Rightarrow> bytes option"
  rj_from_slice :: "bytes \<Rightarrow> addr_record option"

definition record_json_ok :: "record_json \<Rightarrow> bool" where
  "record_json_ok J \<longleftrightarrow> (\<forall>r. \<exists>b. rj_to_vec J r = Some b \<and> rj_from_slice J b = Some r)"

section \<open>Signing\<close>

definition usize_be :: "crates \<Rightarrow> nat \<Rightarrow> bytes" where
  "usize_be E n = be_bytes (usize_bytes E) n"

definition put_str :: "crates \<Rightarrow> string \<Rightarrow> bytes" where
  "put_str E s = usize_be E (length s) @ as_bytes s"

definition put_addr :: "string \<Rightarrow> bytes" where
  "put_addr a = be32 (of_nat (length a)) @ as_bytes a"

definition signed_bytes :: "crates \<Rightarrow> addr_record \<Rightarrow> bytes" where
  "signed_bytes E r =
     RECORD_SIGN_PREFIX @ be32 (ar_v r) @ put_str E (ar_kind r) @ put_str E (ar_device_uuid r) @
     put_str E (ar_peer_id r) @ put_str E (ar_pubkey_b64 r) @ put_str E (ar_user_id_hex r) @
     put_str E (ar_user_name r) @ put_str E (ar_transport_peer_b58 r) @
     be64 (ar_issued_at r) @ be64 (ar_ttl_secs r) @ concat (map put_addr (ar_addrs r))"

definition record_to_bytes :: "record_json \<Rightarrow> addr_record \<Rightarrow> bytes option" where
  "record_to_bytes J r = rj_to_vec J r"

definition record_from_bytes :: "record_json \<Rightarrow> bytes \<Rightarrow> record_error + addr_record" where
  "record_from_bytes J bs =
     (if length bs > MAX_RECORD_BYTES then Inl (RecTooLarge (length bs))
      else case rj_from_slice J bs of None \<Rightarrow> Inl RecMalformed | Some r \<Rightarrow> Inr r)"

text \<open>Seconds since the epoch, \<open>0\<close> before it; \<open>as_secs\<close> is a \<open>u64\<close>.\<close>

definition now_unix :: "int \<Rightarrow> u64" where
  "now_unix clock_secs = (if clock_secs < 0 then 0 else of_nat (nat clock_secs))"

definition sign_addr_record ::
  "crates \<Rightarrow> device_identity \<Rightarrow> multiaddr list \<Rightarrow> int \<Rightarrow> entropy \<Rightarrow> addr_record option" where
  "sign_addr_record E identity addrs clock rng =
     (let rec0 = \<lparr>ar_v = 1, ar_kind = RECORD_KIND,
            ar_device_uuid = hex_encode E (di_device_uuid identity),
            ar_peer_id = pid_to_base58 E (di_peer_id identity),
            ar_pubkey_b64 = b64_encode E (public_key_bytes E identity),
            ar_user_id_hex = hex_encode E (ui_user_id (di_user identity)),
            ar_user_name = ui_user_name (di_user identity),
            ar_transport_peer_b58 = pid_to_base58 E (transport_peer_id E identity),
            ar_addrs = map (ma_to_string E) addrs, ar_issued_at = now_unix clock,
            ar_ttl_secs = DEFAULT_TTL_SECS, ar_sig_b64 = []\<rparr>;
          rec1 = rec0\<lparr>ar_addrs := take MAX_ADDRS (ar_addrs rec0)\<rparr> in
      case di_sign E identity (signed_bytes E rec1) rng of
        None \<Rightarrow> None
      | Some sig \<Rightarrow> Some (rec1\<lparr>ar_sig_b64 := b64_encode E sig\<rparr>))"

section \<open>Verification\<close>

fun is_tcp :: "protocol \<Rightarrow> bool" where
  "is_tcp (Tcp _) = True"
| "is_tcp _ = False"

fun is_p2p :: "protocol \<Rightarrow> bool" where
  "is_p2p (P2p _) = True"
| "is_p2p _ = False"

text \<open>The loop over the addresses, with the set of printed forms seen so far.\<close>

fun check_addrs ::
  "crates \<Rightarrow> string list \<Rightarrow> multiaddr list \<Rightarrow> string list \<Rightarrow> record_error + multiaddr list" where
  "check_addrs E seen addrs [] = Inr addrs"
| "check_addrs E seen addrs (a # rest) =
     (case ma_from_str E a of
        None \<Rightarrow> Inl RecBadAddress
      | Some maddr \<Rightarrow>
          if \<not> list_ex is_tcp (ma_iter maddr) then Inl RecBadAddress
          else if list_ex is_p2p (ma_iter maddr) then Inl RecBadAddress
          else if ma_to_string E maddr \<in> set seen then Inl RecBadAddress
          else check_addrs E (hs_insert (ma_to_string E maddr) seen) (addrs @ [maddr]) rest)"

definition hex16 :: "crates \<Rightarrow> string \<Rightarrow> bytes option" where
  "hex16 E s = (case hex_decode E s of None \<Rightarrow> None | Some v \<Rightarrow> to_array 16 v)"

text \<open>Steps 5 and 6: the signed fields, once the signature has been checked.\<close>

definition verify_fields ::
  "crates \<Rightarrow> peer_id \<Rightarrow> addr_record \<Rightarrow> record_error + verified_record" where
  "verify_fields E computed r =
     (case hex16 E (ar_user_id_hex r) of
        None \<Rightarrow> Inl RecMalformed
      | Some user_id \<Rightarrow>
     if ar_user_name r = [] \<or> length (ar_user_name r) > 64 then Inl RecMalformed
     else case pid_from_str E (ar_transport_peer_b58 r) of
        None \<Rightarrow> Inl RecMalformed
      | Some transport_peer \<Rightarrow>
     if ar_addrs r = [] then Inl RecNoAddresses
     else if length (ar_addrs r) > MAX_ADDRS then Inl RecTooManyAddresses
     else case check_addrs E [] [] (ar_addrs r) of
        Inl e \<Rightarrow> Inl e
      | Inr addrs \<Rightarrow>
     (case hex16 E (ar_device_uuid r) of
        None \<Rightarrow> Inl RecMalformed
      | Some device_uuid \<Rightarrow>
          Inr \<lparr>vr_peer_id = computed, vr_user_id = user_id, vr_user_name = ar_user_name r,
               vr_device_uuid = device_uuid, vr_transport_peer = transport_peer, vr_addrs = addrs,
               vr_issued_at = ar_issued_at r\<rparr>))"

text \<open>Steps 3 and 4: the key has to hash to the record key, the signature has to verify.\<close>

definition verify_key_sig ::
  "crates \<Rightarrow> bytes \<Rightarrow> addr_record \<Rightarrow> (record_error + verified_record) option" where
  "verify_key_sig E key r =
     (case b64_decode E (ar_pubkey_b64 r) of
        None \<Rightarrow> Some (Inl RecMalformed)
      | Some pk_bytes \<Rightarrow>
     (case pubkey_from_bytes E pk_bytes of
        None \<Rightarrow> Some (Inl RecMalformed)
      | Some pubkey \<Rightarrow>
     (case peer_id_of E pubkey of
        None \<Rightarrow> None
      | Some computed \<Rightarrow>
     (case pid_from_bytes E key of
        None \<Rightarrow> Some (Inl RecBadKey)
      | Some key_peer_id \<Rightarrow>
     if computed \<noteq> key_peer_id then Some (Inl RecKeyMismatch)
     else if ar_peer_id r \<noteq> pid_to_base58 E computed then Some (Inl RecKeyMismatch)
     else case b64_decode E (ar_sig_b64 r) of
        None \<Rightarrow> Some (Inl RecMalformed)
      | Some sig \<Rightarrow>
          if \<not> mldsa_verify E pubkey (signed_bytes E r) sig then Some (Inl RecBadSignature)
          else Some (verify_fields E computed r)))))"

text \<open>The whole function: version, kind and freshness first.\<close>

definition verify_addr_record ::
  "crates \<Rightarrow> bytes \<Rightarrow> addr_record \<Rightarrow> u64 \<Rightarrow> (record_error + verified_record) option" where
  "verify_addr_record E key r now =
     (if ar_v r \<noteq> 1 then Some (Inl (RecUnsupportedVersion (ar_v r)))
      else if ar_kind r \<noteq> RECORD_KIND then Some (Inl RecMalformed)
      else case plain_add (overflow_checks E) now MAX_SKEW_SECS of
        None \<Rightarrow> None
      | Some latest \<Rightarrow>
     if latest < ar_issued_at r then Some (Inl RecFromTheFuture)
     else case plain_add (overflow_checks E) (ar_issued_at r) (ar_ttl_secs r) of
        None \<Rightarrow> None
      | Some ends \<Rightarrow>
     (case plain_add (overflow_checks E) ends MAX_SKEW_SECS of
        None \<Rightarrow> None
      | Some dead \<Rightarrow>
          if dead < now then Some (Inl RecExpired) else verify_key_sig E key r))"

section \<open>The signing input determines the record\<close>

text \<open>The lengths the Rust types guarantee (\<open>usize\<close>) and the 32-bit length of an address.\<close>

definition record_sized :: "crates \<Rightarrow> addr_record \<Rightarrow> bool" where
  "record_sized E r \<longleftrightarrow>
     (\<forall>s \<in> {ar_kind r, ar_device_uuid r, ar_peer_id r, ar_pubkey_b64 r, ar_user_id_hex r,
            ar_user_name r, ar_transport_peer_b58 r}. length s < 256 ^ usize_bytes E) \<and>
     (\<forall>a \<in> set (ar_addrs r). length a < 2 ^ 32)"

lemma usize_be_eq:
  assumes "n < 256 ^ usize_bytes E" "m < 256 ^ usize_bytes E" "usize_be E n @ x = usize_be E m @ y"
  shows "n = m \<and> x = y"
proof -
  have eq: "be_bytes (usize_bytes E) n = be_bytes (usize_bytes E) m" "x = y"
    using assms(3) by (simp_all add: usize_be_def)
  have "be_val (be_bytes (usize_bytes E) n) = n" "be_val (be_bytes (usize_bytes E) m) = m"
    using assms(1,2) by (simp_all only: be_val_be_bytes mod_less)
  then show ?thesis using eq by metis
qed

lemma put_str_eq:
  assumes "length s < 256 ^ usize_bytes E" "length t < 256 ^ usize_bytes E"
  shows "put_str E s @ x = put_str E t @ y \<longleftrightarrow> s = t \<and> x = y"
proof
  assume "put_str E s @ x = put_str E t @ y"
  then have "usize_be E (length s) @ (as_bytes s @ x) = usize_be E (length t) @ (as_bytes t @ y)"
    by (simp add: put_str_def)
  then have "length s = length t" "as_bytes s @ x = as_bytes t @ y"
    using usize_be_eq [OF assms] by auto
  then show "s = t \<and> x = y" by simp
qed simp

lemma put_addr_eq:
  assumes "length s < 2 ^ 32" "length t < 2 ^ 32"
  shows "put_addr s @ x = put_addr t @ y \<longleftrightarrow> s = t \<and> x = y"
proof
  assume "put_addr s @ x = put_addr t @ y"
  then have "(of_nat (length s) :: u32) = of_nat (length t)" "as_bytes s @ x = as_bytes t @ y"
    by (simp_all add: put_addr_def be32_codec.enc_append_eq)
  moreover from this(1) have "length s = length t"
  proof -
    have "unat (of_nat (length s) :: u32) = length s" "unat (of_nat (length t) :: u32) = length t"
      using assms by (simp_all add: unat_of_nat)
    then show ?thesis using \<open>(of_nat (length s) :: u32) = of_nat (length t)\<close> by metis
  qed
  ultimately show "s = t \<and> x = y" by simp
qed simp

lemma put_addr_nonempty: "put_addr a \<noteq> []"
proof -
  have "length (put_addr a) = 4 + length a" by (simp add: put_addr_def)
  then show ?thesis by (metis add_is_0 list.size(3) zero_neq_numeral)
qed

lemma put_addrs_eq:
  assumes "\<forall>a \<in> set as. length a < 2 ^ 32" "\<forall>a \<in> set bs. length a < 2 ^ 32"
    and "concat (map put_addr as) = concat (map put_addr bs)"
  shows "as = bs"
  using assms
proof (induction as arbitrary: bs)
  case Nil
  then show ?case by (cases bs) (simp_all add: put_addr_nonempty)
next
  case (Cons a as)
  from Cons.prems(3) obtain b bs' where bs: "bs = b # bs'"
    by (cases bs) (simp_all add: put_addr_nonempty)
  with Cons.prems have "a = b" "concat (map put_addr as) = concat (map put_addr bs')"
    using put_addr_eq [of a b] by simp_all
  then show ?case using Cons.IH [of bs'] Cons.prems(1,2) bs by simp
qed

text \<open>C32. The signing input is injective: two records with the same \<open>signed_bytes\<close> agree in every
  field except the signature itself.  A signature therefore covers the version, kind,
  identifiers, keys, names, addresses (their number and order included) and lifetime; no
  field can be shifted into its neighbour.\<close>

theorem signed_bytes_injective:
  assumes "record_sized E r" "record_sized E r'" and "signed_bytes E r = signed_bytes E r'"
  shows "r\<lparr>ar_sig_b64 := []\<rparr> = r'\<lparr>ar_sig_b64 := []\<rparr>"
proof -
  have "ar_v r = ar_v r' \<and> ar_kind r = ar_kind r' \<and> ar_device_uuid r = ar_device_uuid r' \<and>
      ar_peer_id r = ar_peer_id r' \<and> ar_pubkey_b64 r = ar_pubkey_b64 r' \<and>
      ar_user_id_hex r = ar_user_id_hex r' \<and> ar_user_name r = ar_user_name r' \<and>
      ar_transport_peer_b58 r = ar_transport_peer_b58 r' \<and> ar_issued_at r = ar_issued_at r' \<and>
      ar_ttl_secs r = ar_ttl_secs r' \<and>
      concat (map put_addr (ar_addrs r)) = concat (map put_addr (ar_addrs r'))"
    using assms by (simp add: signed_bytes_def record_sized_def put_str_eq
        be32_codec.enc_append_eq be64_codec.enc_append_eq)
  moreover from this have "ar_addrs r = ar_addrs r'"
    using assms(1,2) by (intro put_addrs_eq) (simp_all add: record_sized_def)
  ultimately show ?thesis by (cases r; cases r') simp
qed

section \<open>What a verified record guarantees\<close>

lemma check_addrs_sound:
  assumes "check_addrs E seen addrs ss = Inr out"
  shows "\<exists>new. out = addrs @ new \<and> map (ma_from_str E) ss = map Some new \<and>
    (\<forall>m \<in> set new. list_ex is_tcp (ma_iter m) \<and> \<not> list_ex is_p2p (ma_iter m)) \<and>
    distinct (map (ma_to_string E) new) \<and> set (map (ma_to_string E) new) \<inter> set seen = {}"
  using assms
proof (induction ss arbitrary: seen addrs)
  case Nil
  then show ?case by simp
next
  case (Cons s ss)
  then obtain m where m: "ma_from_str E s = Some m" "list_ex is_tcp (ma_iter m)"
    "\<not> list_ex is_p2p (ma_iter m)" "ma_to_string E m \<notin> set seen"
    "check_addrs E (hs_insert (ma_to_string E m) seen) (addrs @ [m]) ss = Inr out"
    by (auto split: option.splits if_splits)
  from Cons.IH [OF m(5)] obtain new where
    "out = (addrs @ [m]) @ new" "map (ma_from_str E) ss = map Some new"
    "\<forall>m \<in> set new. list_ex is_tcp (ma_iter m) \<and> \<not> list_ex is_p2p (ma_iter m)"
    "distinct (map (ma_to_string E) new)"
    "set (map (ma_to_string E) new) \<inter> set (hs_insert (ma_to_string E m) seen) = {}" by blast
  then show ?case using m by (intro exI [of _ "m # new"]) (auto simp: hs_insert_def split: if_splits)
qed

lemma verify_fields_sound:
  assumes "verify_fields E pid r = Inr v"
  shows "vr_peer_id v = pid \<and> vr_issued_at v = ar_issued_at r \<and> vr_user_name v = ar_user_name r \<and>
    hex16 E (ar_user_id_hex r) = Some (vr_user_id v) \<and>
    hex16 E (ar_device_uuid r) = Some (vr_device_uuid v) \<and>
    pid_from_str E (ar_transport_peer_b58 r) = Some (vr_transport_peer v) \<and>
    1 \<le> length (ar_addrs r) \<and> length (ar_addrs r) \<le> MAX_ADDRS \<and>
    1 \<le> length (vr_user_name v) \<and> length (vr_user_name v) \<le> 64 \<and>
    check_addrs E [] [] (ar_addrs r) = Inr (vr_addrs v)"
  using assms
  by (auto simp: verify_fields_def Suc_le_eq split: option.splits if_splits sum.splits)

lemma verify_key_sig_sound:
  assumes "verify_key_sig E key r = Some (Inr v)"
  obtains pk pubkey sig pid where "b64_decode E (ar_pubkey_b64 r) = Some pk"
    "pubkey_from_bytes E pk = Some pubkey" "peer_id_of E pubkey = Some pid"
    "pid_from_bytes E key = Some pid" "ar_peer_id r = pid_to_base58 E pid"
    "b64_decode E (ar_sig_b64 r) = Some sig" "mldsa_verify E pubkey (signed_bytes E r) sig"
    "verify_fields E pid r = Inr v"
  using assms by (auto simp: verify_key_sig_def split: option.splits if_splits)

lemma plain_add_nowrap:
  fixes a b :: "'a::len word"
  assumes "plain_add oc a b = Some c" and "oc \<or> unat a + unat b < 2 ^ LENGTH('a)"
  shows "unat c = unat a + unat b"
  using assms checked_add_unat [of a b c]
  by (auto simp: plain_add_def unat_word_ariths split: if_splits)

text \<open>C16. Soundness of record verification.  An accepted record carries a public key that hashes
  to the DHT key it was stored under, a signature that verifies under that key over the signing
  input of exactly this record, between one and eight addresses that are TCP, carry no peer
  suffix and print differently, and a user name of 1 to 64 bytes; it is inside its validity
  period up to the 30 second skew, unless a timestamp sum wrapped in a build without overflow
  checks.\<close>

theorem verify_addr_record_sound:
  assumes ok: "verify_addr_record E key r now = Some (Inr v)"
    and nowrap: "overflow_checks E \<or>
      unat (ar_issued_at r) + unat (ar_ttl_secs r) + 30 < 2 ^ 64 \<and> unat now + 30 < 2 ^ 64"
  shows "(\<exists>pk pubkey sig. b64_decode E (ar_pubkey_b64 r) = Some pk \<and>
      pubkey_from_bytes E pk = Some pubkey \<and> peer_id_of E pubkey = Some (vr_peer_id v) \<and>
      pid_from_bytes E key = Some (vr_peer_id v) \<and>
      b64_decode E (ar_sig_b64 r) = Some sig \<and> mldsa_verify E pubkey (signed_bytes E r) sig) \<and>
    1 \<le> length (vr_addrs v) \<and> length (vr_addrs v) \<le> MAX_ADDRS \<and>
    distinct (map (ma_to_string E) (vr_addrs v)) \<and>
    (\<forall>m \<in> set (vr_addrs v). list_ex is_tcp (ma_iter m) \<and> \<not> list_ex is_p2p (ma_iter m)) \<and>
    1 \<le> length (vr_user_name v) \<and> length (vr_user_name v) \<le> 64 \<and>
    unat (ar_issued_at r) \<le> unat now + 30 \<and>
    unat now \<le> unat (ar_issued_at r) + unat (ar_ttl_secs r) + 30"
proof -
  from ok obtain latest ends dead where
    l: "plain_add (overflow_checks E) now MAX_SKEW_SECS = Some latest" "\<not> latest < ar_issued_at r" and
    e: "plain_add (overflow_checks E) (ar_issued_at r) (ar_ttl_secs r) = Some ends" and
    d: "plain_add (overflow_checks E) ends MAX_SKEW_SECS = Some dead" "\<not> dead < now" and
    ks: "verify_key_sig E key r = Some (Inr v)"
    by (auto simp: verify_addr_record_def split: option.splits if_splits)
  have skew: "unat MAX_SKEW_SECS = 30" by (simp add: MAX_SKEW_SECS_def)
  have "unat latest = unat now + 30"
    using plain_add_nowrap [OF l(1)] nowrap skew by auto
  moreover have ends: "unat ends = unat (ar_issued_at r) + unat (ar_ttl_secs r)"
    using plain_add_nowrap [OF e] nowrap by auto
  moreover have "unat dead = unat ends + 30"
    using plain_add_nowrap [OF d(1)] nowrap skew ends by auto
  ultimately have fresh: "unat (ar_issued_at r) \<le> unat now + 30"
    "unat now \<le> unat (ar_issued_at r) + unat (ar_ttl_secs r) + 30"
    using l(2) d(2) by (simp_all add: word_less_nat_alt)
  from ks obtain pk pubkey sig pid where k: "b64_decode E (ar_pubkey_b64 r) = Some pk"
    "pubkey_from_bytes E pk = Some pubkey" "peer_id_of E pubkey = Some pid"
    "pid_from_bytes E key = Some pid" "b64_decode E (ar_sig_b64 r) = Some sig"
    "mldsa_verify E pubkey (signed_bytes E r) sig" "verify_fields E pid r = Inr v"
    by (rule verify_key_sig_sound)
  note f = verify_fields_sound [OF k(7)]
  from f check_addrs_sound [of E "[]" "[]" "ar_addrs r" "vr_addrs v"] have a:
    "map (ma_from_str E) (ar_addrs r) = map Some (vr_addrs v)"
    "\<forall>m \<in> set (vr_addrs v). list_ex is_tcp (ma_iter m) \<and> \<not> list_ex is_p2p (ma_iter m)"
    "distinct (map (ma_to_string E) (vr_addrs v))" by auto
  from a(1) have "length (vr_addrs v) = length (ar_addrs r)" by (metis length_map)
  then show ?thesis using k f a(2,3) fresh by auto
qed

section \<open>Signing and verifying\<close>

text \<open>An address list a device may publish.\<close>

definition publishable :: "crates \<Rightarrow> multiaddr list \<Rightarrow> bool" where
  "publishable E as \<longleftrightarrow> as \<noteq> [] \<and> distinct (map (ma_to_string E) as) \<and>
     (\<forall>m \<in> set as. list_ex is_tcp (ma_iter m) \<and> \<not> list_ex is_p2p (ma_iter m))"

lemma check_addrs_complete:
  assumes "text_codecs_ok E" and "distinct (map (ma_to_string E) as)"
    and "set (map (ma_to_string E) as) \<inter> set seen = {}"
    and "\<forall>m \<in> set as. list_ex is_tcp (ma_iter m) \<and> \<not> list_ex is_p2p (ma_iter m)"
  shows "check_addrs E seen addrs (map (ma_to_string E) as) = Inr (addrs @ as)"
  using assms(2-4)
proof (induction as arbitrary: seen addrs)
  case Nil
  then show ?case by simp
next
  case (Cons a as)
  then have "set (map (ma_to_string E) as) \<inter> set (hs_insert (ma_to_string E a) seen) = {}"
    by (auto simp: hs_insert_def)
  then show ?case
    using Cons text_codecs_simps(3) [OF assms(1), of a] by simp
qed

lemma verify_fresh:
  assumes "ar_v r = 1" "ar_kind r = RECORD_KIND"
    and "unat (ar_issued_at r) + unat (ar_ttl_secs r) + 30 < 2 ^ 64" "unat now + 30 < 2 ^ 64"
    and "unat (ar_issued_at r) \<le> unat now + 30"
    and "unat now \<le> unat (ar_issued_at r) + unat (ar_ttl_secs r) + 30"
  shows "verify_addr_record E key r now = verify_key_sig E key r"
proof -
  let ?i = "ar_issued_at r" and ?t = "ar_ttl_secs r"
  have skew: "unat MAX_SKEW_SECS = 30" by (simp add: MAX_SKEW_SECS_def)
  have l: "plain_add oc now MAX_SKEW_SECS = Some (now + MAX_SKEW_SECS)" for oc
    by (rule plain_add_fits) (use assms(4) skew in simp)
  have e: "plain_add oc ?i ?t = Some (?i + ?t)" for oc
    by (rule plain_add_fits) (use assms(3) in simp)
  have ue: "unat (?i + ?t) = unat ?i + unat ?t" using plain_add_nowrap [OF e [of False]] assms(3) by simp
  have d: "plain_add oc (?i + ?t) MAX_SKEW_SECS = Some (?i + ?t + MAX_SKEW_SECS)" for oc
    by (rule plain_add_fits) (use assms(3) ue skew in simp)
  have "unat (now + MAX_SKEW_SECS) = unat now + 30"
    "unat (?i + ?t + MAX_SKEW_SECS) = unat ?i + unat ?t + 30"
    using plain_add_nowrap [OF l [of False]] plain_add_nowrap [OF d [of False]] assms(3,4) ue skew
    by simp_all
  then have "\<not> now + MAX_SKEW_SECS < ?i" "\<not> ?i + ?t + MAX_SKEW_SECS < now"
    using assms(5,6) by (simp_all add: word_less_nat_alt)
  then show ?thesis using assms(1,2) by (simp add: verify_addr_record_def l e d)
qed

lemma sign_verify_ok:
  assumes laws: "dsa_correct E" "peer_ids_ok E" "text_codecs_ok E" and d: "wf_identity E d"
    and name: "ui_user_name (di_user d) \<noteq> []" "length (ui_user_name (di_user d)) \<le> 64"
    and as: "publishable E (take MAX_ADDRS as)"
    and time: "unat (now_unix clock) + 150 < 2 ^ 64" "unat now + 30 < 2 ^ 64"
      "unat (now_unix clock) \<le> unat now + 30" "unat now \<le> unat (now_unix clock) + 150"
  shows "\<exists>r. sign_addr_record E d as clock rng = Some r \<and>
    verify_addr_record E (pid_to_bytes E (di_peer_id d)) r now = Some (Inr
      \<lparr>vr_peer_id = di_peer_id d, vr_user_id = ui_user_id (di_user d),
       vr_user_name = ui_user_name (di_user d), vr_device_uuid = di_device_uuid d,
       vr_transport_peer = transport_peer_id E d, vr_addrs = take MAX_ADDRS as,
       vr_issued_at = now_unix clock\<rparr>)"
proof -
  define r0 where "r0 = \<lparr>ar_v = 1, ar_kind = RECORD_KIND,
    ar_device_uuid = hex_encode E (di_device_uuid d), ar_peer_id = pid_to_base58 E (di_peer_id d),
    ar_pubkey_b64 = b64_encode E (public_key_bytes E d),
    ar_user_id_hex = hex_encode E (ui_user_id (di_user d)),
    ar_user_name = ui_user_name (di_user d),
    ar_transport_peer_b58 = pid_to_base58 E (transport_peer_id E d),
    ar_addrs = map (ma_to_string E) (take MAX_ADDRS as), ar_issued_at = now_unix clock,
    ar_ttl_secs = DEFAULT_TTL_SECS, ar_sig_b64 = []\<rparr>"
  obtain sig where sig: "di_sign E d (signed_bytes E r0) rng = Some sig"
    "mldsa_verify E (di_verifying_key d) (signed_bytes E r0) sig"
    using wf_identity_sign [OF laws(1) d] by metis
  define r where "r = r0\<lparr>ar_sig_b64 := b64_encode E sig\<rparr>"
  have sign: "sign_addr_record E d as clock rng = Some r"
    using sig(1) by (simp add: sign_addr_record_def r_def r0_def take_map)
  have sb: "signed_bytes E r = signed_bytes E r0" by (simp add: r_def signed_bytes_def)
  have pid: "peer_id_of E (di_verifying_key d) = Some (di_peer_id d)" by (rule wf_identity_peer_id [OF d])
  have lens: "length (di_device_uuid d) = 16" "length (ui_user_id (di_user d)) = 16"
    using d unfolding wf_identity_def by blast+
  have "check_addrs E [] [] (map (ma_to_string E) (take MAX_ADDRS as)) = Inr (take MAX_ADDRS as)"
    using check_addrs_complete [OF laws(3), of "take MAX_ADDRS as" "[]" "[]"] as
    by (simp add: publishable_def)
  then have fields: "verify_fields E (di_peer_id d) r = Inr
      \<lparr>vr_peer_id = di_peer_id d, vr_user_id = ui_user_id (di_user d),
       vr_user_name = ui_user_name (di_user d), vr_device_uuid = di_device_uuid d,
       vr_transport_peer = transport_peer_id E d, vr_addrs = take MAX_ADDRS as,
       vr_issued_at = now_unix clock\<rparr>"
    using name as lens text_codecs_simps(2) [OF laws(3)] peer_ids_simps(2) [OF laws(2)]
    by (simp add: verify_fields_def r_def r0_def hex16_def to_array_def publishable_def)
  have "verify_key_sig E (pid_to_bytes E (di_peer_id d)) r = Some (verify_fields E (di_peer_id d) r)"
    using wf_identity_pubkey [OF laws(1) d] pid sig(2) sb text_codecs_simps(1) [OF laws(3)]
      peer_ids_simps(1) [OF laws(2)]
    by (simp add: verify_key_sig_def r_def r0_def)
  moreover have "verify_addr_record E (pid_to_bytes E (di_peer_id d)) r now
      = verify_key_sig E (pid_to_bytes E (di_peer_id d)) r"
    by (rule verify_fresh) (use time in \<open>simp_all add: r_def r0_def DEFAULT_TTL_SECS_def\<close>)
  ultimately show ?thesis using sign fields by auto
qed


text \<open>C37. The freshness test is not safe against overflow: in a build with overflow checks, a
  record whose issue time, lifetime and skew add up to \<open>2 ^ 64\<close> or more makes verification
  panic before the key and the signature are looked at, so anyone may craft it.\<close>

theorem verify_overflow_panics:
  assumes "overflow_checks E" "ar_v r = 1" "ar_kind r = RECORD_KIND"
    and "unat now + 30 < 2 ^ 64" "unat (ar_issued_at r) \<le> unat now + 30"
    and "unat (ar_issued_at r) + unat (ar_ttl_secs r) + 30 \<ge> 2 ^ 64"
  shows "verify_addr_record E key r now = None"
proof -
  have skew: "unat MAX_SKEW_SECS = 30" by (simp add: MAX_SKEW_SECS_def)
  have l: "plain_add True now MAX_SKEW_SECS = Some (now + MAX_SKEW_SECS)"
    by (rule plain_add_fits) (use assms(4) skew in simp)
  have "unat (now + MAX_SKEW_SECS) = unat now + 30" using plain_add_nowrap [OF l] skew by simp
  then have nf: "\<not> now + MAX_SKEW_SECS < ar_issued_at r" using assms(5) by (simp add: word_less_nat_alt)
  show ?thesis
  proof (cases "plain_add True (ar_issued_at r) (ar_ttl_secs r)")
    case None
    then show ?thesis using assms l nf by (simp add: verify_addr_record_def)
  next
    case (Some ends)
    then have "unat ends = unat (ar_issued_at r) + unat (ar_ttl_secs r)" by (rule plain_add_nowrap) simp
    then have "plain_add True ends MAX_SKEW_SECS = None"
      using assms(6) skew by (simp add: plain_add_def checked_add_def)
    then show ?thesis using Some assms l nf by (simp add: verify_addr_record_def)
  qed
qed

section \<open>Witnesses\<close>

abbreviation sample_addrs :: "multiaddr list" where
  "sample_addrs \<equiv> [Multiaddr [Ip4 1, Tcp 80], Multiaddr [Ip4 2, Tcp 80]]"

lemma sample_publishable: "publishable ref_crates (take MAX_ADDRS sample_addrs)"
proof -
  have "ma_to_string ref_crates a \<noteq> ma_to_string ref_crates b" if "a \<noteq> b" for a b
    using text_codecs_simps(3) [OF ref_text_codecs_ok] that by (metis option.inject)
  then show ?thesis by (simp add: publishable_def MAX_ADDRS_def)
qed

definition sample_record :: "u64 \<Rightarrow> string \<Rightarrow> addr_record" where
  "sample_record ttl sig = \<lparr>ar_v = 1, ar_kind = RECORD_KIND, ar_device_uuid = ''u'', ar_peer_id = ''p'',
     ar_pubkey_b64 = ''k'', ar_user_id_hex = ''i'', ar_user_name = ''n'', ar_transport_peer_b58 = ''t'',
     ar_addrs = [''a'', ''b''], ar_issued_at = 1000, ar_ttl_secs = ttl, ar_sig_b64 = sig\<rparr>"

theorem signed_bytes_injective_witness:
  "(sample_record 120 ''s'')\<lparr>ar_sig_b64 := []\<rparr> = (sample_record 120 ''z'')\<lparr>ar_sig_b64 := []\<rparr>"
proof -
  have "usize_bytes ref_crates = 8" by (simp add: ref_crates_def)
  then have "record_sized ref_crates (sample_record 120 s)" for s
    by (simp add: record_sized_def sample_record_def RECORD_KIND_def)
  moreover have "signed_bytes ref_crates (sample_record 120 ''s'')
      = signed_bytes ref_crates (sample_record 120 ''z'')"
    by (simp add: signed_bytes_def sample_record_def)
  ultimately show ?thesis using signed_bytes_injective by blast
qed

lemma now_unix_1000: "now_unix 1000 = 1000"
  by (simp add: now_unix_def)


theorem verify_overflow_panics_witness:
  "verify_addr_record (ref_crates\<lparr>overflow_checks := True\<rparr>) [] (sample_record 18446744073709551615 []) 1000 = None"
  using verify_overflow_panics [of "ref_crates\<lparr>overflow_checks := True\<rparr>"
      "sample_record 18446744073709551615 []" 1000 "[]"]
  by (simp add: sample_record_def)

theorem verify_addr_record_sound_witness:
  "\<exists>r v. verify_addr_record ref_crates (pid_to_bytes ref_crates (di_peer_id (sample_device 1))) r 1100
       = Some (Inr v) \<and> 1 \<le> length (vr_addrs v) \<and> unat (1100 :: u64) \<le> unat (ar_issued_at r) + unat (ar_ttl_secs r) + 30"
proof -
  obtain r v where r: "sign_addr_record ref_crates (sample_device 1) sample_addrs 1000 [] = Some r"
    "verify_addr_record ref_crates (pid_to_bytes ref_crates (di_peer_id (sample_device 1))) r 1100
       = Some (Inr v)"
    using sign_verify_ok [OF ref_dsa_correct ref_peer_ids_ok ref_text_codecs_ok
        sample_device_props(1) _ _ sample_publishable, of 1 1000 1100 "[]"]
    by (force simp: sample_device_props now_unix_1000)
  have "ar_issued_at r = 1000" "ar_ttl_secs r = 120"
    using r(1) by (auto simp: sign_addr_record_def now_unix_1000 DEFAULT_TTL_SECS_def Let_def
        split: option.splits)
  then have "overflow_checks ref_crates \<or>
      unat (ar_issued_at r) + unat (ar_ttl_secs r) + 30 < 2 ^ 64 \<and> unat (1100 :: u64) + 30 < 2 ^ 64"
    by simp
  from verify_addr_record_sound [OF r(2) this] r(2) show ?thesis by blast
qed

end
