(* ===== verification/Storage.thy ===== *)
theory Storage
  imports Session
begin

text \<open>
  \<open>src/storage.rs\<close>: persistence of the identity, the configuration and the metadata log.  The
  data directory is a record of its existence and its files.  A fault plan gives, for each
  call into \<open>std::fs\<close> of an operation (numbered in the order of the code), the error it
  fails with, if any, and how many bytes a failing write had already written; so an
  operation is modelled at every point where it may stop.  \<open>serde_json\<close> is a parameter.
\<close>

section \<open>Data\<close>

definition IDENTITY_FILE :: string where "IDENTITY_FILE = ''identity.json''"
definition CONFIG_FILE :: string where "CONFIG_FILE = ''config.json''"
definition HISTORY_FILE :: string where "HISTORY_FILE = ''history.jsonl''"

record identity_file =
  if_v :: u32
  if_user_id_hex :: string
  if_user_name :: string
  if_device_uuid_hex :: string
  if_mldsa_seed_b64 :: string
  if_transport_keypair_b64 :: string
  if_peer_id_b58 :: string

record node_config =
  nc_listen_port :: u16

definition default_config :: node_config where
  "default_config = \<lparr>nc_listen_port = 9000\<rparr>"

datatype history_kind = Sent string u64 string | Received string u64

datatype storage_error = Io string | Corrupt

fun storage_error_display :: "storage_error \<Rightarrow> string" where
  "storage_error_display (Io e) = ''io error: '' @ e"
| "storage_error_display Corrupt = ''corrupt or tampered storage file''"

record storage_json =
  sj_identity_to_string :: "identity_file \<Rightarrow> string option"
  sj_identity_from_str :: "string \<Rightarrow> identity_file option"
  sj_config_to_string :: "node_config \<Rightarrow> string option"
  sj_config_from_str :: "string \<Rightarrow> node_config option"

text \<open>Serialisation succeeds, yields a valid string, and is inverted by the parser; the strings
  the parser makes are valid.\<close>

definition storage_json_ok :: "storage_json \<Rightarrow> bool" where
  "storage_json_ok J \<longleftrightarrow>
     (\<forall>s f. sj_identity_from_str J s = Some f \<longrightarrow> valid_str (if_user_name f)) \<and>
     (\<forall>f. valid_str (if_user_name f) \<longrightarrow> (\<exists>s. sj_identity_to_string J f = Some s \<and> valid_str s \<and> sj_identity_from_str J s = Some f)) \<and>
     (\<forall>c. \<exists>s. sj_config_to_string J c = Some s \<and> valid_str s \<and> sj_config_from_str J s = Some c)"

section \<open>The file system\<close>

record disk =
  dk_dir :: bool
  dk_files :: "(string, bytes) hmap"

record fault_plan =
  fp_fail :: "nat \<Rightarrow> string option"
  fp_short :: nat

definition no_faults :: fault_plan where
  "no_faults = \<lparr>fp_fail = (\<lambda>_. None), fp_short = 0\<rparr>"

text \<open>\<open>Path::with_extension\<close> on a file name with an extension.\<close>

definition with_extension :: "string \<Rightarrow> string \<Rightarrow> string" where
  "with_extension name ext =
     rev (tl (dropWhile (\<lambda>c. c \<noteq> CHR ''.'') (rev name))) @ ''.'' @ ext"

definition ensure :: "fault_plan \<Rightarrow> nat \<Rightarrow> disk \<Rightarrow> disk \<times> (storage_error + unit)" where
  "ensure fp i dk =
     (case fp_fail fp i of
        Some e \<Rightarrow> (dk, Inl (Io e))
      | None \<Rightarrow> (dk\<lparr>dk_dir := True\<rparr>, Inr ()))"

definition put_file :: "string \<Rightarrow> bytes \<Rightarrow> disk \<Rightarrow> disk" where
  "put_file name bs dk = dk\<lparr>dk_files := hm_insert name bs (dk_files dk)\<rparr>"

text \<open>Create the temporary file, write it, sync it, rename it over the target; the calls are
  numbered from \<open>i\<close>.\<close>

definition write_atomic ::
  "fault_plan \<Rightarrow> nat \<Rightarrow> string \<Rightarrow> bytes \<Rightarrow> disk \<Rightarrow> disk \<times> (storage_error + unit)" where
  "write_atomic fp i path bs dk =
     (let tmp = with_extension path ''tmp'' in
      case fp_fail fp i of
        Some e \<Rightarrow> (dk, Inl (Io e))
      | None \<Rightarrow>
     (let dk1 = put_file tmp [] dk in
      case fp_fail fp (i + 1) of
        Some e \<Rightarrow> (put_file tmp (take (fp_short fp) bs) dk1, Inl (Io e))
      | None \<Rightarrow>
     (let dk2 = put_file tmp bs dk1 in
      case fp_fail fp (i + 2) of
        Some e \<Rightarrow> (dk2, Inl (Io e))
      | None \<Rightarrow>
     (case fp_fail fp (i + 3) of
        Some e \<Rightarrow> (dk2, Inl (Io e))
      | None \<Rightarrow>
          (put_file path bs (dk2\<lparr>dk_files := hm_remove tmp (dk_files dk2)\<rparr>), Inr ())))))"

text \<open>\<open>fs::read_to_string\<close>: an error also when the contents are not UTF-8.\<close>

definition read_to_string :: "fault_plan \<Rightarrow> nat \<Rightarrow> string \<Rightarrow> disk \<Rightarrow> storage_error + string" where
  "read_to_string fp i path dk =
     (case fp_fail fp i of
        Some e \<Rightarrow> Inl (Io e)
      | None \<Rightarrow>
          (case hm_get (dk_files dk) path of
             None \<Rightarrow> Inl (Io ''No such file or directory (os error 2)'')
           | Some bs \<Rightarrow>
               (case from_utf8 bs of
                  None \<Rightarrow> Inl (Io ''stream did not contain valid UTF-8'')
                | Some s \<Rightarrow> Inr s)))"

section \<open>Operations\<close>

definition encode_keypair :: "crates \<Rightarrow> keypair \<Rightarrow> string option" where
  "encode_keypair E kp = map_option (b64_encode E) (kp_to_protobuf E kp)"

definition decode_keypair :: "crates \<Rightarrow> string \<Rightarrow> keypair option" where
  "decode_keypair E b64 =
     (case b64_decode E b64 of None \<Rightarrow> None | Some bs \<Rightarrow> kp_from_protobuf E bs)"

definition b64_array :: "crates \<Rightarrow> nat \<Rightarrow> string \<Rightarrow> bytes option" where
  "b64_array E n s = (case b64_decode E s of None \<Rightarrow> None | Some v \<Rightarrow> to_array n v)"

definition hex_array :: "crates \<Rightarrow> nat \<Rightarrow> string \<Rightarrow> bytes option" where
  "hex_array E n s = (case hex_decode E s of None \<Rightarrow> None | Some v \<Rightarrow> to_array n v)"

definition load_identity ::
  "crates \<Rightarrow> storage_json \<Rightarrow> fault_plan \<Rightarrow> entropy \<Rightarrow> disk
   \<Rightarrow> (storage_error + device_identity option) option" where
  "load_identity E J fp rng dk =
     (if \<not> hm_contains (dk_files dk) IDENTITY_FILE then Some (Inr None)
      else case read_to_string fp 0 IDENTITY_FILE dk of
        Inl e \<Rightarrow> Some (Inl e)
      | Inr contents \<Rightarrow>
     (case sj_identity_from_str J contents of
        None \<Rightarrow> Some (Inl Corrupt)
      | Some file \<Rightarrow>
     (case b64_array E SEED_LEN (if_mldsa_seed_b64 file) of
        None \<Rightarrow> Some (Inl Corrupt)
      | Some seed \<Rightarrow>
     (case hex_array E 16 (if_device_uuid_hex file) of
        None \<Rightarrow> Some (Inl Corrupt)
      | Some device_uuid \<Rightarrow>
     (case hex_array E 16 (if_user_id_hex file) of
        None \<Rightarrow> Some (Inl Corrupt)
      | Some user_id \<Rightarrow>
     (case decode_keypair E (if_transport_keypair_b64 file) of
        None \<Rightarrow> Some (Inl Corrupt)
      | Some kp \<Rightarrow>
     (case device_from_seed E user_id (if_user_name file) seed device_uuid kp rng of
        None \<Rightarrow> None
      | Some identity \<Rightarrow>
          if pid_to_base58 E (di_peer_id identity) \<noteq> if_peer_id_b58 file then Some (Inl Corrupt)
          else Some (Inr (Some identity)))))))))"

definition identity_file_of :: "crates \<Rightarrow> device_identity \<Rightarrow> string \<Rightarrow> identity_file" where
  "identity_file_of E identity kp64 =
     \<lparr>if_v = 1, if_user_id_hex = hex_encode E (ui_user_id (di_user identity)),
      if_user_name = ui_user_name (di_user identity),
      if_device_uuid_hex = hex_encode E (di_device_uuid identity),
      if_mldsa_seed_b64 = b64_encode E (sk_seed E (di_secret_key identity)),
      if_transport_keypair_b64 = kp64, if_peer_id_b58 = pid_to_base58 E (di_peer_id identity)\<rparr>"

definition save_identity ::
  "crates \<Rightarrow> storage_json \<Rightarrow> fault_plan \<Rightarrow> device_identity \<Rightarrow> disk
   \<Rightarrow> (disk \<times> (storage_error + unit)) option" where
  "save_identity E J fp identity dk =
     (case ensure fp 0 dk of
        (dk', Inl e) \<Rightarrow> Some (dk', Inl e)
      | (dk', Inr _) \<Rightarrow>
          (case encode_keypair E (di_transport_keypair identity) of
             None \<Rightarrow> None
           | Some kp64 \<Rightarrow>
               (case sj_identity_to_string J (identity_file_of E identity kp64) of
                  None \<Rightarrow> Some (dk', Inl Corrupt)
                | Some json \<Rightarrow> Some (write_atomic fp 1 IDENTITY_FILE (as_bytes json) dk'))))"

definition load_config :: "storage_json \<Rightarrow> fault_plan \<Rightarrow> disk \<Rightarrow> storage_error + node_config" where
  "load_config J fp dk =
     (if \<not> hm_contains (dk_files dk) CONFIG_FILE then Inr default_config
      else case read_to_string fp 0 CONFIG_FILE dk of
        Inl e \<Rightarrow> Inl e
      | Inr contents \<Rightarrow>
          (case sj_config_from_str J contents of None \<Rightarrow> Inl Corrupt | Some c \<Rightarrow> Inr c))"

definition save_config ::
  "storage_json \<Rightarrow> fault_plan \<Rightarrow> node_config \<Rightarrow> disk \<Rightarrow> disk \<times> (storage_error + unit)" where
  "save_config J fp config dk =
     (case ensure fp 0 dk of
        (dk', Inl e) \<Rightarrow> (dk', Inl e)
      | (dk', Inr _) \<Rightarrow>
          (case sj_config_to_string J config of
             None \<Rightarrow> (dk', Inl Corrupt)
           | Some json \<Rightarrow> write_atomic fp 1 CONFIG_FILE (as_bytes json) dk'))"

fun as_json :: "int \<Rightarrow> history_kind \<Rightarrow> string" where
  "as_json clock (Sent peer msg_id status) =
     ''{\"event\":\"sent\",\"peer\":\"'' @ peer @ ''\",\"msg_id\":'' @ show_nat (unat msg_id) @
     '',\"status\":\"'' @ status @ ''\",\"ts_ms\":'' @ show_nat (unat (now_ms clock)) @ ''}''"
| "as_json clock (Received peer msg_id) =
     ''{\"event\":\"received\",\"peer\":\"'' @ peer @ ''\",\"msg_id\":'' @ show_nat (unat msg_id) @
     '',\"ts_ms\":'' @ show_nat (unat (now_ms clock)) @ ''}''"

text \<open>Opening with \<open>create\<close> and \<open>append\<close> makes the file when it is missing; a failing write
  may have appended a part of the line.\<close>

definition append_history ::
  "fault_plan \<Rightarrow> int \<Rightarrow> history_kind \<Rightarrow> disk \<Rightarrow> disk \<times> (storage_error + unit)" where
  "append_history fp clock entry dk =
     (case ensure fp 0 dk of
        (dk', Inl e) \<Rightarrow> (dk', Inl e)
      | (dk', Inr _) \<Rightarrow>
          (case fp_fail fp 1 of
             Some e \<Rightarrow> (dk', Inl (Io e))
           | None \<Rightarrow>
               (let old = (case hm_get (dk_files dk') HISTORY_FILE of None \<Rightarrow> [] | Some bs \<Rightarrow> bs);
                    line = as_bytes (as_json clock entry @ [CHR 0x0A]) in
                case fp_fail fp 2 of
                  Some e \<Rightarrow> (put_file HISTORY_FILE (old @ take (fp_short fp) line) dk', Inl (Io e))
                | None \<Rightarrow> (put_file HISTORY_FILE (old @ line) dk', Inr ()))))"

section \<open>Atomic replacement\<close>

lemma tmp_names [simp]:
  "with_extension IDENTITY_FILE ''tmp'' = ''identity.tmp''"
  "with_extension CONFIG_FILE ''tmp'' = ''config.tmp''"
  by (simp_all add: with_extension_def IDENTITY_FILE_def CONFIG_FILE_def)

lemma file_names_distinct [simp]:
  "IDENTITY_FILE \<noteq> ''identity.tmp''" "CONFIG_FILE \<noteq> ''config.tmp''" "IDENTITY_FILE \<noteq> CONFIG_FILE"
  "IDENTITY_FILE \<noteq> ''config.tmp''" "CONFIG_FILE \<noteq> ''identity.tmp''"
  "''identity.tmp'' \<noteq> IDENTITY_FILE" "''config.tmp'' \<noteq> CONFIG_FILE"
  by (simp_all add: IDENTITY_FILE_def CONFIG_FILE_def)

lemma get_put_file [simp]:
  "hm_get (dk_files (put_file n b dk)) m = (if m = n then Some b else hm_get (dk_files dk) m)"
  by (simp add: put_file_def)

lemma write_atomic_files:
  assumes "write_atomic fp i path bs dk = (dk', r)" and tmp: "with_extension path ''tmp'' \<noteq> path"
  shows "m \<noteq> path \<Longrightarrow> m \<noteq> with_extension path ''tmp'' \<Longrightarrow>
      hm_get (dk_files dk') m = hm_get (dk_files dk) m"
    and "hm_get (dk_files dk') path = (if r = Inr () then Some bs else hm_get (dk_files dk) path)"
  using assms by (auto simp: write_atomic_def Let_def split: option.splits)

lemma ensure_files: "ensure fp i dk = (dk', r) \<Longrightarrow> dk_files dk' = dk_files dk"
  by (auto simp: ensure_def split: option.splits)

text \<open>C34. Saving is atomic: at whatever file system call \<open>save_identity\<close> or \<open>save_config\<close>
  fails, the target file holds either its previous contents or, exactly when success is
  reported, the complete new contents; and no file other than the target and its own
  temporary file changes.\<close>

theorem save_is_atomic:
  assumes "save_identity E J fp d dk = Some (dk1, r1)" and "save_config J fp c dk = (dk2, r2)"
  shows "(if r1 = Inr ()
     then \<exists>kp64 s. encode_keypair E (di_transport_keypair d) = Some kp64 \<and>
       sj_identity_to_string J (identity_file_of E d kp64) = Some s \<and>
       hm_get (dk_files dk1) IDENTITY_FILE = Some (as_bytes s)
     else hm_get (dk_files dk1) IDENTITY_FILE = hm_get (dk_files dk) IDENTITY_FILE) \<and>
    (if r2 = Inr ()
     then \<exists>s. sj_config_to_string J c = Some s \<and> hm_get (dk_files dk2) CONFIG_FILE = Some (as_bytes s)
     else hm_get (dk_files dk2) CONFIG_FILE = hm_get (dk_files dk) CONFIG_FILE) \<and>
    (\<forall>m. m \<noteq> IDENTITY_FILE \<longrightarrow> m \<noteq> ''identity.tmp'' \<longrightarrow>
        hm_get (dk_files dk1) m = hm_get (dk_files dk) m) \<and>
    (\<forall>m. m \<noteq> CONFIG_FILE \<longrightarrow> m \<noteq> ''config.tmp'' \<longrightarrow>
        hm_get (dk_files dk2) m = hm_get (dk_files dk) m)"
proof -
  obtain dk0 r0 where e: "ensure fp 0 dk = (dk0, r0)" by (cases "ensure fp 0 dk")
  note f = ensure_files [OF e]
  consider "dk1 = dk0" "r1 \<noteq> Inr ()"
    | kp64 s where "encode_keypair E (di_transport_keypair d) = Some kp64"
      "sj_identity_to_string J (identity_file_of E d kp64) = Some s"
      "write_atomic fp 1 IDENTITY_FILE (as_bytes s) dk0 = (dk1, r1)"
    using assms(1) e by (auto simp: save_identity_def split: option.splits sum.splits)
  then have "(if r1 = Inr ()
     then \<exists>kp64 s. encode_keypair E (di_transport_keypair d) = Some kp64 \<and>
       sj_identity_to_string J (identity_file_of E d kp64) = Some s \<and>
       hm_get (dk_files dk1) IDENTITY_FILE = Some (as_bytes s)
     else hm_get (dk_files dk1) IDENTITY_FILE = hm_get (dk_files dk) IDENTITY_FILE) \<and>
    (\<forall>m. m \<noteq> IDENTITY_FILE \<longrightarrow> m \<noteq> ''identity.tmp'' \<longrightarrow> hm_get (dk_files dk1) m = hm_get (dk_files dk) m)"
  proof cases
    case 1
    then show ?thesis by (simp add: f)
  next
    case 2
    then show ?thesis using write_atomic_files [OF 2(3)] by (simp add: f)
  qed
  moreover consider "dk2 = dk0" "r2 \<noteq> Inr ()"
    | s where "sj_config_to_string J c = Some s" "write_atomic fp 1 CONFIG_FILE (as_bytes s) dk0 = (dk2, r2)"
    using assms(2) e by (auto simp: save_config_def split: option.splits sum.splits)
  then have "(if r2 = Inr ()
     then \<exists>s. sj_config_to_string J c = Some s \<and> hm_get (dk_files dk2) CONFIG_FILE = Some (as_bytes s)
     else hm_get (dk_files dk2) CONFIG_FILE = hm_get (dk_files dk) CONFIG_FILE) \<and>
    (\<forall>m. m \<noteq> CONFIG_FILE \<longrightarrow> m \<noteq> ''config.tmp'' \<longrightarrow> hm_get (dk_files dk2) m = hm_get (dk_files dk) m)"
  proof cases
    case 1
    then show ?thesis by (simp add: f)
  next
    case 2
    then show ?thesis using write_atomic_files [OF 2(2)] by (simp add: f)
  qed
  ultimately show ?thesis by (elim conjE) (intro conjI; assumption)
qed

section \<open>Round trips\<close>

lemma hex_array_encode: "text_codecs_ok E \<Longrightarrow> length b = n \<Longrightarrow> hex_array E n (hex_encode E b) = Some b"
  by (simp add: hex_array_def text_codecs_simps to_array_def)

lemma b64_array_encode: "text_codecs_ok E \<Longrightarrow> length b = n \<Longrightarrow> b64_array E n (b64_encode E b) = Some b"
  by (simp add: b64_array_def text_codecs_simps to_array_def)

lemma keypair_codec:
  assumes "text_codecs_ok E"
  obtains s where "encode_keypair E kp = Some s" "decode_keypair E s = Some kp"
proof -
  from assms obtain b where "kp_to_protobuf E kp = Some b" "kp_from_protobuf E b = Some kp"
    unfolding text_codecs_ok_def by metis
  then show thesis using that assms
    by (simp add: encode_keypair_def decode_keypair_def text_codecs_simps)
qed

text \<open>Restoring from the fields of an identity gives the identity back.\<close>

lemma device_from_seed_same:
  assumes "wf_identity E d"
  shows "device_from_seed E (ui_user_id (di_user d)) (ui_user_name (di_user d))
    (sk_seed E (di_secret_key d)) (di_device_uuid d) (di_transport_keypair d) rng = Some d"
proof -
  from assms have sk: "sk_from_seed E (sk_seed E (di_secret_key d)) = di_secret_key d"
    and vk: "sk_verifying_key E (di_secret_key d) = di_verifying_key d"
    unfolding wf_identity_def by metis+
  show ?thesis
    unfolding device_from_seed_def Let_def sk vk assemble_def wf_identity_peer_id [OF assms]
    by (simp add: with_transport_def)
qed

lemma save_identity_written:
  assumes "text_codecs_ok E" "storage_json_ok J" and "save_identity E J fp d dk = Some (dk', Inr ())"
    and "valid_str (ui_user_name (di_user d))"
  obtains kp64 s where "decode_keypair E kp64 = Some (di_transport_keypair d)"
    "sj_identity_from_str J s = Some (identity_file_of E d kp64)" "valid_str s"
    "hm_get (dk_files dk') IDENTITY_FILE = Some (as_bytes s)"
proof -
  obtain kp64 where kp: "encode_keypair E (di_transport_keypair d) = Some kp64"
    "decode_keypair E kp64 = Some (di_transport_keypair d)" by (rule keypair_codec [OF assms(1)])
  obtain s where s: "sj_identity_to_string J (identity_file_of E d kp64) = Some s" "valid_str s"
    "sj_identity_from_str J s = Some (identity_file_of E d kp64)"
  proof -
    have "valid_str (if_user_name (identity_file_of E d kp64))"
      using assms(4) by (simp add: identity_file_of_def)
    then show thesis using that assms(2) unfolding storage_json_ok_def by blast
  qed
  obtain dk0 r0 where e: "ensure fp 0 dk = (dk0, r0)" by (cases "ensure fp 0 dk")
  then have "write_atomic fp 1 IDENTITY_FILE (as_bytes s) dk0 = (dk', Inr ())"
    using assms(3) kp(1) s(1) by (auto simp: save_identity_def split: sum.splits)
  then have "hm_get (dk_files dk') IDENTITY_FILE = Some (as_bytes s)"
    using write_atomic_files(2) by fastforce
  then show thesis using kp(2) s by (intro that)
qed

lemma saved_identity_loads:
  assumes "text_codecs_ok E" "storage_json_ok J" and d: "wf_identity E d"
    and "save_identity E J fp d dk = Some (dk', Inr ())" and "fp_fail fp' 0 = None"
  shows "load_identity E J fp' rng dk' = Some (Inr (Some d))"
proof -
  have "valid_str (ui_user_name (di_user d))" using d unfolding wf_identity_def by blast
  from save_identity_written [OF assms(1,2,4) this] obtain kp64 s where
    w: "decode_keypair E kp64 = Some (di_transport_keypair d)"
    "sj_identity_from_str J s = Some (identity_file_of E d kp64)" "valid_str s"
    "hm_get (dk_files dk') IDENTITY_FILE = Some (as_bytes s)" .
  have lens: "length (di_device_uuid d) = 16" "length (ui_user_id (di_user d)) = 16"
    "length (sk_seed E (di_secret_key d)) = SEED_LEN"
    using d unfolding wf_identity_def by blast+
  have read: "read_to_string fp' 0 IDENTITY_FILE dk' = Inr s"
    using w(3,4) assms(5) by (simp add: read_to_string_def)
  have "hm_contains (dk_files dk') IDENTITY_FILE" using w(4) by (simp add: hm_contains_def)
  moreover note hex_array_encode [OF assms(1) lens(1)] hex_array_encode [OF assms(1) lens(2)]
    b64_array_encode [OF assms(1) lens(3)]
  ultimately show ?thesis
    using w(1,2) read device_from_seed_same [OF d]
    by (simp add: load_identity_def identity_file_of_def)
qed

text \<open>The identity survives a restart: after \<open>save_identity\<close> reports success, loading returns
  exactly the saved identity (keys, identifiers, names, transport key and Peer ID) as long as
  the read itself does not fail.\<close>

theorem identity_persists:
  assumes "text_codecs_ok E" "storage_json_ok J" and d: "wf_identity E d"
    and "save_identity E J fp d dk = Some (dk', Inr ())" and "fp_fail fp' 0 = None"
  shows "load_identity E J fp' rng dk' = Some (Inr (Some d))"
  by (rule saved_identity_loads [OF assms])

text \<open>C35. A stored identity is checked when it is loaded: whatever bytes the file holds, an identity
  that \<open>load_identity\<close> returns is well-formed, and its self-certifying Peer ID is the one
  recorded in the file, so a seed or Peer ID that was swapped alone is refused.\<close>

theorem load_identity_checked:
  assumes "dsa_correct E" "storage_json_ok J"
    and "load_identity E J fp rng dk = Some (Inr (Some d))"
  shows "wf_identity E d \<and> (\<exists>bs idf. hm_get (dk_files dk) IDENTITY_FILE = Some bs \<and>
    sj_identity_from_str J (chars_of bs) = Some idf \<and>
    if_peer_id_b58 idf = pid_to_base58 E (di_peer_id d) \<and>
    if_user_name idf = ui_user_name (di_user d))"
proof -
  from assms(3) obtain bs idf seed uuid uid kp where
    f: "hm_get (dk_files dk) IDENTITY_FILE = Some bs" "utf8_valid bs"
      "sj_identity_from_str J (chars_of bs) = Some idf" and
    a: "b64_array E SEED_LEN (if_mldsa_seed_b64 idf) = Some seed"
      "hex_array E 16 (if_device_uuid_hex idf) = Some uuid"
      "hex_array E 16 (if_user_id_hex idf) = Some uid" and
    d: "device_from_seed E uid (if_user_name idf) seed uuid kp rng = Some d"
      "if_peer_id_b58 idf = pid_to_base58 E (di_peer_id d)"
    by (auto simp: load_identity_def read_to_string_def from_utf8_def
        split: if_splits option.splits sum.splits)
  have name: "valid_str (if_user_name idf)"
    using assms(2) f(3) unfolding storage_json_ok_def by blast
  have lens: "length seed = SEED_LEN" "length uuid = 16" "length uid = 16"
    using a by (auto simp: b64_array_def hex_array_def to_array_def split: option.splits if_splits)
  from d(1) obtain d0 where d0: "assemble E \<lparr>ui_user_id = uid, ui_user_name = if_user_name idf\<rparr>
      (sk_from_seed E seed) (sk_verifying_key E (sk_from_seed E seed)) uuid rng = Some d0"
    "d = with_transport d0 kp" by (auto simp: device_from_seed_def Let_def)
  have "wf_identity E d"
    unfolding d0(2)
    by (intro wf_with_transport assemble_wf [OF assms(1) lens(1,2) _ _ d0(1)]) (simp_all add: lens name)
  moreover have "ui_user_name (di_user d) = if_user_name idf"
    using d0 by (auto simp: assemble_def with_transport_def split: option.splits)
  ultimately show ?thesis using f d(2) by metis
qed

text \<open>The history log is append-only: every call, successful or not, leaves the previous log as
  a prefix of the new one and touches no other file; a successful call adds exactly one line,
  the entry's metadata record.\<close>

theorem history_append_only:
  assumes "append_history fp clock entry dk = (dk', r)"
    and "hm_get (dk_files dk) HISTORY_FILE = Some old"
  shows "(\<exists>suffix. hm_get (dk_files dk') HISTORY_FILE = Some (old @ suffix)) \<and>
    (r = Inr () \<longrightarrow> hm_get (dk_files dk') HISTORY_FILE
       = Some (old @ as_bytes (as_json clock entry) @ [10])) \<and>
    (\<forall>m. m \<noteq> HISTORY_FILE \<longrightarrow> hm_get (dk_files dk') m = hm_get (dk_files dk) m)"
proof -
  obtain dk0 r0 where e: "ensure fp 0 dk = (dk0, r0)" by (cases "ensure fp 0 dk")
  have nl: "as_bytes (s @ [CHR 0x0A]) = as_bytes s @ [10]" for s
    by (simp add: as_bytes_def of_char_def)
  show ?thesis
    using assms e ensure_files [OF e]
    by (auto simp: append_history_def Let_def nl split: sum.splits option.splits)
qed

section \<open>Witnesses\<close>

definition ref_identity_to_string :: "identity_file \<Rightarrow> string option" where
  "ref_identity_to_string f = Some (print_bytes (be32 (if_v f) @
     concat (map (put_len \<circ> as_bytes) [if_user_id_hex f, if_user_name f, if_device_uuid_hex f,
       if_mldsa_seed_b64 f, if_transport_keypair_b64 f, if_peer_id_b58 f])))"

definition ref_identity_from_str :: "string \<Rightarrow> identity_file option" where
  "ref_identity_from_str s =
     (let b = scan_bytes s; (f1, r1) = get_len (drop 4 b); (f2, r2) = get_len r1;
          (f3, r3) = get_len r2; (f4, r4) = get_len r3; (f5, r5) = get_len r4; (f6, r6) = get_len r5 in
      if utf8_valid f2 then
        Some \<lparr>if_v = un_be32 (take 4 b), if_user_id_hex = chars_of f1, if_user_name = chars_of f2,
              if_device_uuid_hex = chars_of f3, if_mldsa_seed_b64 = chars_of f4,
              if_transport_keypair_b64 = chars_of f5, if_peer_id_b58 = chars_of f6\<rparr>
      else None)"

definition ref_json :: storage_json where
  "ref_json = \<lparr>sj_identity_to_string = ref_identity_to_string,
     sj_identity_from_str = ref_identity_from_str,
     sj_config_to_string = (\<lambda>c. Some (print_bytes (be16 (nc_listen_port c)))),
     sj_config_from_str = (\<lambda>s. Some \<lparr>nc_listen_port = un_be16 (scan_bytes s)\<rparr>)\<rparr>"

lemma valid_print_bytes: "valid_str (print_bytes b)"
  by (rule valid_ascii) (auto dest: print_bytes_ascii)

lemma get_len_put_len_end [simp]: "get_len (put_len b) = (b, [])"
  using get_len_put_len [of b "[]"] by simp

lemma ref_json_ok: "storage_json_ok ref_json"
proof -
  have rt: "ref_identity_from_str (the (ref_identity_to_string f)) = Some f"
    if "valid_str (if_user_name f)" for f
    using that by (cases f) (simp add: ref_identity_to_string_def ref_identity_from_str_def
        scan_print_bytes valid_str_def)
  moreover have "valid_str (if_user_name f)" if "ref_identity_from_str s = Some f" for s f
    using that by (auto simp: ref_identity_from_str_def Let_def valid_str_def
        split: prod.splits if_splits)
  moreover have "\<exists>b. ref_identity_to_string f = Some (print_bytes b)" for f
    unfolding ref_identity_to_string_def by blast
  ultimately show ?thesis
    unfolding storage_json_ok_def
    by (simp add: ref_json_def scan_print_bytes valid_print_bytes)
      (metis option.sel valid_print_bytes)
qed

definition empty_disk :: disk where
  "empty_disk = \<lparr>dk_dir = False, dk_files = []\<rparr>"

lemma sample_saved:
  obtains dk where "save_identity ref_crates ref_json no_faults (sample_device 1) empty_disk
    = Some (dk, Inr ())"
proof -
  obtain kp64 where "encode_keypair ref_crates (di_transport_keypair (sample_device 1)) = Some kp64"
    by (rule keypair_codec [OF ref_text_codecs_ok])
  then show thesis
    using that by (simp add: save_identity_def ensure_def no_faults_def ref_json_def
        ref_identity_to_string_def write_atomic_def Let_def)
qed

theorem save_is_atomic_witness:
  "\<exists>dk1 dk2. save_identity ref_crates ref_json no_faults (sample_device 1) empty_disk = Some (dk1, Inr ()) \<and>
     save_config ref_json no_faults default_config empty_disk = (dk2, Inr ()) \<and>
     hm_get (dk_files dk1) CONFIG_FILE = None"
proof -
  obtain dk1 where s: "save_identity ref_crates ref_json no_faults (sample_device 1) empty_disk
      = Some (dk1, Inr ())" by (rule sample_saved)
  obtain dk2 where c: "save_config ref_json no_faults default_config empty_disk = (dk2, Inr ())"
    by (simp add: save_config_def ensure_def no_faults_def ref_json_def write_atomic_def Let_def)
  have "CONFIG_FILE \<noteq> IDENTITY_FILE" by (rule file_names_distinct(3) [symmetric])
  then have "hm_get (dk_files dk1) CONFIG_FILE = hm_get (dk_files empty_disk) CONFIG_FILE"
    using save_is_atomic [OF s c] file_names_distinct(5) by blast
  then show ?thesis using s c by (simp add: empty_disk_def)
qed

theorem identity_persists_witness:
  "\<exists>dk. save_identity ref_crates ref_json no_faults (sample_device 1) empty_disk = Some (dk, Inr ()) \<and>
     load_identity ref_crates ref_json no_faults [] dk = Some (Inr (Some (sample_device 1)))"
proof -
  obtain dk where s: "save_identity ref_crates ref_json no_faults (sample_device 1) empty_disk
      = Some (dk, Inr ())" by (rule sample_saved)
  show ?thesis
    using identity_persists [OF ref_text_codecs_ok ref_json_ok sample_device_props(1) s, of no_faults] s
    by (simp add: no_faults_def)
qed

theorem load_identity_checked_witness:
  "\<exists>dk d. load_identity ref_crates ref_json no_faults [] dk = Some (Inr (Some d)) \<and> wf_identity ref_crates d"
proof -
  obtain dk where s: "save_identity ref_crates ref_json no_faults (sample_device 1) empty_disk
      = Some (dk, Inr ())" by (rule sample_saved)
  have l: "load_identity ref_crates ref_json no_faults [] dk = Some (Inr (Some (sample_device 1)))"
    by (rule saved_identity_loads [OF ref_text_codecs_ok ref_json_ok sample_device_props(1) s])
      (simp add: no_faults_def)
  show ?thesis using load_identity_checked [OF ref_dsa_correct ref_json_ok l] l by blast
qed

theorem history_append_only_witness:
  "\<exists>dk'. append_history no_faults 0 (Received ''p'' 7) \<lparr>dk_dir = True, dk_files = [(HISTORY_FILE, [1])]\<rparr>
     = (dk', Inr ()) \<and> hm_get (dk_files dk') HISTORY_FILE
       = Some ([1] @ as_bytes (as_json 0 (Received ''p'' 7)) @ [10])"
proof -
  let ?dk = "\<lparr>dk_dir = True, dk_files = [(HISTORY_FILE, [1])]\<rparr>"
  obtain dk' where a: "append_history no_faults 0 (Received ''p'' 7) ?dk = (dk', Inr ())"
    by (simp add: append_history_def ensure_def no_faults_def Let_def)
  have "hm_get (dk_files ?dk) HISTORY_FILE = Some [1]" by (simp add: hm_get_def)
  from history_append_only [OF a this] a show ?thesis by blast
qed

end
