(* ===== verification/Node.thy ===== *)
theory Node
  imports Behaviour Records Storage
begin

text \<open>
  \<open>src/node.rs\<close>: the node around the session behaviour.  This theory has its data, the address
  lifecycle (local interfaces, the published record, validated public addresses) and the
  discovery state (lookups, cached records, re-dials).  The other libp2p behaviours
  (Kademlia, AutoNAT, DCUtR, relay) are not code of the repository: what the node tells them is
  appended to \<open>nd_orders\<close>, what they report comes in as events.  An operation returns \<open>None\<close>
  when the code panics.  The clock does not advance inside one call; logging is left out.
  Instants count from an origin at least five seconds before the start, because \<open>node_new\<close> subtracts five seconds from the current one.
\<close>

section \<open>Constants\<close>

definition MAX_TRAVERSAL_ATTEMPTS :: u32 where "MAX_TRAVERSAL_ATTEMPTS = 3"
definition PUBLISH_INTERVAL :: duration where "PUBLISH_INTERVAL = secs 30"
definition INTERFACE_SCAN_INTERVAL :: duration where "INTERFACE_SCAN_INTERVAL = secs 5"
definition MAX_LOOKUP_ATTEMPTS :: u32 where "MAX_LOOKUP_ATTEMPTS = 10"
definition LOOKUP_RETRY_DELAY :: duration where "LOOKUP_RETRY_DELAY = secs 1"
definition RECONNECT_DIAL_DELAY :: duration where "RECONNECT_DIAL_DELAY = secs 2"
definition RECONNECT_DELAY :: duration where "RECONNECT_DELAY = secs 3"
definition VALIDATION_TIMEOUT :: duration where "VALIDATION_TIMEOUT = secs 15"
definition PUBLIC_REVALIDATE_INTERVAL :: duration where "PUBLIC_REVALIDATE_INTERVAL = secs 300"
definition MAX_VALIDATION_ATTEMPTS :: u32 where "MAX_VALIDATION_ATTEMPTS = 3"
definition PROBE_TIMEOUT :: duration where "PROBE_TIMEOUT = secs 30"

lemmas node_delays = PUBLISH_INTERVAL_def INTERFACE_SCAN_INTERVAL_def LOOKUP_RETRY_DELAY_def
  RECONNECT_DIAL_DELAY_def RECONNECT_DELAY_def VALIDATION_TIMEOUT_def
  PUBLIC_REVALIDATE_INTERVAL_def PROBE_TIMEOUT_def

section \<open>Bootstrap peers\<close>

record bootstrap_peer =
  bp_peer_id :: string
  bp_addrs :: "string list"

text \<open>\<open>str::split_once\<close> at the first occurrence of a character.\<close>

fun split_once :: "char \<Rightarrow> string \<Rightarrow> (string \<times> string) option" where
  "split_once c [] = None"
| "split_once c (x # xs) =
     (if x = c then Some ([], xs)
      else map_option (\<lambda>(a, b). (x # a, b)) (split_once c xs))"

definition bootstrap_parse :: "crates \<Rightarrow> string \<Rightarrow> string + bootstrap_peer" where
  "bootstrap_parse E s =
     (case split_once CHR ''@'' s of
        None \<Rightarrow> Inl ''expected PEERID@MULTIADDR (e.g. Qm...@/ip4/10.0.0.5/tcp/9000)''
      | Some (peer, addr_text) \<Rightarrow>
          (case pid_from_str E peer of
             None \<Rightarrow> Inl (''invalid peer id: '' @ peer)
           | Some p \<Rightarrow>
               (case ma_from_str E addr_text of
                  None \<Rightarrow> Inl (''invalid multiaddr: '' @ addr_text)
                | Some addr \<Rightarrow>
                    Inr \<lparr>bp_peer_id = pid_to_base58 E p, bp_addrs = [ma_to_string E addr]\<rparr>)))"

text \<open>\<open>None\<close> is the \<open>expect\<close> of \<open>peer_id()\<close>.\<close>

definition bootstrap_peer_id :: "crates \<Rightarrow> bootstrap_peer \<Rightarrow> peer_id option" where
  "bootstrap_peer_id E bp = pid_from_str E (bp_peer_id bp)"

definition bootstrap_multiaddrs :: "crates \<Rightarrow> bootstrap_peer \<Rightarrow> multiaddr list" where
  "bootstrap_multiaddrs E bp = List.map_filter (ma_from_str E) (bp_addrs bp)"

record node_options =
  no_listen_port :: u16
  no_bootstrap :: "bootstrap_peer list"
  no_external_ips :: "ip_addr list"
  no_relay :: "bootstrap_peer option"
  no_relay_server :: bool

section \<open>State\<close>

datatype peer_path = Disconnected | Connecting | Direct | Relayed | Traversing | Failed

fun path_label :: "peer_path \<Rightarrow> string" where
  "path_label Disconnected = ''disconnected''"
| "path_label Connecting = ''connecting''"
| "path_label Direct = ''direct''"
| "path_label Relayed = ''via-relay''"
| "path_label Traversing = ''traversing''"
| "path_label Failed = ''failed''"

record lookup_request =
  lq_peer :: peer_id
  lq_attempts :: u32

record lookup_retry =
  lr_peer :: peer_id
  lr_attempts :: u32
  lr_next_at :: instant

record retry_dial =
  rd_peer :: peer_id
  rd_transport :: peer_id
  rd_addrs :: "multiaddr list"
  rd_next_at :: instant

datatype candidate_state = CandPending instant | CandValidated instant | CandRejected u32

record candidate =
  cd_state :: candidate_state
  cd_prober :: peer_id

record pending_probe =
  pp_addr :: multiaddr
  pp_since :: instant

text \<open>What the node asks of libp2p besides the sessions.\<close>

datatype node_order =
  KadPutRecord bytes bytes
| KadBootstrap
| KadGetRecord bytes query_id
| KadAddAddress peer_id multiaddr
| KadRemoveAddress peer_id multiaddr
| ListenOn multiaddr
| AddExternalAddress multiaddr
| DisconnectPeer peer_id

record node =
  nd_session :: behaviour
  nd_orders :: "node_order list"
  nd_identity :: device_identity
  nd_storage :: disk
  nd_our_record :: addr_record
  nd_current_addrs :: "multiaddr list"
  nd_last_publish :: instant
  nd_last_interface_scan :: instant
  nd_last_bootstrap :: instant
  nd_connected :: "peer_id list"
  nd_bootstrap_pending :: "bootstrap_peer list"
  nd_bootstrap_mapped :: "peer_id list"
  nd_bootstrap_dialing :: "multiaddr list"
  nd_pending_lookups :: "(query_id, lookup_request) hmap"
  nd_retry_lookups :: "lookup_retry list"
  nd_dialing :: "peer_id list"
  nd_had_session :: "peer_id list"
  nd_retry_dials :: "retry_dial list"
  nd_records :: "(peer_id, verified_record) hmap"
  nd_candidates :: "(multiaddr, candidate) hmap"
  nd_validated_public_addrs :: "multiaddr list"
  nd_pending_probes :: "(peer_id, pending_probe) hmap"
  nd_listen_port :: u16
  nd_external_ips :: "ip_addr list"
  nd_relay :: "bootstrap_peer option"
  nd_relay_server :: bool
  nd_relay_transport :: "peer_id option"
  nd_relay_dialing :: bool
  nd_peer_paths :: "(peer_id, peer_path) hmap"
  nd_traversal_attempts :: "(peer_id, u32) hmap"
  nd_nat_status :: string

text \<open>What a call reads from its surroundings: the clocks, the entropy of a signature, the
  surroundings of the calls it makes to the session behaviour (by number), the identifiers
  Kademlia gives its queries (by number), the addresses of the local interfaces (\<open>None\<close> when the
  scan fails), the listeners and the number of connected peers of the swarm, the failures of the
  file system, and the error of \<open>listen_on\<close>, if any.\<close>

record surroundings =
  su_now :: instant
  su_secs :: int
  su_entropy :: entropy
  su_amb :: "nat \<Rightarrow> ambient"
  su_query :: "nat \<Rightarrow> query_id"
  su_ips :: "ip_addr list option"
  su_listeners :: "multiaddr list"
  su_connected :: nat
  su_faults :: fault_plan
  su_listen_error :: "string option"

datatype node_error = NodeListen string | NodeAddress | NodeStorage storage_error

text \<open>The argument is the text of the multiaddress error.\<close>

fun node_error_display :: "string \<Rightarrow> node_error \<Rightarrow> string" where
  "node_error_display ma (NodeListen e) = ''could not listen: '' @ e"
| "node_error_display ma NodeAddress = ''invalid multiaddr: '' @ ma"
| "node_error_display ma (NodeStorage e) = ''storage error: '' @ storage_error_display e"

text \<open>The text \<open>/ip4/0.0.0.0/tcp/<port>\<close> is the printed form of these two components.\<close>

definition listen_addr :: "crates \<Rightarrow> u16 \<Rightarrow> multiaddr option" where
  "listen_addr E port = ma_from_str E (ma_to_string E (Multiaddr [Ip4 0, Tcp port]))"

definition node_new ::
  "crates \<Rightarrow> surroundings \<Rightarrow> device_identity \<Rightarrow> disk \<Rightarrow> node_options \<Rightarrow> (node_error + node) option" where
  "node_new E S identity storage opts =
     (case listen_addr E (no_listen_port opts) of
        None \<Rightarrow> Some (Inl NodeAddress)
      | Some addr \<Rightarrow>
     (case su_listen_error S of
        Some e \<Rightarrow> Some (Inl (NodeListen e))
      | None \<Rightarrow>
     (case sign_addr_record E identity [] (su_secs S) (su_entropy S) of
        None \<Rightarrow> None
      | Some rec0 \<Rightarrow>
          Some (Inr
            \<lparr>nd_session = behaviour_new identity, nd_orders = [ListenOn addr],
             nd_identity = identity, nd_storage = storage, nd_our_record = rec0,
             nd_current_addrs = [], nd_last_publish = su_now S,
             nd_last_interface_scan = su_now S - INTERFACE_SCAN_INTERVAL,
             nd_last_bootstrap = su_now S - secs 5, nd_connected = [],
             nd_bootstrap_pending = no_bootstrap opts, nd_bootstrap_mapped = [],
             nd_bootstrap_dialing = [], nd_pending_lookups = [], nd_retry_lookups = [],
             nd_dialing = [], nd_had_session = [], nd_retry_dials = [], nd_records = [],
             nd_candidates = [], nd_validated_public_addrs = [], nd_pending_probes = [],
             nd_listen_port = no_listen_port opts, nd_external_ips = no_external_ips opts,
             nd_relay = no_relay opts, nd_relay_server = no_relay_server opts,
             nd_relay_transport = None, nd_relay_dialing = False, nd_peer_paths = [],
             nd_traversal_attempts = [], nd_nat_status = ''unknown''\<rparr>))))"

section \<open>Local addresses\<close>

definition is_loopback :: "ip_addr \<Rightarrow> bool" where
  "is_loopback ip = (case ip of V4 a \<Rightarrow> drop_bit 24 a = 127 | V6 a \<Rightarrow> a = 1)"

definition keep_local :: "ip_addr list \<Rightarrow> multiaddr \<Rightarrow> bool" where
  "keep_local local_ips a =
     (case find_ip (ma_iter a) of
        Some ip \<Rightarrow> if is_loopback ip then True else ip \<in> set local_ips
      | None \<Rightarrow> P2pCircuit \<in> set (ma_iter a))"

text \<open>The loop over the addresses, with the set of texts seen so far.\<close>

fun filter_local_loop :: "crates \<Rightarrow> ip_addr list \<Rightarrow> string list \<Rightarrow> multiaddr list \<Rightarrow> multiaddr list" where
  "filter_local_loop E local_ips seen [] = []"
| "filter_local_loop E local_ips seen (a # as) =
     (if keep_local local_ips a \<and> ma_to_string E a \<notin> set seen
      then a # filter_local_loop E local_ips (ma_to_string E a # seen) as
      else filter_local_loop E local_ips seen as)"

definition filter_local_addrs :: "crates \<Rightarrow> multiaddr list \<Rightarrow> ip_addr list \<Rightarrow> multiaddr list" where
  "filter_local_addrs E addrs local_ips = filter_local_loop E local_ips [] addrs"

definition note_listen_addr :: "multiaddr \<Rightarrow> node \<Rightarrow> node \<times> bool" where
  "note_listen_addr addr nd =
     (if addr \<in> set (nd_current_addrs nd) then (nd, False)
      else (nd\<lparr>nd_current_addrs := nd_current_addrs nd @ [addr]\<rparr>, True))"

definition note_listen_addr_gone :: "multiaddr \<Rightarrow> node \<Rightarrow> node \<times> bool" where
  "note_listen_addr_gone addr nd =
     (let addrs = filter (\<lambda>a. a \<noteq> addr) (nd_current_addrs nd) in
      (nd\<lparr>nd_current_addrs := addrs\<rparr>, length addrs \<noteq> length (nd_current_addrs nd)))"

definition push_new :: "multiaddr list \<Rightarrow> multiaddr list \<Rightarrow> multiaddr list" where
  "push_new new xs = fold (\<lambda>a ys. if a \<in> set ys then ys else ys @ [a]) new xs"

definition publish_record :: "crates \<Rightarrow> record_json \<Rightarrow> surroundings \<Rightarrow> node \<Rightarrow> node option" where
  "publish_record E J S nd =
     (let addrs = push_new (nd_validated_public_addrs nd) (nd_current_addrs nd) in
      if addrs = [] then Some nd
      else case sign_addr_record E (nd_identity nd) addrs (su_secs S) (su_entropy S) of
        None \<Rightarrow> None
      | Some r \<Rightarrow>
          (case record_to_bytes J r of
             None \<Rightarrow> None
           | Some bs \<Rightarrow>
               Some (nd\<lparr>nd_our_record := r,
                        nd_orders := nd_orders nd
                          @ [KadPutRecord (pid_to_bytes E (di_peer_id (nd_identity nd))) bs],
                        nd_last_publish := su_now S\<rparr>)))"

definition refresh_local_addresses ::
  "crates \<Rightarrow> record_json \<Rightarrow> surroundings \<Rightarrow> node \<Rightarrow> node option" where
  "refresh_local_addresses E J S nd =
     (if duration_since (su_now S) (nd_last_interface_scan nd) < INTERFACE_SCAN_INTERVAL then Some nd
      else
        (let nd1 = nd\<lparr>nd_last_interface_scan := su_now S\<rparr> in
         case su_ips S of
           None \<Rightarrow> Some nd1
         | Some local_ips \<Rightarrow>
             (let nd2 = nd1\<lparr>nd_current_addrs := push_new (su_listeners S) (nd_current_addrs nd1)\<rparr>;
                  filtered = filter_local_addrs E (nd_current_addrs nd2) local_ips in
              if filtered = nd_current_addrs nd2 then Some nd2
              else publish_record E J S (nd2\<lparr>nd_current_addrs := filtered\<rparr>))))"

section \<open>Discovery and dialling\<close>

definition bootstrap_kad :: "surroundings \<Rightarrow> node \<Rightarrow> node" where
  "bootstrap_kad S nd =
     nd\<lparr>nd_orders := nd_orders nd @ [KadBootstrap], nd_last_bootstrap := su_now S\<rparr>"

text \<open>Both \<open>lookup\<close> and the retries issue a query and remember it under its identifier.\<close>

definition issue_lookup :: "crates \<Rightarrow> query_id \<Rightarrow> peer_id \<Rightarrow> u32 \<Rightarrow> node \<Rightarrow> node" where
  "issue_lookup E qid peer attempts nd =
     nd\<lparr>nd_orders := nd_orders nd @ [KadGetRecord (pid_to_bytes E peer) qid],
        nd_pending_lookups := hm_insert qid \<lparr>lq_peer = peer, lq_attempts = attempts\<rparr>
          (nd_pending_lookups nd)\<rparr>"

definition node_lookup :: "crates \<Rightarrow> surroundings \<Rightarrow> peer_id \<Rightarrow> node \<Rightarrow> node \<times> query_id option" where
  "node_lookup E S peer nd = (issue_lookup E (su_query S 0) peer 1 nd, Some (su_query S 0))"

definition node_send_message ::
  "crates \<Rightarrow> surroundings \<Rightarrow> peer_id \<Rightarrow> string \<Rightarrow> node \<Rightarrow> (node \<times> u64) option" where
  "node_send_message E S peer body nd =
     map_option (\<lambda>(b, i). (nd\<lparr>nd_session := b\<rparr>, i))
       (send_message E (su_amb S 0) peer body (nd_session nd))"

definition node_has_session :: "peer_id \<Rightarrow> node \<Rightarrow> bool" where
  "node_has_session peer nd = has_session peer (nd_session nd)"

definition dial_peer :: "peer_id \<Rightarrow> peer_id \<Rightarrow> multiaddr list \<Rightarrow> node \<Rightarrow> node" where
  "dial_peer peer transport addrs nd =
     (if peer \<in> set (nd_dialing nd) then nd
      else nd\<lparr>nd_dialing := hs_insert peer (nd_dialing nd),
              nd_session := connect peer transport addrs (nd_session nd)\<rparr>)"

definition lookup_in_flight :: "peer_id \<Rightarrow> node \<Rightarrow> bool" where
  "lookup_in_flight peer nd \<longleftrightarrow>
     (\<exists>(_, r) \<in> set (nd_pending_lookups nd). lq_peer r = peer) \<or>
     (\<exists>r \<in> set (nd_retry_lookups nd). lr_peer r = peer)"

definition schedule_rediscovery :: "surroundings \<Rightarrow> peer_id \<Rightarrow> duration \<Rightarrow> node \<Rightarrow> node" where
  "schedule_rediscovery S peer delay nd =
     (if lookup_in_flight peer nd then nd
      else nd\<lparr>nd_retry_lookups := nd_retry_lookups nd
             @ [\<lparr>lr_peer = peer, lr_attempts = 1, lr_next_at = su_now S + delay\<rparr>]\<rparr>)"

definition schedule_reconnect :: "surroundings \<Rightarrow> peer_id \<Rightarrow> node \<Rightarrow> node" where
  "schedule_reconnect S peer nd =
     (case hm_get (nd_records nd) peer of
        None \<Rightarrow> nd
      | Some r \<Rightarrow>
          (let nd1 =
             (if peer \<notin> set (nd_dialing nd) \<and> \<not> node_has_session peer nd
              then nd\<lparr>nd_retry_dials := nd_retry_dials nd
                     @ [\<lparr>rd_peer = peer, rd_transport = vr_transport_peer r, rd_addrs = vr_addrs r,
                         rd_next_at = su_now S + RECONNECT_DIAL_DELAY\<rparr>]\<rparr>
              else nd) in
           schedule_rediscovery S peer RECONNECT_DELAY nd1))"

definition invalidate_candidates :: "peer_id \<Rightarrow> multiaddr list \<Rightarrow> node \<Rightarrow> node" where
  "invalidate_candidates device failed nd =
     (if failed = [] then nd
      else case hm_get (nd_records nd) device of
        None \<Rightarrow> nd
      | Some r \<Rightarrow>
          (let addrs = filter (\<lambda>a. a \<notin> set failed) (vr_addrs r) in
           if length addrs = length (vr_addrs r) then nd
           else if addrs = [] then nd\<lparr>nd_records := hm_remove device (nd_records nd)\<rparr>
           else nd\<lparr>nd_records := hm_insert device (r\<lparr>vr_addrs := addrs\<rparr>) (nd_records nd)\<rparr>))"

definition on_verified_record :: "verified_record \<Rightarrow> node \<Rightarrow> node" where
  "on_verified_record v nd =
     (let replace_it = (case hm_get (nd_records nd) (vr_peer_id v) of
            Some old \<Rightarrow> vr_issued_at old \<le> vr_issued_at v | None \<Rightarrow> True) in
      if \<not> replace_it then nd
      else
        (let dial = (vr_peer_id v \<notin> set (nd_dialing nd) \<and> \<not> node_has_session (vr_peer_id v) nd);
             nd1 = nd\<lparr>nd_records := hm_insert (vr_peer_id v) v (nd_records nd)\<rparr> in
         if dial then dial_peer (vr_peer_id v) (vr_transport_peer v) (vr_addrs v) nd1 else nd1))"

text \<open>The query results the node distinguishes: a record with its key and value, any other
  outcome of a \<open>get_record\<close> query, and the outcomes of other queries.\<close>

datatype query_result = FoundRecord bytes bytes | OtherGetRecord | OtherQueryResult
datatype kad_event = OutboundQueryProgressed query_id query_result | OtherKadEvent

fun on_kad_event :: "crates \<Rightarrow> record_json \<Rightarrow> surroundings \<Rightarrow> kad_event \<Rightarrow> node \<Rightarrow> node option" where
  "on_kad_event E J S (OutboundQueryProgressed qid res) nd =
     (case hm_get (nd_pending_lookups nd) qid of
        None \<Rightarrow> Some nd
      | Some req \<Rightarrow>
          (let nd1 = nd\<lparr>nd_pending_lookups := hm_remove qid (nd_pending_lookups nd)\<rparr> in
           case res of
             FoundRecord key value \<Rightarrow>
               (case record_from_bytes J value of
                  Inl _ \<Rightarrow> Some nd1
                | Inr r \<Rightarrow>
                    (case verify_addr_record E key r (now_unix (su_secs S)) of
                       None \<Rightarrow> None
                     | Some (Inl _) \<Rightarrow> Some nd1
                     | Some (Inr v) \<Rightarrow> Some (on_verified_record v nd1)))
           | OtherGetRecord \<Rightarrow>
               if lq_attempts req < MAX_LOOKUP_ATTEMPTS
               then Some (nd1\<lparr>nd_retry_lookups := nd_retry_lookups nd1
                      @ [\<lparr>lr_peer = lq_peer req, lr_attempts = lq_attempts req + 1,
                          lr_next_at = su_now S + LOOKUP_RETRY_DELAY\<rparr>]\<rparr>)
               else Some nd1
           | OtherQueryResult \<Rightarrow> Some nd1))"
| "on_kad_event E J S OtherKadEvent nd = Some nd"

end
