(* ===== verification/Node_Events.thy ===== *)
theory Node_Events
  imports Node
begin

text \<open>
  The event side of \<open>src/node.rs\<close>: validation of observed addresses by dial-back probes, the
  handlers of session and swarm events, the periodic maintenance, and the commands of
  the interactive loop.  The loops themselves only wait for the next event, tick or command;
  a run is a sequence of these steps.
\<close>

section \<open>Observed addresses\<close>

definition is_external_ip :: "surroundings \<Rightarrow> ip_addr \<Rightarrow> node \<Rightarrow> bool" where
  "is_external_ip S ip nd =
     (if ip \<in> set (nd_external_ips nd) then True
      else if is_loopback ip then False
      else case su_ips S of Some local_ips \<Rightarrow> ip \<notin> set local_ips | None \<Rightarrow> True)"

text \<open>The formatted text is the printed form of the two components.\<close>

definition candidate_for :: "crates \<Rightarrow> ip_addr \<Rightarrow> node \<Rightarrow> multiaddr option" where
  "candidate_for E ip nd =
     (if nd_listen_port nd = 0 then None
      else
        (let p = (case ip of V4 a \<Rightarrow> Ip4 a | V6 a \<Rightarrow> Ip6 a) in
         ma_from_str E (ma_to_string E (Multiaddr [p, Tcp (nd_listen_port nd)]))))"

definition request_dial_back :: "crates \<Rightarrow> ambient \<Rightarrow> multiaddr \<Rightarrow> node \<Rightarrow> node option" where
  "request_dial_back E A addr nd =
     (case hm_get (nd_candidates nd) addr of
        None \<Rightarrow> Some nd
      | Some c \<Rightarrow>
          (let prober = (if node_has_session (cd_prober c) nd then Some (cd_prober c)
             else case session_peers (nd_session nd) of [] \<Rightarrow> None | p # _ \<Rightarrow> Some p) in
           case prober of
             None \<Rightarrow> Some nd
           | Some p \<Rightarrow>
               map_option (\<lambda>b. nd\<lparr>nd_candidates := hm_insert addr (c\<lparr>cd_prober := p\<rparr>) (nd_candidates nd),
                                  nd_session := b\<rparr>)
                 (send_dial_back_req E A p addr (nd_session nd))))"

definition on_observed_addr ::
  "crates \<Rightarrow> surroundings \<Rightarrow> peer_id \<Rightarrow> ip_addr \<Rightarrow> u16 \<Rightarrow> node \<Rightarrow> node option" where
  "on_observed_addr E S peer ip source_port nd =
     (if \<not> is_external_ip S ip nd then Some nd
      else case candidate_for E ip nd of
        None \<Rightarrow> Some nd
      | Some addr \<Rightarrow>
     if ip \<notin> set (nd_external_ips nd) \<and> addr \<in> set (nd_current_addrs nd) then Some nd
     else
       (let skip = (case hm_get (nd_candidates nd) addr of
              None \<Rightarrow> False
            | Some c \<Rightarrow>
                (case cd_state c of
                   CandValidated _ \<Rightarrow> True
                 | CandPending _ \<Rightarrow> True
                 | CandRejected attempts \<Rightarrow> attempts \<ge> MAX_VALIDATION_ATTEMPTS)) in
        if skip then Some nd
        else request_dial_back E (su_amb S 0) addr
          (nd\<lparr>nd_candidates := hm_insert addr \<lparr>cd_state = CandPending (su_now S), cd_prober = peer\<rparr>
                (nd_candidates nd)\<rparr>)))"

definition on_dial_back_req :: "surroundings \<Rightarrow> peer_id \<Rightarrow> multiaddr \<Rightarrow> node \<Rightarrow> node" where
  "on_dial_back_req S peer addr nd =
     (if hm_contains (nd_pending_probes nd) peer then nd
      else nd\<lparr>nd_pending_probes := hm_insert peer \<lparr>pp_addr = addr, pp_since = su_now S\<rparr>
                (nd_pending_probes nd),
              nd_session := connect_probe addr (nd_session nd)\<rparr>)"

text \<open>A rejection counts on from an earlier one; the addition may overflow.\<close>

definition reject_state :: "crates \<Rightarrow> candidate_state \<Rightarrow> candidate_state option" where
  "reject_state E st =
     (case st of
        CandRejected attempts \<Rightarrow> map_option CandRejected (plain_add (overflow_checks E) attempts 1)
      | _ \<Rightarrow> Some (CandRejected 1))"

definition reject_candidate :: "crates \<Rightarrow> multiaddr \<Rightarrow> candidate \<Rightarrow> node \<Rightarrow> node option" where
  "reject_candidate E addr c nd =
     map_option (\<lambda>st. nd\<lparr>nd_candidates := hm_insert addr (c\<lparr>cd_state := st\<rparr>) (nd_candidates nd),
         nd_validated_public_addrs := filter (\<lambda>a. a \<noteq> addr) (nd_validated_public_addrs nd)\<rparr>)
       (reject_state E (cd_state c))"

definition on_dial_back_res ::
  "crates \<Rightarrow> record_json \<Rightarrow> surroundings \<Rightarrow> peer_id \<Rightarrow> multiaddr \<Rightarrow> bool \<Rightarrow> node \<Rightarrow> node option" where
  "on_dial_back_res E J S peer addr rch nd =
     (case hm_get (nd_candidates nd) addr of
        None \<Rightarrow> Some nd
      | Some c \<Rightarrow>
          if cd_prober c \<noteq> peer then Some nd
          else if rch then
            (case cd_state c of
               CandValidated _ \<Rightarrow> Some nd
             | _ \<Rightarrow>
                 publish_record E J S
                   (nd\<lparr>nd_candidates := hm_insert addr (c\<lparr>cd_state := CandValidated (su_now S)\<rparr>)
                         (nd_candidates nd),
                       nd_validated_public_addrs := push_new [addr] (nd_validated_public_addrs nd)\<rparr>))
          else
            (case reject_candidate E addr c nd of
               None \<Rightarrow> None
             | Some nd1 \<Rightarrow> publish_record E J S nd1))"

definition report_probe ::
  "crates \<Rightarrow> ambient \<Rightarrow> peer_id \<Rightarrow> multiaddr \<Rightarrow> bool \<Rightarrow> node \<Rightarrow> node option" where
  "report_probe E A peer addr rch nd =
     (let nd1 = nd\<lparr>nd_pending_probes := hm_remove peer (nd_pending_probes nd)\<rparr> in
      map_option (\<lambda>b. nd1\<lparr>nd_session := b\<rparr>)
        (send_dial_back_res E A peer addr rch (nd_session nd1)))"

definition handle_probe_failure ::
  "crates \<Rightarrow> surroundings \<Rightarrow> multiaddr list \<Rightarrow> node \<Rightarrow> node option" where
  "handle_probe_failure E S failed nd =
     (let matched = map (\<lambda>(peer, p). (peer, pp_addr p))
            (filter (\<lambda>(_, p). pp_addr p \<in> set failed) (nd_pending_probes nd)) in
      for_each (\<lambda>i (probed, addr). report_probe E (su_amb S i) probed addr False) 0 matched nd)"

text \<open>The three passes of \<open>public_addr_maintenance\<close>; an \<open>expect("present")\<close> that fails is \<open>None\<close>.\<close>

definition expire_probe :: "crates \<Rightarrow> ambient \<Rightarrow> peer_id \<Rightarrow> node \<Rightarrow> node option" where
  "expire_probe E A peer nd =
     (case hm_get (nd_pending_probes nd) peer of
        None \<Rightarrow> None
      | Some p \<Rightarrow> report_probe E A peer (pp_addr p) False nd)"

definition expire_candidate :: "crates \<Rightarrow> multiaddr \<Rightarrow> node \<Rightarrow> node option" where
  "expire_candidate E addr nd =
     (case hm_get (nd_candidates nd) addr of
        None \<Rightarrow> None
      | Some c \<Rightarrow> reject_candidate E addr c nd)"

definition renew_candidate :: "instant \<Rightarrow> multiaddr \<Rightarrow> node \<Rightarrow> node option" where
  "renew_candidate now addr nd =
     (case hm_get (nd_candidates nd) addr of
        None \<Rightarrow> None
      | Some c \<Rightarrow>
          Some (nd\<lparr>nd_candidates := hm_insert addr (c\<lparr>cd_state := CandPending now\<rparr>) (nd_candidates nd)\<rparr>))"

definition probe_expired :: "instant \<Rightarrow> pending_probe \<Rightarrow> bool" where
  "probe_expired now p \<longleftrightarrow> duration_since now (pp_since p) \<ge> PROBE_TIMEOUT"

fun validation_expired :: "instant \<Rightarrow> candidate_state \<Rightarrow> bool" where
  "validation_expired now (CandPending since) \<longleftrightarrow> duration_since now since \<ge> VALIDATION_TIMEOUT"
| "validation_expired now _ \<longleftrightarrow> False"

fun revalidation_due :: "instant \<Rightarrow> candidate_state \<Rightarrow> bool" where
  "revalidation_due now (CandValidated since) \<longleftrightarrow>
     duration_since now since \<ge> PUBLIC_REVALIDATE_INTERVAL"
| "revalidation_due now _ \<longleftrightarrow> False"

definition public_addr_maintenance :: "crates \<Rightarrow> surroundings \<Rightarrow> node \<Rightarrow> node option" where
  "public_addr_maintenance E S nd =
     (let now = su_now S;
          expired = map fst (filter (\<lambda>(_, p). probe_expired now p) (nd_pending_probes nd)) in
      case for_each (\<lambda>i peer. expire_probe E (su_amb S i) peer) 0 expired nd of
        None \<Rightarrow> None
      | Some nd1 \<Rightarrow>
     (let timed_out = map fst (filter (\<lambda>(_, c). validation_expired now (cd_state c)) (nd_candidates nd1)) in
      case for_each (\<lambda>_ addr. expire_candidate E addr) 0 timed_out nd1 of
        None \<Rightarrow> None
      | Some nd2 \<Rightarrow>
     (let due = map fst (filter (\<lambda>(_, c). revalidation_due now (cd_state c)) (nd_candidates nd2)) in
      case for_each (\<lambda>_ addr. renew_candidate now addr) 0 due nd2 of
        None \<Rightarrow> None
      | Some nd3 \<Rightarrow>
          for_each (\<lambda>i addr. request_dial_back E (su_amb S (length expired + i)) addr) 0 due nd3)))"

section \<open>Session events\<close>

definition record_history ::
  "crates \<Rightarrow> surroundings \<Rightarrow> history_kind \<Rightarrow> node \<Rightarrow> node" where
  "record_history E S entry nd =
     nd\<lparr>nd_storage := fst (append_history (su_faults S) (am_clock (su_amb S 0) 0) entry (nd_storage nd))\<rparr>"

fun on_session_event ::
  "crates \<Rightarrow> record_json \<Rightarrow> surroundings \<Rightarrow> behaviour_event \<Rightarrow> node \<Rightarrow> node option" where
  "on_session_event E J S (SessionEstablished peer_id conn res) nd =
     (let nd1 = nd\<lparr>nd_had_session := hs_insert peer_id (nd_had_session nd),
                   nd_dialing := hs_remove peer_id (nd_dialing nd)\<rparr> in
      map_option (record_history E S (Sent (pid_to_base58 E peer_id) 0 ''session-established''))
        (case hm_get (nd_pending_probes nd1) peer_id of
           None \<Rightarrow> Some nd1
         | Some probe \<Rightarrow> report_probe E (su_amb S 0) peer_id (pp_addr probe) True nd1))"
| "on_session_event E J S (HandshakeFailed peer_id error) nd =
     (let transport = (case transport_of peer_id (nd_session nd) of None \<Rightarrow> peer_id | Some t \<Rightarrow> t) in
      Some (nd\<lparr>nd_orders := nd_orders nd @ [DisconnectPeer transport]\<rparr>))"
| "on_session_event E J S (MessageReceived peer_id msg_id body ts_ms) nd =
     Some (record_history E S (Received (pid_to_base58 E peer_id) msg_id) nd)"
| "on_session_event E J S (AckReceived peer_id msg_id ack_seq) nd =
     Some (record_history E S (Sent (pid_to_base58 E peer_id) msg_id ''delivered'') nd)"
| "on_session_event E J S (ObservedAddrReported peer_id ip source_port) nd =
     on_observed_addr E S peer_id ip source_port nd"
| "on_session_event E J S (DialBackRequested peer_id addr) nd =
     Some (on_dial_back_req S peer_id addr nd)"
| "on_session_event E J S (DialBackResolved peer_id addr rch) nd =
     on_dial_back_res E J S peer_id addr rch nd"
| "on_session_event E J S (PeerConnected peer_id) nd =
     Some (nd\<lparr>nd_connected := hs_insert peer_id (nd_connected nd)\<rparr>)"
| "on_session_event E J S (PeerDisconnected peer_id) nd =
     (let nd1 = nd\<lparr>nd_connected := hs_remove peer_id (nd_connected nd),
                   nd_pending_probes := hm_remove peer_id (nd_pending_probes nd)\<rparr> in
      if peer_id \<in> set (nd_had_session nd1)
      then Some (schedule_reconnect S peer_id
             (nd1\<lparr>nd_had_session := hs_remove peer_id (nd_had_session nd1)\<rparr>))
      else Some nd1)"

section \<open>Maintenance\<close>

fun fire_dials :: "instant \<Rightarrow> retry_dial list \<Rightarrow> node \<Rightarrow> node" where
  "fire_dials now [] nd = nd\<lparr>nd_retry_dials := []\<rparr>"
| "fire_dials now (d # ds) nd =
     (if rd_next_at d > now then nd\<lparr>nd_retry_dials := d # ds\<rparr>
      else if node_has_session (rd_peer d) nd \<or> rd_peer d \<in> set (nd_dialing nd)
      then fire_dials now ds nd
      else fire_dials now ds (dial_peer (rd_peer d) (rd_transport d) (rd_addrs d) nd))"

fun fire_lookups ::
  "crates \<Rightarrow> (nat \<Rightarrow> query_id) \<Rightarrow> instant \<Rightarrow> nat \<Rightarrow> lookup_retry list \<Rightarrow> node \<Rightarrow> node" where
  "fire_lookups E ids now i [] nd = nd\<lparr>nd_retry_lookups := []\<rparr>"
| "fire_lookups E ids now i (r # rs) nd =
     (if lr_next_at r > now then nd\<lparr>nd_retry_lookups := r # rs\<rparr>
      else fire_lookups E ids now (Suc i) rs (issue_lookup E (ids i) (lr_peer r) (lr_attempts r) nd))"

definition dial_bootstrap :: "crates \<Rightarrow> bootstrap_peer \<Rightarrow> node \<Rightarrow> node option" where
  "dial_bootstrap E bp nd =
     (case bootstrap_peer_id E bp of
        None \<Rightarrow> None
      | Some p \<Rightarrow>
          (let addrs = bootstrap_multiaddrs E bp in
           if p \<notin> set (nd_bootstrap_mapped nd) \<and> (\<forall>a \<in> set addrs. a \<notin> set (nd_bootstrap_dialing nd))
           then Some (nd\<lparr>nd_bootstrap_dialing := fold hs_insert addrs (nd_bootstrap_dialing nd),
                         nd_session := connect_unknown addrs (nd_session nd)\<rparr>)
           else Some nd))"

definition bootstrap_maintenance :: "crates \<Rightarrow> surroundings \<Rightarrow> node \<Rightarrow> node option" where
  "bootstrap_maintenance E S nd =
     (if su_connected S = 0 \<and> duration_since (su_now S) (nd_last_bootstrap nd) \<ge> secs 5
      then for_each (\<lambda>_. dial_bootstrap E) 0 (nd_bootstrap_pending nd)
             (nd\<lparr>nd_last_bootstrap := su_now S\<rparr>)
      else Some nd)"

text \<open>The relay is dialled once; its Peer ID is parsed for the log.\<close>

definition relay_maintenance :: "crates \<Rightarrow> node \<Rightarrow> node option" where
  "relay_maintenance E nd =
     (if nd_relay_transport nd = None \<and> \<not> nd_relay_dialing nd
      then case nd_relay nd of
        None \<Rightarrow> Some nd
      | Some bp \<Rightarrow>
          Some (nd\<lparr>nd_relay_dialing := True,
                   nd_session := connect_unknown (bootstrap_multiaddrs E bp) (nd_session nd)\<rparr>)
      else Some nd)"

definition maintenance :: "crates \<Rightarrow> record_json \<Rightarrow> surroundings \<Rightarrow> node \<Rightarrow> node option" where
  "maintenance E J S nd =
     (case refresh_local_addresses E J S nd of
        None \<Rightarrow> None
      | Some nd1 \<Rightarrow>
     (case (if duration_since (su_now S) (nd_last_publish nd1) \<ge> PUBLISH_INTERVAL
            then publish_record E J S nd1 else Some nd1) of
        None \<Rightarrow> None
      | Some nd2 \<Rightarrow>
     (case public_addr_maintenance E S nd2 of
        None \<Rightarrow> None
      | Some nd3 \<Rightarrow>
          (let nd4 = fire_dials (su_now S) (nd_retry_dials nd3) nd3;
               nd5 = fire_lookups E (su_query S) (su_now S) 0 (nd_retry_lookups nd4) nd4 in
           case bootstrap_maintenance E S nd5 of
             None \<Rightarrow> None
           | Some nd6 \<Rightarrow> relay_maintenance E nd6))))"

section \<open>Swarm events\<close>

text \<open>The endpoint of a connection, with the answer of \<open>is_relayed()\<close>.\<close>

datatype endpoint = Dialer multiaddr bool | Listener bool

fun is_relayed :: "endpoint \<Rightarrow> bool" where
  "is_relayed (Dialer _ r) = r"
| "is_relayed (Listener r) = r"

datatype nat_status = NatPublic | NatPrivate | NatUnknown

fun nat_text :: "nat_status \<Rightarrow> string" where
  "nat_text NatPublic = ''public''"
| "nat_text NatPrivate = ''private''"
| "nat_text NatUnknown = ''unknown''"

datatype dial_error = DialTransport "multiaddr list" | WrongPeerId | OtherDialError

text \<open>The events \<open>handle_event\<close> distinguishes; those it only logs are one constructor.\<close>

datatype swarm_event =
  SwSession behaviour_event
| SwKad kad_event
| SwAutonatStatus nat_status
| SwDcutr peer_id bool
| SwNewListenAddr multiaddr
| SwExpiredListenAddr multiaddr
| SwConnectionEstablished peer_id endpoint
| SwConnectionClosed peer_id endpoint nat
| SwOutgoingConnectionError "peer_id option" dial_error
| SwLoggedOnly

definition on_dcutr :: "peer_id \<Rightarrow> bool \<Rightarrow> node \<Rightarrow> node" where
  "on_dcutr peer success nd =
     (if success then
        (let nd1 = nd\<lparr>nd_traversal_attempts := hm_remove peer (nd_traversal_attempts nd)\<rparr> in
         if hm_get (nd_traversal_attempts nd) peer = None
         then nd1\<lparr>nd_peer_paths := hm_insert peer Direct (nd_peer_paths nd1)\<rparr> else nd1)
      else
        (let attempts = (case hm_get (nd_traversal_attempts nd) peer of None \<Rightarrow> 0 | Some n \<Rightarrow> n) + 1 in
         if attempts \<ge> MAX_TRAVERSAL_ATTEMPTS
         then nd\<lparr>nd_traversal_attempts := hm_remove peer (nd_traversal_attempts nd),
                 nd_peer_paths := hm_insert peer Failed (nd_peer_paths nd)\<rparr>
         else nd\<lparr>nd_traversal_attempts := hm_insert peer attempts (nd_traversal_attempts nd)\<rparr>))"

definition ma_with :: "multiaddr \<Rightarrow> protocol \<Rightarrow> multiaddr" where
  "ma_with a p = Multiaddr (ma_iter a @ [p])"

text \<open>A dial to the relay reveals its transport Peer ID: reserve a circuit on each address.\<close>

definition resolve_relay :: "crates \<Rightarrow> peer_id \<Rightarrow> endpoint \<Rightarrow> node \<Rightarrow> node option" where
  "resolve_relay E peer ep nd =
     (case ep of
        Listener _ \<Rightarrow> Some nd
      | Dialer address _ \<Rightarrow>
          if nd_relay_transport nd \<noteq> None then Some nd
          else case nd_relay nd of
            None \<Rightarrow> Some nd
          | Some bp \<Rightarrow>
              if address \<notin> set (bootstrap_multiaddrs E bp) then Some nd
              else case bootstrap_peer_id E bp of
                None \<Rightarrow> None
              | Some device \<Rightarrow>
                  Some (nd\<lparr>nd_relay_transport := Some peer, nd_relay_dialing := False,
                           nd_session := map_transport device peer (nd_session nd),
                           nd_orders := nd_orders nd @
                             map (\<lambda>a. ListenOn (ma_with (ma_with a (P2p peer)) P2pCircuit))
                               (bootstrap_multiaddrs E bp)\<rparr>))"

text \<open>A bootstrap dial reveals the transport Peer ID behind the device.\<close>

definition resolve_bootstrap ::
  "crates \<Rightarrow> record_json \<Rightarrow> surroundings \<Rightarrow> peer_id \<Rightarrow> endpoint \<Rightarrow> node \<Rightarrow> node option" where
  "resolve_bootstrap E J S peer ep nd =
     (case ep of
        Listener _ \<Rightarrow> Some nd
      | Dialer address _ \<Rightarrow>
          (case find (\<lambda>bp. address \<in> set (bootstrap_multiaddrs E bp)) (nd_bootstrap_pending nd) of
             None \<Rightarrow> Some nd
           | Some bp \<Rightarrow>
               (case bootstrap_peer_id E bp of
                  None \<Rightarrow> None
                | Some device \<Rightarrow>
                    if device \<in> set (nd_bootstrap_mapped nd) then Some nd
                    else
                      publish_record E J S (bootstrap_kad S
                        (nd\<lparr>nd_bootstrap_mapped := hs_insert device (nd_bootstrap_mapped nd),
                            nd_bootstrap_dialing := filter
                              (\<lambda>a. a \<notin> set (bootstrap_multiaddrs E bp)) (nd_bootstrap_dialing nd),
                            nd_session := map_transport device peer (nd_session nd),
                            nd_orders := nd_orders nd @ [KadAddAddress peer address]\<rparr>)))))"

definition on_connection_opened ::
  "crates \<Rightarrow> record_json \<Rightarrow> surroundings \<Rightarrow> peer_id \<Rightarrow> endpoint \<Rightarrow> node \<Rightarrow> node option" where
  "on_connection_opened E J S peer ep nd =
     (case resolve_relay E peer ep nd of
        None \<Rightarrow> None
      | Some nd1 \<Rightarrow>
          map_option (\<lambda>nd2. nd2\<lparr>nd_peer_paths
              := hm_insert peer (if is_relayed ep then Relayed else Direct) (nd_peer_paths nd2)\<rparr>)
            (resolve_bootstrap E J S peer ep nd1))"

definition on_connection_lost :: "peer_id \<Rightarrow> endpoint \<Rightarrow> nat \<Rightarrow> node \<Rightarrow> node" where
  "on_connection_lost peer ep num_established nd =
     (let nd1 = (case device_of peer (nd_session nd) of
                   None \<Rightarrow> nd
                 | Some device \<Rightarrow> nd\<lparr>nd_dialing := hs_remove device (nd_dialing nd)\<rparr>);
          nd2 = (case ep of
                   Dialer address _ \<Rightarrow>
                     nd1\<lparr>nd_bootstrap_dialing := hs_remove address (nd_bootstrap_dialing nd1)\<rparr>
                 | Listener _ \<Rightarrow> nd1) in
      if num_established = 0
      then nd2\<lparr>nd_peer_paths := hm_insert peer Disconnected (nd_peer_paths nd2)\<rparr> else nd2)"

text \<open>A failed dial with no known peer was a bootstrap, relay or probe dial.\<close>

definition on_peerless_failure ::
  "crates \<Rightarrow> surroundings \<Rightarrow> multiaddr list \<Rightarrow> node \<Rightarrow> node option" where
  "on_peerless_failure E S failed nd =
     (let nd1 = nd\<lparr>nd_bootstrap_dialing := fold hs_remove failed (nd_bootstrap_dialing nd)\<rparr>;
          nd2 = (case nd_relay nd1 of
                   None \<Rightarrow> nd1
                 | Some bp \<Rightarrow>
                     if \<exists>a \<in> set failed. a \<in> set (bootstrap_multiaddrs E bp)
                     then nd1\<lparr>nd_relay_dialing := False\<rparr> else nd1) in
      handle_probe_failure E S failed nd2)"

text \<open>What is known of the addressed peer is dropped where the dial disproved it.\<close>

definition forget_failed ::
  "surroundings \<Rightarrow> peer_id option \<Rightarrow> peer_id option \<Rightarrow> multiaddr list \<Rightarrow> node \<Rightarrow> node" where
  "forget_failed S peer device failed nd =
     (let nd1 = (case peer of
                   None \<Rightarrow> nd
                 | Some t \<Rightarrow> nd\<lparr>nd_orders := nd_orders nd @ map (KadRemoveAddress t) failed\<rparr>) in
      case device of
        None \<Rightarrow> nd1
      | Some d \<Rightarrow>
          (let nd2 = (if failed = [] then nd1
                      else schedule_rediscovery S d LOOKUP_RETRY_DELAY (invalidate_candidates d failed nd1)) in
           nd2\<lparr>nd_dialing := hs_remove d (nd_dialing nd2)\<rparr>))"

definition on_dial_failed ::
  "crates \<Rightarrow> surroundings \<Rightarrow> peer_id option \<Rightarrow> dial_error \<Rightarrow> node \<Rightarrow> node option" where
  "on_dial_failed E S peer err nd =
     (let device = (case peer of None \<Rightarrow> None | Some t \<Rightarrow> device_of t (nd_session nd));
          failed = (case err of DialTransport as \<Rightarrow> as | _ \<Rightarrow> []);
          nd1 = (if err = WrongPeerId
                 then (case device of
                         None \<Rightarrow> nd
                       | Some d \<Rightarrow> nd\<lparr>nd_records := hm_remove d (nd_records nd)\<rparr>)
                 else nd) in
      map_option (forget_failed S peer device failed)
        (if peer = None then on_peerless_failure E S failed nd1 else Some nd1))"

definition on_autonat :: "nat_status \<Rightarrow> node \<Rightarrow> node" where
  "on_autonat st nd = nd\<lparr>nd_nat_status := nat_text st\<rparr>"

definition on_new_listen_addr ::
  "crates \<Rightarrow> record_json \<Rightarrow> surroundings \<Rightarrow> multiaddr \<Rightarrow> node \<Rightarrow> node option" where
  "on_new_listen_addr E J S address nd =
     (let nd1 = (if nd_relay_server nd
                 then nd\<lparr>nd_orders := nd_orders nd @ [AddExternalAddress address]\<rparr> else nd) in
      case note_listen_addr address nd1 of
        (nd2, changed) \<Rightarrow> if changed then publish_record E J S nd2 else Some nd2)"

definition on_expired_listen_addr ::
  "crates \<Rightarrow> record_json \<Rightarrow> surroundings \<Rightarrow> multiaddr \<Rightarrow> node \<Rightarrow> node option" where
  "on_expired_listen_addr E J S address nd =
     (case note_listen_addr_gone address nd of
        (nd1, changed) \<Rightarrow> if changed then publish_record E J S nd1 else Some nd1)"

fun handle_event :: "crates \<Rightarrow> record_json \<Rightarrow> surroundings \<Rightarrow> swarm_event \<Rightarrow> node \<Rightarrow> node option" where
  "handle_event E J S (SwSession ev) nd = on_session_event E J S ev nd"
| "handle_event E J S (SwKad ev) nd = on_kad_event E J S ev nd"
| "handle_event E J S (SwAutonatStatus st) nd = Some (on_autonat st nd)"
| "handle_event E J S (SwDcutr peer success) nd = Some (on_dcutr peer success nd)"
| "handle_event E J S (SwNewListenAddr address) nd = on_new_listen_addr E J S address nd"
| "handle_event E J S (SwExpiredListenAddr address) nd = on_expired_listen_addr E J S address nd"
| "handle_event E J S (SwConnectionEstablished peer ep) nd = on_connection_opened E J S peer ep nd"
| "handle_event E J S (SwConnectionClosed peer ep n) nd = Some (on_connection_lost peer ep n nd)"
| "handle_event E J S (SwOutgoingConnectionError peer err) nd = on_dial_failed E S peer err nd"
| "handle_event E J S SwLoggedOnly nd = Some nd"

end
