(* ===== verification/Behaviour_Inv.thy ===== *)
theory Behaviour_Inv
  imports Behaviour
begin

text \<open>
  The behaviour as a transition system: any of its operations, in any order, with any
  arguments and surroundings.  A configuration pairs the state with the frames
  the handlers have delivered so far, each with the connection it came from.  The invariant
  ties every running handshake to the frames of its own connection and every
  session to an authenticated handshake result.
\<close>

section \<open>The operations as one step function\<close>

datatype bh_op =
  OpSend peer_id string
| OpConnect peer_id peer_id "multiaddr list"
| OpConnectUnknown "multiaddr list"
| OpConnectProbe multiaddr
| OpSendObserved peer_id ip_addr u16
| OpSendDialReq peer_id multiaddr
| OpSendDialRes peer_id multiaddr bool
| OpMapTransport peer_id peer_id
| OpHandler peer_id connection_id handler_to_behaviour
| OpSwarm from_swarm
| OpPoll

fun bh_step :: "crates \<Rightarrow> ambient \<Rightarrow> bh_op \<Rightarrow> behaviour \<Rightarrow> behaviour option" where
  "bh_step E A (OpSend p body) b = map_option fst (send_message E A p body b)"
| "bh_step E A (OpConnect d t as) b = Some (connect d t as b)"
| "bh_step E A (OpConnectUnknown as) b = Some (connect_unknown as b)"
| "bh_step E A (OpConnectProbe a) b = Some (connect_probe a b)"
| "bh_step E A (OpSendObserved p ip port) b = send_observed_addr E A p ip port b"
| "bh_step E A (OpSendDialReq p a) b = send_dial_back_req E A p a b"
| "bh_step E A (OpSendDialRes p a r) b = send_dial_back_res E A p a r b"
| "bh_step E A (OpMapTransport d t) b = Some (map_transport d t b)"
| "bh_step E A (OpHandler t c ev) b = on_handler_event E A t c ev b"
| "bh_step E A (OpSwarm ev) b = Some (on_swarm_event ev b)"
| "bh_step E A OpPoll b = Some (fst (bh_poll (am_instant A) b))"

text \<open>The frame an operation delivers, if any.\<close>

fun delivered :: "bh_op \<Rightarrow> (peer_id \<times> connection_id \<times> frame) list" where
  "delivered (OpHandler t c (FrameReceived f)) = [(t, c, f)]"
| "delivered _ = []"

type_synonym bh_config = "(peer_id \<times> connection_id \<times> frame) list \<times> behaviour"

definition bh_init :: "device_identity \<Rightarrow> bh_config \<Rightarrow> bool" where
  "bh_init d c \<longleftrightarrow> c = ([], behaviour_new d)"

definition bh_next :: "crates \<Rightarrow> bh_config \<Rightarrow> bh_config \<Rightarrow> bool" where
  "bh_next E c c' \<longleftrightarrow>
     (\<exists>A op. fst c' = fst c @ delivered op \<and> bh_step E A op (snd c) = Some (snd c'))"

section \<open>The invariant\<close>

definition conn_frames ::
  "peer_id \<Rightarrow> connection_id \<Rightarrow> (peer_id \<times> connection_id \<times> frame) list \<Rightarrow> frame set" where
  "conn_frames t c hist = {f. (t, c, f) \<in> set hist}"

text \<open>A handshake result for which a set of received frames vouches: the peer's Hello is among
  them, its key hashes to the reported identity, and a signature among them verifies
  under that key over the transcript from which the session keys are derived.\<close>

definition vouched ::
  "crates \<Rightarrow> device_identity \<Rightarrow> frame set \<Rightarrow> handshake_result \<Rightarrow> bool" where
  "vouched E d F res \<longleftrightarrow>
     (\<exists>hello auth ikm t.
        hello \<in> F \<and> fr_msg_type hello = Hello \<and>
        decode_hello E (fr_payload hello) = Some (hr_peer_hello res) \<and>
        peer_id_of E (ph_pubkey (hr_peer_hello res)) = Some (hr_peer_id res) \<and>
        hr_my_id res = di_peer_id d \<and>
        auth \<in> F \<and> fr_msg_type auth = Auth \<and>
        mldsa_verify E (ph_pubkey (hr_peer_hello res)) (AUTH_LABEL @ t) (fr_payload auth) \<and>
        derive_session_keys E ikm t = Some (hr_keys res) \<and>
        (hr_send_key res, hr_recv_key res)
          = select_keys E (hr_keys res) (di_peer_id d) (hr_peer_id res))"

definition session_ok ::
  "crates \<Rightarrow> device_identity \<Rightarrow> frame set \<Rightarrow> peer_id \<Rightarrow> session \<Rightarrow> bool" where
  "session_ok E d F device s \<longleftrightarrow>
     (\<exists>res. vouched E d F res \<and> hr_peer_id res = device \<and>
        reachable (\<lambda>x. x = session_new E res) (session_next E) s \<and> ss_seq_violations s = 0)"

definition handshake_ok ::
  "crates \<Rightarrow> device_identity \<Rightarrow> frame set \<Rightarrow> handshake \<times> peer_id option \<Rightarrow> bool" where
  "handshake_ok E d F he \<longleftrightarrow> (\<exists>fs. set fs \<subseteq> F \<and> hs_inv E d (snd he) (fs, fst he))"

definition bh_inv :: "crates \<Rightarrow> device_identity \<Rightarrow> bh_config \<Rightarrow> bool" where
  "bh_inv E d c \<longleftrightarrow>
     bh_identity (snd c) = d \<and> hm_wf (bh_handshakes (snd c)) \<and>
     (\<forall>k he. hm_get (bh_handshakes (snd c)) k = Some he \<longrightarrow>
        handshake_ok E d (conn_frames (fst k) (snd k) (fst c)) he) \<and>
     (\<forall>device t cn s. hm_get (bh_sessions (snd c)) device = Some (t, cn, s) \<longrightarrow>
        session_ok E d (conn_frames t cn (fst c)) device s)"

text \<open>The same per operation, with the received frames of every connection as a parameter.\<close>

definition tables_ok ::
  "crates \<Rightarrow> (peer_id \<Rightarrow> connection_id \<Rightarrow> frame set) \<Rightarrow> device_identity \<Rightarrow> behaviour \<Rightarrow> bool" where
  "tables_ok E F d b \<longleftrightarrow>
     bh_identity b = d \<and> hm_wf (bh_handshakes b) \<and>
     (\<forall>t cn he. hm_get (bh_handshakes b) (t, cn) = Some he \<longrightarrow> handshake_ok E d (F t cn) he) \<and>
     (\<forall>device t cn s. hm_get (bh_sessions b) device = Some (t, cn, s) \<longrightarrow>
        session_ok E d (F t cn) device s)"

lemma bh_inv_tables: "bh_inv E d (hist, b) \<longleftrightarrow> tables_ok E (\<lambda>t cn. conn_frames t cn hist) d b"
  by (auto simp: bh_inv_def tables_ok_def)

section \<open>Sessions stay authenticated\<close>

lemma vouched_mono: "vouched E d F res \<Longrightarrow> F \<subseteq> G \<Longrightarrow> vouched E d G res"
  unfolding vouched_def by blast

lemma session_ok_mono: "session_ok E d F dev s \<Longrightarrow> F \<subseteq> G \<Longrightarrow> session_ok E d G dev s"
  unfolding session_ok_def using vouched_mono by blast

lemma handshake_ok_mono: "handshake_ok E d F he \<Longrightarrow> F \<subseteq> G \<Longrightarrow> handshake_ok E d G he"
  unfolding handshake_ok_def by blast

lemma tables_ok_mono:
  assumes "tables_ok E F d b" and "\<And>t cn. F t cn \<subseteq> G t cn"
  shows "tables_ok E G d b"
  using assms unfolding tables_ok_def by (meson handshake_ok_mono session_ok_mono)

lemma session_ok_send:
  assumes "session_ok E d F dev s" and "session_send E q s = Some (s', f)"
  shows "session_ok E d F dev s'"
proof -
  from assms(1) obtain res where res: "vouched E d F res" "hr_peer_id res = dev"
    "reachable (\<lambda>x. x = session_new E res) (session_next E) s" "ss_seq_violations s = 0"
    by (auto simp: session_ok_def)
  have "session_next E s s'" using assms(2) unfolding session_next_def by blast
  then have "reachable (\<lambda>x. x = session_new E res) (session_next E) s'"
    using res(3) by (rule reachable.reach_step [rotated])
  moreover have "ss_seq_violations s' = 0"
    using session_send_seq(3) [OF assms(2)] res(4)
    by (metis session.select_convs(8) session.surjective session.update_convs(6))
  ultimately show ?thesis using res by (auto simp: session_ok_def)
qed

lemma session_ok_receive:
  assumes "session_ok E d F dev s" and "handle_frame E f s = Some (s', Inr i)"
  shows "session_ok E d F dev s'"
proof -
  from assms(1) obtain res where res: "vouched E d F res" "hr_peer_id res = dev"
    "reachable (\<lambda>x. x = session_new E res) (session_next E) s" "ss_seq_violations s = 0"
    by (auto simp: session_ok_def)
  have "session_next E s s'" using assms(2) by (auto simp: session_next_def)
  then have "reachable (\<lambda>x. x = session_new E res) (session_next E) s'"
    using res(3) by (rule reachable.reach_step [rotated])
  moreover have "ss_seq_violations s' = 0"
    using handle_frame_accepts(3) [OF assms(2)] res(4) by simp
  ultimately show ?thesis using res by (auto simp: session_ok_def)
qed

text \<open>Every way of sealing a frame is a send of the session.\<close>

lemma send_forms:
  "encrypt_message E body mid clk s = Some (s', Inr f) \<Longrightarrow>
     session_send E (OutMessage body mid, clk, rid) s = Some (s', f)"
  "encrypt_ack E i n clk rid s = Some (s', f) \<Longrightarrow> session_send E (OutAck i n, clk, rid) s = Some (s', f)"
  "encrypt_observed_addr E ip port rid s = Some (s', f) \<Longrightarrow>
     session_send E (OutObserved ip port, clk, rid) s = Some (s', f)"
  "encrypt_dial_back_req E a rid s = Some (s', f) \<Longrightarrow>
     session_send E (OutDialReq a, clk, rid) s = Some (s', f)"
  "encrypt_dial_back_res E a r rid s = Some (s', f) \<Longrightarrow>
     session_send E (OutDialRes a r, clk, rid) s = Some (s', f)"
  by simp_all

lemma encrypt_message_error: "encrypt_message E body mid clk s = Some (s', Inl e) \<Longrightarrow> s' = s"
  by (auto simp: encrypt_message_def Let_def split: if_splits option.splits)

text \<open>The tables under the elementary updates.\<close>

lemma tables_ok_other [simp]:
  "tables_ok E F d (push_back ev b) = tables_ok E F d b"
  "tables_ok E F d (notify_conn p c fs b) = tables_ok E F d b"
  "tables_ok E F d (map_transport dv t b) = tables_ok E F d b"
  "tables_ok E F d (observe_inbound p c a b) = tables_ok E F d b"
  "tables_ok E F d (b\<lparr>bh_pending_sends := ps\<rparr>) = tables_ok E F d b"
  "tables_ok E F d (b\<lparr>bh_peer_names := ns\<rparr>) = tables_ok E F d b"
  "tables_ok E F d (b\<lparr>bh_observed_addrs := os\<rparr>) = tables_ok E F d b"
  "tables_ok E F d (b\<lparr>bh_connected := cs\<rparr>) = tables_ok E F d b"
  "tables_ok E F d (b\<lparr>bh_queue := q\<rparr>) = tables_ok E F d b"
  by (simp_all add: tables_ok_def)

lemma tables_ok_set_session:
  "tables_ok E F d b \<Longrightarrow> session_ok E d (F t c) dv s \<Longrightarrow> tables_ok E F d (set_session dv t c s b)"
  by (auto simp: tables_ok_def)

lemma tables_ok_drop_session:
  "tables_ok E F d b \<Longrightarrow> tables_ok E F d (b\<lparr>bh_sessions := hm_remove dv (bh_sessions b)\<rparr>)"
  by (auto simp: tables_ok_def)

lemma tables_ok_put_handshake:
  "tables_ok E F d b \<Longrightarrow> handshake_ok E d (F t c) he \<Longrightarrow>
   tables_ok E F d (b\<lparr>bh_handshakes := hm_insert (t, c) he (bh_handshakes b)\<rparr>)"
  by (auto simp: tables_ok_def)

lemma tables_ok_drop_handshake:
  "tables_ok E F d b \<Longrightarrow> tables_ok E F d (b\<lparr>bh_handshakes := hm_remove k (bh_handshakes b)\<rparr>)"
  by (auto simp: tables_ok_def)

lemmas tables_ok_intros = tables_ok_set_session tables_ok_drop_session tables_ok_put_handshake
  tables_ok_drop_handshake

lemma tables_ok_sessionD:
  "tables_ok E F d b \<Longrightarrow> hm_get (bh_sessions b) dv = Some (t, c, s) \<Longrightarrow> session_ok E d (F t c) dv s"
  by (auto simp: tables_ok_def)

lemma tables_ok_handshakeD:
  "tables_ok E F d b \<Longrightarrow> hm_get (bh_handshakes b) (t, c) = Some he \<Longrightarrow> handshake_ok E d (F t c) he"
  unfolding tables_ok_def by blast

section \<open>Every operation keeps the tables\<close>

lemma send_message_ok:
  assumes "tables_ok E F d b" and "send_message E A p body b = Some (b', i)"
  shows "tables_ok E F d b'"
proof (cases "hm_get (bh_sessions b) p")
  case None
  then show ?thesis using assms by (auto simp: send_message_def Let_def)
next
  case (Some e)
  then obtain t c s where e: "hm_get (bh_sessions b) p = Some (t, c, s)" by (cases e) auto
  then obtain s' r where r: "encrypt_message E body (am_rid A) (am_clock A 0) s = Some (s', r)"
    using assms(2) by (auto simp: send_message_def Let_def split: option.splits)
  have "session_ok E d (F t c) p s'"
  proof (cases r)
    case (Inl x)
    then show ?thesis
      using r encrypt_message_error tables_ok_sessionD [OF assms(1) e] by blast
  next
    case (Inr f)
    then have "encrypt_message E body (am_rid A) (am_clock A 0) s = Some (s', Inr f)" using r by simp
    from session_ok_send [OF tables_ok_sessionD [OF assms(1) e] send_forms(1) [OF this]]
    show ?thesis .
  qed
  then have "tables_ok E F d (set_session p t c s' b)" by (rule tables_ok_set_session [OF assms(1)])
  then show ?thesis
    using assms(2) e r by (auto simp: send_message_def Let_def split: sum.splits)
qed

lemma send_sealed_ok:
  assumes "tables_ok E F d b" and "send_sealed seal p b = Some b'"
    and "\<And>s s' f. seal s = Some (s', f) \<Longrightarrow> \<exists>q. session_send E q s = Some (s', f)"
  shows "tables_ok E F d b'"
proof (cases "hm_get (bh_sessions b) p")
  case None
  then show ?thesis using assms by (simp add: send_sealed_def)
next
  case (Some e)
  then obtain t c s where e: "hm_get (bh_sessions b) p = Some (t, c, s)" by (cases e) auto
  then obtain s' f where f: "seal s = Some (s', f)" "b' = notify_conn t c [f] (set_session p t c s' b)"
    using assms(2) by (auto simp: send_sealed_def split: option.splits)
  then obtain q where "session_send E q s = Some (s', f)" using assms(3) by blast
  from session_ok_send [OF tables_ok_sessionD [OF assms(1) e] this]
  show ?thesis using f tables_ok_set_session [OF assms(1)] by simp
qed

lemma send_observed_addr_ok:
  "tables_ok E F d b \<Longrightarrow> send_observed_addr E A p ip port b = Some b' \<Longrightarrow> tables_ok E F d b'"
  unfolding send_observed_addr_def by (erule send_sealed_ok) (auto intro: send_forms(3))

lemma send_dial_back_req_ok:
  "tables_ok E F d b \<Longrightarrow> send_dial_back_req E A p a b = Some b' \<Longrightarrow> tables_ok E F d b'"
  unfolding send_dial_back_req_def by (erule send_sealed_ok) (auto intro: send_forms(4))

lemma send_dial_back_res_ok:
  "tables_ok E F d b \<Longrightarrow> send_dial_back_res E A p a r b = Some b' \<Longrightarrow> tables_ok E F d b'"
  unfolding send_dial_back_res_def by (erule send_sealed_ok) (auto intro: send_forms(5))

lemma seal_pending_ok:
  assumes "session_ok E d F dv s" and "seal_pending E clk q s = Some (s', fs)"
  shows "session_ok E d F dv s'"
  using assms
proof (induction q arbitrary: clk s fs)
  case Nil
  then show ?case by simp
next
  case (Cons m q)
  obtain mid body where m: "m = (mid, body)" by (cases m)
  from Cons.prems(2) obtain s1 r where r: "encrypt_message E body mid (clk 0) s = Some (s1, r)"
    by (auto simp: m split: option.splits)
  have "session_ok E d F dv s1"
  proof (cases r)
    case (Inl x)
    then show ?thesis using r Cons.prems(1) encrypt_message_error by blast
  next
    case (Inr f)
    then show ?thesis using r session_ok_send [OF Cons.prems(1) send_forms(1)] by blast
  qed
  moreover obtain fs1 where "seal_pending E (\<lambda>i. clk (Suc i)) q s1 = Some (s', fs1)"
    using Cons.prems(2) r by (auto simp: m split: sum.splits)
  ultimately show ?case by (rule Cons.IH)
qed

lemma flush_pending_ok:
  assumes "tables_ok E F d b" and "flush_pending_sends E A dv t c b = Some b'"
  shows "tables_ok E F d b'"
proof (cases "hm_get (bh_pending_sends b) dv = None \<or> hm_get (bh_sessions b) dv = None")
  case True
  then show ?thesis using assms
    by (auto simp: flush_pending_sends_def Let_def split: option.splits)
next
  case False
  then obtain q t0 c0 s where "hm_get (bh_pending_sends b) dv = Some q"
    and s: "hm_get (bh_sessions b) dv = Some (t0, c0, s)" by auto
  then obtain s' fs where "seal_pending E (am_clock A) q s = Some (s', fs)"
    and b': "b' = notify_conn t c fs (set_session dv t0 c0 s'
      (b\<lparr>bh_pending_sends := hm_remove dv (bh_pending_sends b)\<rparr>))"
    using assms(2) by (auto simp: flush_pending_sends_def Let_def split: option.splits)
  then have "session_ok E d (F t0 c0) dv s'"
    using seal_pending_ok tables_ok_sessionD [OF assms(1) s] by blast
  then show ?thesis using b' assms(1) by (simp add: tables_ok_set_session)
qed

lemma on_established_ok:
  assumes inv: "tables_ok E F d b" and v: "vouched E d (F t c) res"
    and step: "on_established E A t c res b = Some b'"
  shows "tables_ok E F d b'"
proof -
  define b4 where "b4 = set_session (hr_peer_id res) t c (session_new E res)
    ((map_transport (hr_peer_id res) t (b\<lparr>bh_handshakes := hm_remove (t, c) (bh_handshakes b)\<rparr>))
      \<lparr>bh_peer_names := hm_insert (hr_peer_id res) (ph_user_name (hr_peer_hello res)) (bh_peer_names b)\<rparr>)"
  have "session_ok E d (F t c) (hr_peer_id res) (session_new E res)"
    using v by (auto simp: session_ok_def session_new_def Let_def intro: reach_init)
  then have b4: "tables_ok E F d b4"
    unfolding b4_def using inv by (intro tables_ok_set_session) (auto intro: tables_ok_drop_handshake)
  from step obtain b5 where b5: "flush_pending_sends E A (hr_peer_id res) t c b4 = Some b5"
    by (auto simp: on_established_def b4_def Let_def split: option.splits)
  have "tables_ok E F d b5" by (rule flush_pending_ok [OF b4 b5])
  then have *: "tables_ok E F d (b5\<lparr>bh_observed_addrs := hm_remove (t, c) (bh_observed_addrs b5)\<rparr>)"
    by simp
  show ?thesis
  proof (cases "hm_get (bh_observed_addrs b5) (t, c)")
    case None
    then show ?thesis using step b5 \<open>tables_ok E F d b5\<close>
      by (auto simp: on_established_def b4_def Let_def)
  next
    case (Some oa)
    then obtain ip port where "oa = (ip, port)" by (cases oa)
    then show ?thesis using step b5 Some send_observed_addr_ok [OF *]
      by (auto simp: on_established_def b4_def Let_def)
  qed
qed

lemma on_session_frame_ok:
  assumes inv: "tables_ok E F d b" and step: "on_session_frame E A t c f b = Some b'"
  shows "tables_ok E F d b'"
proof (cases "device_of t b")
  case None
  then show ?thesis using assms by (simp add: on_session_frame_def)
next
  case dv: (Some dv)
  show ?thesis
  proof (cases "hm_get (bh_sessions b) dv")
    case None
    then show ?thesis using assms dv by (simp add: on_session_frame_def)
  next
    case (Some e)
    then obtain t0 c0 s where e: "hm_get (bh_sessions b) dv = Some (t0, c0, s)" by (cases e) auto
    then obtain s' r where r: "handle_frame E f s = Some (s', r)"
      using step dv by (auto simp: on_session_frame_def split: option.splits)
    show ?thesis
    proof (cases r)
      case (Inl x)
      then show ?thesis using step dv e r inv
        by (auto simp: on_session_frame_def intro: tables_ok_drop_session)
    next
      case (Inr i)
      have ok: "session_ok E d (F t0 c0) dv s'"
        using session_ok_receive [OF tables_ok_sessionD [OF inv e]] r Inr by blast
      show ?thesis
      proof (cases i)
        case (Inbound_Message sq mid ts body)
        then obtain s'' ack where ack: "encrypt_ack E mid sq (am_clock A 0) (am_rid A) s' = Some (s'', ack)"
          "b' = push_back (GenerateEvent (MessageReceived dv mid body ts))
             (notify_conn t c [ack] (set_session dv t0 c0 s'' b))"
          using step dv e r Inr by (auto simp: on_session_frame_def split: option.splits)
        then show ?thesis
          using tables_ok_set_session [OF inv session_ok_send [OF ok send_forms(2) [OF ack(1)]]] by simp
      qed (use step dv e r Inr tables_ok_set_session [OF inv ok] in
        \<open>auto simp: on_session_frame_def\<close>)
    qed
  qed
qed

lemma established_vouched:
  assumes "hs_inv E d ex (fs, hs)" and "on_frame E d f r hs = Some (hs', Inr (Established res))"
  shows "vouched E d (set fs) res" and "ex = None \<or> ex = Some (hr_peer_id res)"
proof -
  from established_checked [OF assms] obtain p sig where
    "hs_got fs Hello p" "decode_hello E p = Some (hr_peer_hello res)"
    "peer_id_of E (ph_pubkey (hr_peer_hello res)) = Some (hr_peer_id res)"
    "hr_my_id res = di_peer_id d" "hs_got fs Auth sig"
    "mldsa_verify E (ph_pubkey (hr_peer_hello res)) (AUTH_LABEL @ hs_view E hs) sig"
    "derive_session_keys E (hs_ikm E hs) (hs_view E hs) = Some (hr_keys res)"
    "(hr_send_key res, hr_recv_key res) = select_keys E (hr_keys res) (di_peer_id d) (hr_peer_id res)"
    by blast
  then show "vouched E d (set fs) res" unfolding vouched_def hs_got_def by blast
  show "ex = None \<or> ex = Some (hr_peer_id res)" using established_checked [OF assms] by blast
qed

lemma bh_on_frame_ok:
  assumes inv: "tables_ok E F d b" and f: "f \<in> F t c" and step: "bh_on_frame E A t c f b = Some b'"
  shows "tables_ok E F d b'"
proof (cases "is_session_frame f \<or> hm_get (bh_handshakes b) (t, c) = None")
  case True
  then show ?thesis using assms on_session_frame_ok
    by (auto simp: bh_on_frame_def split: if_splits)
next
  case False
  then obtain hs ex where he: "hm_get (bh_handshakes b) (t, c) = Some (hs, ex)" by auto
  have d: "bh_identity b = d" using inv by (simp add: tables_ok_def)
  obtain fs where fs: "set fs \<subseteq> F t c" "hs_inv E d ex (fs, hs)"
    using tables_ok_handshakeD [OF inv he] by (auto simp: handshake_ok_def)
  obtain hs' r where r: "on_frame E d f (am_entropy A) hs = Some (hs', r)"
    using step False he d by (auto simp: bh_on_frame_def split: option.splits)
  have "handshake_ok E d (F t c) (hs', ex)"
    unfolding handshake_ok_def using on_frame_inv [OF fs(2) r] fs(1) f
    by (intro exI [of _ "fs @ [f]"]) auto
  note put = tables_ok_put_handshake [OF inv this]
  show ?thesis
  proof (cases r)
    case (Inl x)
    then show ?thesis using step False he d r inv
      by (auto simp: bh_on_frame_def intro: tables_ok_drop_handshake)
  next
    case (Inr a)
    show ?thesis
    proof (cases a)
      case (Frames gs)
      then show ?thesis using step False he d r Inr put by (auto simp: bh_on_frame_def)
    next
      case (Established res)
      then have "vouched E d (F t c) res"
        using established_vouched [OF fs(2)] r Inr vouched_mono [OF _ fs(1)] by blast
      then show ?thesis
        using on_established_ok [OF inv] step False he d r Inr Established
        by (auto simp: bh_on_frame_def)
    qed
  qed
qed

lemma on_handler_event_ok:
  assumes inv: "tables_ok E F d b" and "\<And>f. ev = FrameReceived f \<Longrightarrow> f \<in> F t c"
    and step: "on_handler_event E A t c ev b = Some b'"
  shows "tables_ok E F d b'"
proof (cases ev)
  case SubstreamReady
  have "bh_identity b = d" using inv by (simp add: tables_ok_def)
  moreover have "handshake_ok E d (F t c) (fst (handshake_new E d ex now), ex)" for ex now
    using hs_inv_init [of E d ex "([], fst (handshake_new E d ex now))"]
    by (force simp: handshake_ok_def hs_init_def)
  ultimately show ?thesis
    using step inv SubstreamReady tables_ok_put_handshake [OF inv]
    by (auto simp: on_handler_event_def handshake_new_def Let_def split: if_splits)
next
  case (FrameReceived f)
  then show ?thesis using assms bh_on_frame_ok by (simp add: on_handler_event_def)
next
  case StreamClosed
  then show ?thesis using step inv by (auto simp: on_handler_event_def intro: tables_ok_drop_handshake)
qed

lemma on_connection_closed_ok:
  assumes "tables_ok E F d b"
  shows "tables_ok E F d (on_connection_closed t c n b)"
proof -
  define b2 where "b2 = b\<lparr>bh_observed_addrs := hm_remove (t, c) (bh_observed_addrs b),
    bh_connected := hs_remove t (bh_connected b), bh_handshakes := hm_remove (t, c) (bh_handshakes b)\<rparr>"
  have b2: "tables_ok E F d b2" using assms by (auto simp: b2_def tables_ok_def)
  then have "tables_ok E F d (b2\<lparr>bh_sessions := hm_remove p (bh_sessions b2)\<rparr>)"
    "tables_ok E F d (b2\<lparr>bh_sessions := hm_remove p (bh_sessions b2),
       bh_peer_names := hm_remove q (bh_peer_names b2)\<rparr>)" for p q
    by (auto simp: tables_ok_def)
  then show ?thesis
    using b2 unfolding on_connection_closed_def
    by (auto simp: Let_def b2_def split: option.splits)
qed

lemma on_swarm_event_ok: "tables_ok E F d b \<Longrightarrow> tables_ok E F d (on_swarm_event ev b)"
  by (cases ev) (auto simp: Let_def on_connection_closed_ok)

lemma expire_ok: "tables_ok E F d b \<Longrightarrow> tables_ok E F d (fold expire_handshake ks b)"
proof (induction ks arbitrary: b)
  case Nil
  then show ?case by simp
next
  case (Cons k ks)
  have "tables_ok E F d (expire_handshake k b)"
    using Cons.prems by (simp add: expire_handshake_def tables_ok_drop_handshake)
  then show ?case using Cons.IH by simp
qed

lemma bh_poll_ok: "tables_ok E F d b \<Longrightarrow> tables_ok E F d (fst (bh_poll now b))"
  using expire_ok [of E F d b "expired_handshakes now b"]
  by (auto simp: bh_poll_def Let_def split: list.splits)

lemma bh_step_ok:
  assumes inv: "tables_ok E F d b" and "\<And>t c f. op = OpHandler t c (FrameReceived f) \<Longrightarrow> f \<in> F t c"
    and step: "bh_step E A op b = Some b'"
  shows "tables_ok E F d b'"
proof (cases op)
  case (OpSend p body)
  then show ?thesis using step send_message_ok [OF inv] by fastforce
next
  case (OpConnect dv t as)
  then show ?thesis using step inv by (auto simp: connect_def)
next
  case (OpConnectUnknown as)
  then show ?thesis using step inv by (auto simp: connect_unknown_def split: list.splits)
next
  case (OpHandler t c ev)
  then show ?thesis using step on_handler_event_ok [OF inv, of ev t c] assms(2) by auto
qed (use step inv in \<open>auto simp: connect_probe_def intro: send_observed_addr_ok send_dial_back_req_ok
      send_dial_back_res_ok on_swarm_event_ok bh_poll_ok\<close>)

lemma bh_inv_next: "bh_inv E d c \<Longrightarrow> bh_next E c c' \<Longrightarrow> bh_inv E d c'"
proof -
  assume inv: "bh_inv E d c" and "bh_next E c c'"
  then obtain A op where op: "fst c' = fst c @ delivered op" "bh_step E A op (snd c) = Some (snd c')"
    by (auto simp: bh_next_def)
  have "tables_ok E (\<lambda>t cn. conn_frames t cn (fst c)) d (snd c)"
    using inv bh_inv_tables [of E d "fst c" "snd c"] by simp
  then have "tables_ok E (\<lambda>t cn. conn_frames t cn (fst c')) d (snd c)"
    by (rule tables_ok_mono) (auto simp: conn_frames_def op(1))
  then have "tables_ok E (\<lambda>t cn. conn_frames t cn (fst c')) d (snd c')"
    by (rule bh_step_ok [OF _ _ op(2)]) (auto simp: conn_frames_def op(1))
  then show ?thesis using bh_inv_tables [of E d "fst c'" "snd c'"] by simp
qed

interpretation bh_sys: invariant_system "bh_init d" "bh_next E" "bh_inv E d"
  for E d
proof
  fix c c' :: bh_config
  show "bh_init d c \<Longrightarrow> bh_inv E d c" by (auto simp: bh_init_def bh_inv_def behaviour_new_def)
  show "bh_inv E d c \<Longrightarrow> bh_next E c c' \<Longrightarrow> bh_inv E d c'" by (rule bh_inv_next)
qed

text \<open>C6. Every session is authenticated.  In every state the behaviour can reach, whatever its
  peers send and in whatever order its operations are called, the session stored for a device
  descends from a handshake result in which that device's identity is the hash of a public
  key received on the session's own connection, and a signature received there verifies
  under that key over the transcript from which the keys of the session are derived.  A
  connection that was dialled for a device can only establish a session with that device.\<close>

theorem bh_sessions_authenticated:
  assumes "reachable (bh_init d) (bh_next E) (hist, b)"
  shows "(\<forall>device t c s. hm_get (bh_sessions b) device = Some (t, c, s) \<longrightarrow>
      (\<exists>res. vouched E d {f. (t, c, f) \<in> set hist} res \<and> hr_peer_id res = device \<and>
         reachable (\<lambda>x. x = session_new E res) (session_next E) s)) \<and>
    (\<forall>t c hs device f r hs' res. hm_get (bh_handshakes b) (t, c) = Some (hs, Some device) \<longrightarrow>
      on_frame E (bh_identity b) f r hs = Some (hs', Inr (Established res)) \<longrightarrow>
      hr_peer_id res = device)"
proof -
  have inv: "bh_inv E d (hist, b)" by (rule bh_sys.reachable_inv [OF assms])
  have "hr_peer_id res = device"
    if "hm_get (bh_handshakes b) (t, c) = Some (hs, Some device)"
      "on_frame E (bh_identity b) f r hs = Some (hs', Inr (Established res))" for t c hs device f r hs' res
  proof -
    have "handshake_ok E d (conn_frames t c hist) (hs, Some device)"
      using tables_ok_handshakeD [OF inv [unfolded bh_inv_tables] that(1)] .
    then obtain fs where fs: "hs_inv E d (Some device) (fs, hs)" by (auto simp: handshake_ok_def)
    have "on_frame E d f r hs = Some (hs', Inr (Established res))"
      using inv that(2) by (simp add: bh_inv_def)
    then show ?thesis using established_vouched(2) [OF fs] by auto
  qed
  moreover have "\<exists>res. vouched E d {f. (t, c, f) \<in> set hist} res \<and> hr_peer_id res = device \<and>
         reachable (\<lambda>x. x = session_new E res) (session_next E) s"
    if "hm_get (bh_sessions b) device = Some (t, c, s)" for device t c s
  proof -
    have "session_ok E d (conn_frames t c hist) device s" using inv that by (simp add: bh_inv_def)
    then show ?thesis by (auto simp: session_ok_def conn_frames_def)
  qed
  ultimately show ?thesis by blast
qed

section \<open>No panics\<close>

text \<open>Room in the counters: no session is one frame short of \<open>2 ^ 32\<close>, no queue of waiting
  messages is that long.\<close>

definition bh_room :: "behaviour \<Rightarrow> bool" where
  "bh_room b \<longleftrightarrow>
     (\<forall>device t c s. hm_get (bh_sessions b) device = Some (t, c, s) \<longrightarrow>
        unat (ss_out_seq s) < 2 ^ 32 - 1) \<and>
     (\<forall>p q. hm_get (bh_pending_sends b) p = Some q \<longrightarrow> length q < 2 ^ 32 - 1)"

text \<open>Addresses reported to a peer respect the limit that \<open>push_addr\<close> asserts.\<close>

fun op_fits :: "crates \<Rightarrow> bh_op \<Rightarrow> bool" where
  "op_fits E (OpSendDialReq p a) \<longleftrightarrow> length (ma_to_string E a) \<le> MAX_CONTROL_ADDR_BYTES"
| "op_fits E (OpSendDialRes p a r) \<longleftrightarrow> length (ma_to_string E a) \<le> MAX_CONTROL_ADDR_BYTES"
| "op_fits E _ \<longleftrightarrow> True"

lemma encrypt_message_total:
  assumes "aead_correct E"
  shows "\<exists>s' r. encrypt_message E body mid clk s = Some (s', r) \<and>
    unat (ss_out_seq s') \<le> unat (ss_out_seq s) + 1"
proof (cases "length body > MAX_MESSAGE_BYTES \<or> checked_add (ss_out_seq s) 1 = None")
  case True
  then show ?thesis by (auto simp: encrypt_message_def Let_def)
next
  case False
  then obtain n where n: "checked_add (ss_out_seq s) 1 = Some n" by auto
  have "length ([MSG_PLAINTEXT_TAG] @ be64 (now_ms clk) @ as_bytes body) \<le> 65536"
    using False by (simp add: MAX_MESSAGE_BYTES_def)
  from session_seal_total [OF assms this, of "s\<lparr>ss_out_seq := n\<rparr>" Message "ss_out_seq s" mid]
  show ?thesis using False n checked_add_unat [OF n] by (auto simp: encrypt_message_def Let_def)
qed

lemma seal_pending_total:
  assumes "aead_correct E"
  shows "\<exists>s' fs. seal_pending E clk q s = Some (s', fs) \<and>
    unat (ss_out_seq s') \<le> unat (ss_out_seq s) + length q"
proof (induction q arbitrary: clk s)
  case Nil
  then show ?case by simp
next
  case (Cons m q)
  obtain mid body where m: "m = (mid, body)" by (cases m)
  obtain s1 r where r: "encrypt_message E body mid (clk 0) s = Some (s1, r)"
    "unat (ss_out_seq s1) \<le> unat (ss_out_seq s) + 1"
    using encrypt_message_total [OF assms] by blast
  obtain s' fs where "seal_pending E (\<lambda>i. clk (Suc i)) q s1 = Some (s', fs)"
    "unat (ss_out_seq s') \<le> unat (ss_out_seq s1) + length q" using Cons.IH by blast
  then show ?case using r by (cases r) (auto simp: m)
qed

lemma send_observed_addr_total:
  assumes "aead_correct E"
    and "\<And>t c s. hm_get (bh_sessions b) p = Some (t, c, s) \<Longrightarrow> unat (ss_out_seq s) < 2 ^ 32 - 1"
  shows "send_observed_addr E A p ip port b \<noteq> None"
proof (cases "hm_get (bh_sessions b) p")
  case None
  then show ?thesis by (simp add: send_observed_addr_def send_sealed_def)
next
  case (Some e)
  then obtain t c s where e: "hm_get (bh_sessions b) p = Some (t, c, s)" by (cases e) auto
  have "session_send E (OutObserved ip port, 0, am_rid A) s \<noteq> None"
    using session_send_total [OF assms(1) _ _ assms(2) [OF e], of "(OutObserved ip port, 0, am_rid A)"]
    by auto
  then show ?thesis using e by (auto simp: send_observed_addr_def send_sealed_def)
qed

lemma send_dial_back_total:
  assumes "aead_correct E" and "length (ma_to_string E a) \<le> MAX_CONTROL_ADDR_BYTES"
    and room: "\<And>t c s. hm_get (bh_sessions b) p = Some (t, c, s) \<Longrightarrow> unat (ss_out_seq s) < 2 ^ 32 - 1"
  shows "send_dial_back_req E A p a b \<noteq> None" and "send_dial_back_res E A p a r b \<noteq> None"
proof -
  have q: "encrypt_dial_back_req E a (am_rid A) s \<noteq> None \<and> encrypt_dial_back_res E a r (am_rid A) s \<noteq> None"
    if "unat (ss_out_seq s) < 2 ^ 32 - 1" for s
  proof -
    obtain p1 where p1: "push_addr E [DIAL_BACK_REQ_TAG] a = Some p1" "length p1 \<le> 515"
      using push_addr_total [OF assms(2)] by blast
    obtain p2 where p2: "push_addr E [DIAL_BACK_RES_TAG] a = Some p2" "length p2 \<le> 515"
      using push_addr_total [OF assms(2)] by blast
    show ?thesis
      using p1 p2 seal_control_total [OF assms(1) _ that, of p1 "am_rid A"]
        seal_control_total [OF assms(1) _ that, of "p2 @ [if r then 1 else 0]" "am_rid A"]
      by (auto simp: encrypt_dial_back_req_def encrypt_dial_back_res_def)
  qed
  show "send_dial_back_req E A p a b \<noteq> None"
    using q room by (fastforce simp: send_dial_back_req_def send_sealed_def split: option.splits)
  show "send_dial_back_res E A p a r b \<noteq> None"
    using q room by (fastforce simp: send_dial_back_res_def send_sealed_def split: option.splits)
qed

lemma flush_pending_total:
  assumes ae: "aead_correct E" and s: "hm_get (bh_sessions b) dv = Some (t0, c0, s)"
    and "unat (ss_out_seq s) = 0"
    and q: "\<And>q. hm_get (bh_pending_sends b) dv = Some q \<Longrightarrow> length q < 2 ^ 32 - 1"
  shows "\<exists>b' s'. flush_pending_sends E A dv t c b = Some b' \<and>
    hm_get (bh_sessions b') dv = Some (t0, c0, s') \<and> unat (ss_out_seq s') < 2 ^ 32 - 1"
proof (cases "hm_get (bh_pending_sends b) dv")
  case None
  then show ?thesis using assms by (simp add: flush_pending_sends_def)
next
  case (Some p)
  obtain s' fs where "seal_pending E (am_clock A) p s = Some (s', fs)"
    "unat (ss_out_seq s') \<le> unat (ss_out_seq s) + length p"
    using seal_pending_total [OF ae] by blast
  then show ?thesis using Some s q [OF Some] assms(3) by (auto simp: flush_pending_sends_def)
qed

lemma on_established_total:
  assumes ae: "aead_correct E" and room: "bh_room b"
  shows "on_established E A t c res b \<noteq> None"
proof -
  define b4 where "b4 = set_session (hr_peer_id res) t c (session_new E res)
    ((map_transport (hr_peer_id res) t (b\<lparr>bh_handshakes := hm_remove (t, c) (bh_handshakes b)\<rparr>))
      \<lparr>bh_peer_names := hm_insert (hr_peer_id res) (ph_user_name (hr_peer_hello res)) (bh_peer_names b)\<rparr>)"
  have "hm_get (bh_sessions b4) (hr_peer_id res) = Some (t, c, session_new E res)"
    by (simp add: b4_def)
  moreover have "unat (ss_out_seq (session_new E res)) = 0" by (simp add: session_new_def Let_def)
  moreover have "length q < 2 ^ 32 - 1" if "hm_get (bh_pending_sends b4) (hr_peer_id res) = Some q" for q
    using that room by (simp add: b4_def bh_room_def)
  ultimately obtain b5 s' where b5: "flush_pending_sends E A (hr_peer_id res) t c b4 = Some b5"
    "hm_get (bh_sessions b5) (hr_peer_id res) = Some (t, c, s')" "unat (ss_out_seq s') < 2 ^ 32 - 1"
    using flush_pending_total [OF ae] by blast
  have "send_observed_addr E A (hr_peer_id res) ip port
      (b5\<lparr>bh_observed_addrs := hm_remove (t, c) (bh_observed_addrs b5)\<rparr>) \<noteq> None" for ip port
    using b5 by (intro send_observed_addr_total [OF ae]) simp
  then show ?thesis using b5(1)
    by (auto simp: on_established_def b4_def Let_def split: option.splits)
qed

lemma handle_frame_total:
  assumes "ss_seq_violations s = 0"
  shows "handle_frame E f s \<noteq> None"
proof -
  have "plain_add (overflow_checks E) (ss_seq_violations s) 1 \<noteq> None"
    using assms by (simp add: plain_add_def checked_add_def)
  then show ?thesis by (auto simp: handle_frame_def Let_def split: option.splits sum.splits)
qed

lemma on_session_frame_total:
  assumes ae: "aead_correct E" and room: "bh_room b" and inv: "tables_ok E F d b"
  shows "on_session_frame E A t c f b \<noteq> None"
proof -
  have h: "handle_frame E f s \<noteq> None"
    and ack: "handle_frame E f s = Some (s', Inr i) \<Longrightarrow> encrypt_ack E m n clk rid s' \<noteq> None"
    if "hm_get (bh_sessions b) dv = Some (t0, c0, s)" for dv t0 c0 s s' i m n clk rid
  proof -
    show "handle_frame E f s \<noteq> None"
      using tables_ok_sessionD [OF inv that] handle_frame_total unfolding session_ok_def by blast
    assume "handle_frame E f s = Some (s', Inr i)"
    from handle_frame_accepts(3) [OF this] have "ss_out_seq s' = ss_out_seq s" by simp
    then have "unat (ss_out_seq s') < 2 ^ 32 - 1" using room that unfolding bh_room_def by metis
    then show "encrypt_ack E m n clk rid s' \<noteq> None"
      using session_send_total [OF ae, of "(OutAck m n, clk, rid)" s'] by force
  qed
  show ?thesis
    by (auto simp: on_session_frame_def split: option.splits sum.splits inbound.splits dest: h ack)
qed

lemma bh_on_frame_total:
  assumes laws: "hash_sized E" "peer_ids_ok E" "kdf_total E" "dsa_correct E" and ae: "aead_correct E"
    and d: "wf_identity E d" and room: "bh_room b" and inv: "tables_ok E F d b"
  shows "bh_on_frame E A t c f b \<noteq> None"
proof (cases "is_session_frame f \<or> hm_get (bh_handshakes b) (t, c) = None")
  case True
  then show ?thesis using on_session_frame_total [OF ae room inv] by (auto simp: bh_on_frame_def)
next
  case False
  then obtain hs ex where he: "hm_get (bh_handshakes b) (t, c) = Some (hs, ex)" by auto
  obtain fs where "hs_inv E d ex (fs, hs)"
    using tables_ok_handshakeD [OF inv he] by (auto simp: handshake_ok_def)
  from on_frame_total [OF laws d this] obtain hs' r where
    "on_frame E d f (am_entropy A) hs = Some (hs', r)" by blast
  moreover have "bh_identity b = d" using inv by (simp add: tables_ok_def)
  ultimately show ?thesis
    using False he on_established_total [OF ae room]
    by (auto simp: bh_on_frame_def split: sum.splits handshake_action.splits)
qed

lemma send_message_total:
  assumes "aead_correct E"
  shows "send_message E A p body b \<noteq> None"
proof (cases "hm_get (bh_sessions b) p")
  case None
  then show ?thesis by (simp add: send_message_def Let_def)
next
  case (Some e)
  then obtain t c s where e: "hm_get (bh_sessions b) p = Some (t, c, s)" by (cases e) auto
  obtain s' r where "encrypt_message E body (am_rid A) (am_clock A 0) s = Some (s', r)"
    using encrypt_message_total [OF assms] by blast
  then show ?thesis using e by (cases r) (simp_all add: send_message_def Let_def)
qed

lemma bh_step_total:
  assumes laws: "hash_sized E" "peer_ids_ok E" "kdf_total E" "dsa_correct E" and ae: "aead_correct E"
    and d: "wf_identity E d" and inv: "tables_ok E F d b" and room: "bh_room b"
    and dial: "\<And>p a. op = OpSendDialReq p a \<Longrightarrow> send_dial_back_req E A p a b \<noteq> None"
      "\<And>p a r. op = OpSendDialRes p a r \<Longrightarrow> send_dial_back_res E A p a r b \<noteq> None"
  shows "bh_step E A op b \<noteq> None"
proof (cases op)
  case (OpSend p body)
  then show ?thesis using send_message_total [OF ae] by simp
next
  case (OpSendObserved p ip port)
  then show ?thesis using send_observed_addr_total [OF ae] room unfolding bh_room_def by simp
next
  case (OpHandler t c ev)
  then show ?thesis
    using bh_on_frame_total [OF laws ae d room inv]
    by (auto simp: on_handler_event_def Let_def split: handler_to_behaviour.splits prod.splits)
qed (simp_all add: dial)


end
