(* ===== verification/Node_Inv.thy ===== *)
theory Node_Inv
  imports Node_Events Behaviour_Inv
begin

text \<open>
  The node as a transition system: any event, tick, command, emptying of the record cache
  (\<open>mem::take\<close>, when a lookup is answered) or call of libp2p into the session behaviour, in
  any order and with any surroundings.  The invariant covers the record
  cache, the lookups, the scheduled re-dials and the validated public addresses.
\<close>

section \<open>Steps\<close>

datatype node_op =
  NodeEvent swarm_event
| NodeTick
| NodeSend peer_id string
| NodeLookup peer_id
| NodeDrain
| NodeSession bh_op

fun node_step :: "crates \<Rightarrow> record_json \<Rightarrow> surroundings \<Rightarrow> node_op \<Rightarrow> node \<Rightarrow> node option" where
  "node_step E J S (NodeEvent ev) nd = handle_event E J S ev nd"
| "node_step E J S NodeTick nd = maintenance E J S nd"
| "node_step E J S (NodeSend peer body) nd = map_option fst (node_send_message E S peer body nd)"
| "node_step E J S (NodeLookup peer) nd = Some (fst (node_lookup E S peer nd))"
| "node_step E J S NodeDrain nd = Some (nd\<lparr>nd_records := []\<rparr>)"
| "node_step E J S (NodeSession op) nd =
     map_option (\<lambda>b. nd\<lparr>nd_session := b\<rparr>) (bh_step E (su_amb S 0) op (nd_session nd))"

text \<open>A configuration pairs the state with the operations so far.\<close>

type_synonym node_trace = "node_op list \<times> node"

definition node_init :: "crates \<Rightarrow> node_trace \<Rightarrow> bool" where
  "node_init E c \<longleftrightarrow> fst c = [] \<and>
     (\<exists>S identity storage opts. node_new E S identity storage opts = Some (Inr (snd c)))"

definition node_next :: "crates \<Rightarrow> record_json \<Rightarrow> node_trace \<Rightarrow> node_trace \<Rightarrow> bool" where
  "node_next E J c c' \<longleftrightarrow>
     (\<exists>S op. fst c' = fst c @ [op] \<and> node_step E J S op (snd c) = Some (snd c'))"

section \<open>The invariant\<close>

text \<open>A cached record is filed under its own Peer ID, still has an address, and differs from a
  record that passed verification at most by addresses removed since.\<close>

definition vetted :: "crates \<Rightarrow> peer_id \<Rightarrow> verified_record \<Rightarrow> bool" where
  "vetted E p v \<longleftrightarrow>
     vr_peer_id v = p \<and> vr_addrs v \<noteq> [] \<and>
     (\<exists>key r now v0. verify_addr_record E key r now = Some (Inr v0) \<and>
        v = v0\<lparr>vr_addrs := vr_addrs v\<rparr> \<and> set (vr_addrs v) \<subseteq> set (vr_addrs v0))"

definition attempts_ok :: "u32 \<Rightarrow> bool" where
  "attempts_ok n \<longleftrightarrow> 1 \<le> n \<and> n \<le> MAX_LOOKUP_ATTEMPTS"

definition reported :: "node_op list \<Rightarrow> multiaddr \<Rightarrow> bool" where
  "reported L a \<longleftrightarrow> (\<exists>p. NodeEvent (SwSession (DialBackResolved p a True)) \<in> set L)"

text \<open>An address counts as public only while its candidate is validated or being validated again.\<close>

fun live_candidate :: "candidate_state \<Rightarrow> bool" where
  "live_candidate (CandRejected _) = False"
| "live_candidate _ = True"

definition node_inv :: "crates \<Rightarrow> node_op list \<Rightarrow> node \<Rightarrow> bool" where
  "node_inv E L nd \<longleftrightarrow>
     (\<forall>p v. hm_get (nd_records nd) p = Some v \<longrightarrow> vetted E p v) \<and>
     (\<forall>q r. hm_get (nd_pending_lookups nd) q = Some r \<longrightarrow> attempts_ok (lq_attempts r)) \<and>
     (\<forall>r \<in> set (nd_retry_lookups nd). attempts_ok (lr_attempts r)) \<and>
     (\<forall>d \<in> set (nd_retry_dials nd). rd_addrs d \<noteq> []) \<and>
     distinct (nd_validated_public_addrs nd) \<and>
     (\<forall>a \<in> set (nd_validated_public_addrs nd). reported L a \<and>
        (\<exists>c. hm_get (nd_candidates nd) a = Some c \<and> live_candidate (cd_state c))) \<and>
     hm_wf (nd_candidates nd) \<and> hm_wf (nd_pending_probes nd)"

lemma reported_append: "reported L a \<Longrightarrow> reported (L @ [op]) a"
  by (auto simp: reported_def)

lemma node_inv_more: "node_inv E L nd \<Longrightarrow> node_inv E (L @ [op]) nd"
  unfolding node_inv_def by (meson reported_append)

text \<open>Fields outside the invariant.\<close>

lemma node_inv_frame [simp]:
  "node_inv E L (nd\<lparr>nd_session := b\<rparr>) = node_inv E L nd"
  "node_inv E L (nd\<lparr>nd_orders := os\<rparr>) = node_inv E L nd"
  "node_inv E L (nd\<lparr>nd_storage := st\<rparr>) = node_inv E L nd"
  "node_inv E L (nd\<lparr>nd_our_record := r\<rparr>) = node_inv E L nd"
  "node_inv E L (nd\<lparr>nd_current_addrs := as\<rparr>) = node_inv E L nd"
  "node_inv E L (nd\<lparr>nd_last_publish := t\<rparr>) = node_inv E L nd"
  "node_inv E L (nd\<lparr>nd_last_interface_scan := t\<rparr>) = node_inv E L nd"
  "node_inv E L (nd\<lparr>nd_last_bootstrap := t\<rparr>) = node_inv E L nd"
  "node_inv E L (nd\<lparr>nd_connected := ps\<rparr>) = node_inv E L nd"
  "node_inv E L (nd\<lparr>nd_bootstrap_mapped := ps\<rparr>) = node_inv E L nd"
  "node_inv E L (nd\<lparr>nd_bootstrap_dialing := as\<rparr>) = node_inv E L nd"
  "node_inv E L (nd\<lparr>nd_dialing := ps\<rparr>) = node_inv E L nd"
  "node_inv E L (nd\<lparr>nd_had_session := ps\<rparr>) = node_inv E L nd"
  "node_inv E L (nd\<lparr>nd_relay_transport := rt\<rparr>) = node_inv E L nd"
  "node_inv E L (nd\<lparr>nd_relay_dialing := rd\<rparr>) = node_inv E L nd"
  "node_inv E L (nd\<lparr>nd_peer_paths := pp\<rparr>) = node_inv E L nd"
  "node_inv E L (nd\<lparr>nd_traversal_attempts := ta\<rparr>) = node_inv E L nd"
  "node_inv E L (nd\<lparr>nd_nat_status := ns\<rparr>) = node_inv E L nd"
  by (simp_all add: node_inv_def)

section \<open>Every step keeps it\<close>

lemma publish_record_inv:
  assumes "publish_record E J S nd = Some nd'" and "node_inv E L nd"
  shows "node_inv E L nd'"
  using assms
  by (auto simp: publish_record_def Let_def split: if_splits option.splits)

lemma refresh_inv:
  assumes "refresh_local_addresses E J S nd = Some nd'" and "node_inv E L nd"
  shows "node_inv E L nd'"
  using assms publish_record_inv
  by (fastforce simp: refresh_local_addresses_def Let_def split: if_splits option.splits)

lemma dial_peer_inv [simp]: "node_inv E L (dial_peer p t as nd) = node_inv E L nd"
  by (simp add: dial_peer_def)

lemma issue_lookup_inv: "node_inv E L nd \<Longrightarrow> attempts_ok n \<Longrightarrow> node_inv E L (issue_lookup E q p n nd)"
  by (auto simp: issue_lookup_def node_inv_def)

lemma schedule_rediscovery_inv: "node_inv E L nd \<Longrightarrow> node_inv E L (schedule_rediscovery S p dl nd)"
  by (auto simp: schedule_rediscovery_def node_inv_def attempts_ok_def MAX_LOOKUP_ATTEMPTS_def)

lemma schedule_reconnect_inv:
  assumes "node_inv E L nd"
  shows "node_inv E L (schedule_reconnect S p nd)"
proof (cases "hm_get (nd_records nd) p")
  case None
  then show ?thesis using assms by (simp add: schedule_reconnect_def)
next
  case (Some r)
  then have "vr_addrs r \<noteq> []" using assms by (auto simp: node_inv_def vetted_def)
  then have "node_inv E L (nd\<lparr>nd_retry_dials := nd_retry_dials nd
      @ [\<lparr>rd_peer = p, rd_transport = vr_transport_peer r, rd_addrs = vr_addrs r, rd_next_at = t\<rparr>]\<rparr>)" for t
    using assms by (auto simp: node_inv_def)
  then show ?thesis
    using Some assms by (simp add: schedule_reconnect_def Let_def schedule_rediscovery_inv)
qed

lemma invalidate_inv:
  assumes "node_inv E L nd"
  shows "node_inv E L (invalidate_candidates d failed nd)"
proof (cases "hm_get (nd_records nd) d")
  case None
  then show ?thesis using assms by (simp add: invalidate_candidates_def)
next
  case (Some r)
  let ?as = "filter (\<lambda>a. a \<notin> set failed) (vr_addrs r)"
  have "vetted E d r" using Some assms by (simp add: node_inv_def)
  then obtain key q now v0 where v0: "vr_peer_id r = d" "verify_addr_record E key q now = Some (Inr v0)"
    "r = v0\<lparr>vr_addrs := vr_addrs r\<rparr>" "set (vr_addrs r) \<subseteq> set (vr_addrs v0)"
    by (auto simp: vetted_def)
  have "r\<lparr>vr_addrs := ?as\<rparr> = v0\<lparr>vr_addrs := ?as\<rparr>" by (subst v0(3)) simp
  moreover have "vr_peer_id v0 = d" using v0(1) by (subst (asm) v0(3)) simp
  ultimately have "vetted E d (r\<lparr>vr_addrs := ?as\<rparr>)" if "?as \<noteq> []"
    using v0(2,4) that unfolding vetted_def
    by (intro conjI exI [of _ key] exI [of _ q] exI [of _ now] exI [of _ v0]) auto
  then have "node_inv E L (nd\<lparr>nd_records := hm_insert d (r\<lparr>vr_addrs := ?as\<rparr>) (nd_records nd)\<rparr>)" if "?as \<noteq> []"
    using assms that by (simp add: node_inv_def)
  moreover have "node_inv E L (nd\<lparr>nd_records := hm_remove d (nd_records nd)\<rparr>)"
    using assms by (simp add: node_inv_def)
  ultimately show ?thesis using Some assms by (simp add: invalidate_candidates_def Let_def)
qed


lemma verified_has_addrs:
  assumes "verify_addr_record E key r now = Some (Inr v)"
  shows "vr_addrs v \<noteq> []"
proof -
  from assms have "verify_key_sig E key r = Some (Inr v)"
    by (auto simp: verify_addr_record_def split: option.splits if_splits)
  then obtain pid where "verify_fields E pid r = Inr v" by (rule verify_key_sig_sound)
  note f = verify_fields_sound [OF this]
  then have c: "check_addrs E [] [] (ar_addrs r) = Inr (vr_addrs v)" by simp
  from check_addrs_sound [OF c] obtain new
    where "vr_addrs v = new" "map (ma_from_str E) (ar_addrs r) = map Some new" by auto
  then have "length (vr_addrs v) = length (ar_addrs r)" by (metis length_map)
  then show ?thesis using f by auto
qed

lemma on_verified_inv:
  assumes "node_inv E L nd" and ok: "verify_addr_record E key r now = Some (Inr v)"
  shows "node_inv E L (on_verified_record v nd)"
proof -
  have "vr_addrs v \<noteq> []" using ok by (rule verified_has_addrs)
  then have "vetted E (vr_peer_id v) v" unfolding vetted_def
    by (intro conjI exI [of _ key] exI [of _ r] exI [of _ now] exI [of _ v]) (simp_all add: ok)
  then have "node_inv E L (nd\<lparr>nd_records := hm_insert (vr_peer_id v) v (nd_records nd)\<rparr>)"
    using assms(1) by (auto simp: node_inv_def)
  then show ?thesis using assms(1) by (simp add: on_verified_record_def Let_def)
qed

lemma attempts_step: "attempts_ok n \<Longrightarrow> n < MAX_LOOKUP_ATTEMPTS \<Longrightarrow> attempts_ok (n + 1)"
  unfolding attempts_ok_def MAX_LOOKUP_ATTEMPTS_def by (simp add: word_le_nat_alt word_less_nat_alt unat_word_ariths)

lemma on_kad_inv:
  assumes "node_inv E L nd" and "on_kad_event E J S ev nd = Some nd'"
  shows "node_inv E L nd'"
proof (cases ev)
  case OtherKadEvent
  then show ?thesis using assms by simp
next
  case (OutboundQueryProgressed qid res)
  show ?thesis
  proof (cases "hm_get (nd_pending_lookups nd) qid")
    case None
    then show ?thesis using assms OutboundQueryProgressed by simp
  next
    case (Some req)
    let ?nd = "nd\<lparr>nd_pending_lookups := hm_remove qid (nd_pending_lookups nd)\<rparr>"
    have req: "attempts_ok (lq_attempts req)" using assms(1) Some by (auto simp: node_inv_def)
    have base: "node_inv E L ?nd" using assms(1) by (auto simp: node_inv_def)
    then have "node_inv E L (?nd\<lparr>nd_retry_lookups := nd_retry_lookups ?nd
        @ [\<lparr>lr_peer = lq_peer req, lr_attempts = lq_attempts req + 1, lr_next_at = t\<rparr>]\<rparr>)"
      if "lq_attempts req < MAX_LOOKUP_ATTEMPTS" for t
      using attempts_step [OF req that] by (auto simp: node_inv_def)
    then show ?thesis
      using assms(2) base OutboundQueryProgressed Some on_verified_inv [OF base]
      by (auto simp: Let_def split: query_result.splits sum.splits option.splits if_splits)
  qed
qed


text \<open>Candidates: the node asks a prober, hears from it, or gives up.\<close>

lemma push_new_one: "push_new [a] xs = (if a \<in> set xs then xs else xs @ [a])"
  by (simp add: push_new_def)

lemma candidate_kept_inv:
  assumes "node_inv E L nd" and "live_candidate (cd_state c) \<or> addr \<notin> set (nd_validated_public_addrs nd)"
  shows "node_inv E L (nd\<lparr>nd_candidates := hm_insert addr c (nd_candidates nd)\<rparr>)"
  using assms by (auto simp: node_inv_def)

lemma candidate_live:
  assumes "node_inv E L nd" and "a \<in> set (nd_validated_public_addrs nd)"
    and "hm_get (nd_candidates nd) a = Some c"
  shows "live_candidate (cd_state c)"
  using assms by (auto simp: node_inv_def)

lemma probes_inv:
  "node_inv E L nd \<Longrightarrow> hm_wf ps \<Longrightarrow> node_inv E L (nd\<lparr>nd_pending_probes := ps\<rparr>)"
  by (simp add: node_inv_def)

lemma request_dial_back_inv:
  assumes "node_inv E L nd" and "request_dial_back E A addr nd = Some nd'"
  shows "node_inv E L nd'"
proof (cases "hm_get (nd_candidates nd) addr")
  case None
  then show ?thesis using assms by (simp add: request_dial_back_def)
next
  case (Some c)
  have keep: "node_inv E L (nd\<lparr>nd_candidates := hm_insert addr c' (nd_candidates nd)\<rparr>)"
    if "cd_state c' = cd_state c" for c'
    by (rule candidate_kept_inv [OF assms(1)]) (use that candidate_live [OF assms(1) _ Some] in auto)
  show ?thesis
    using assms Some keep
    by (auto simp: request_dial_back_def Let_def split: option.splits if_splits list.splits)
qed

lemma on_observed_inv:
  assumes "node_inv E L nd" and "on_observed_addr E S peer ip port nd = Some nd'"
  shows "node_inv E L nd'"
proof -
  have "node_inv E L (nd\<lparr>nd_candidates := hm_insert a \<lparr>cd_state = CandPending t, cd_prober = peer\<rparr>
      (nd_candidates nd)\<rparr>)" for a t
    by (rule candidate_kept_inv [OF assms(1)]) simp
  note asked = request_dial_back_inv [OF this]
  show ?thesis
    using assms
    by (auto simp: on_observed_addr_def Let_def split: option.splits if_splits candidate_state.splits
        dest: asked)
qed

lemma reject_inv:
  assumes "node_inv E L nd" and "reject_candidate E addr c nd = Some nd'"
  shows "node_inv E L nd'"
  using assms by (auto simp: reject_candidate_def node_inv_def)

lemma validated_inv:
  assumes "node_inv E L nd" and "reported L addr" and "live_candidate (cd_state c)"
  shows "node_inv E L (nd\<lparr>nd_candidates := hm_insert addr c (nd_candidates nd),
     nd_validated_public_addrs := push_new [addr] (nd_validated_public_addrs nd)\<rparr>)"
  using assms by (auto simp: node_inv_def push_new_one)

lemma on_dial_back_res_inv:
  assumes "node_inv E L nd" and "rch \<Longrightarrow> reported L addr"
    and "on_dial_back_res E J S peer addr rch nd = Some nd'"
  shows "node_inv E L nd'"
proof (cases "hm_get (nd_candidates nd) addr")
  case None
  then show ?thesis using assms by (simp add: on_dial_back_res_def)
next
  case (Some c)
  have "node_inv E L (nd\<lparr>nd_candidates := hm_insert addr (c\<lparr>cd_state := CandValidated t\<rparr>) (nd_candidates nd),
     nd_validated_public_addrs := push_new [addr] (nd_validated_public_addrs nd)\<rparr>)" if rch for t
    by (rule validated_inv [OF assms(1) assms(2) [OF that]]) simp
  then show ?thesis
    using assms(1,3) Some reject_inv [OF assms(1)] publish_record_inv
    by (auto simp: on_dial_back_res_def split: option.splits if_splits candidate_state.splits)
qed

lemma report_probe_inv:
  assumes "node_inv E L nd" and "report_probe E A peer addr ok nd = Some nd'"
  shows "node_inv E L nd'"
  using assms probes_inv by (auto simp: report_probe_def Let_def node_inv_def)

lemma handle_probe_failure_inv:
  assumes "node_inv E L nd" and "handle_probe_failure E S failed nd = Some nd'"
  shows "node_inv E L nd'"
proof (rule for_each_keeps [where P = "node_inv E L"])
  show "for_each (\<lambda>i (probed, addr). report_probe E (su_amb S i) probed addr False) 0
     (map (\<lambda>(peer, p). (peer, pp_addr p)) (filter (\<lambda>(_, p). pp_addr p \<in> set failed) (nd_pending_probes nd))) nd
     = Some nd'"
    using assms(2) by (simp add: handle_probe_failure_def Let_def)
qed (use assms(1) report_probe_inv in auto)


lemma expire_candidate_inv:
  "node_inv E L nd \<Longrightarrow> expire_candidate E a nd = Some nd' \<Longrightarrow> node_inv E L nd'"
  by (auto simp: expire_candidate_def split: option.splits intro: reject_inv)

lemma renew_candidate_inv:
  "node_inv E L nd \<Longrightarrow> renew_candidate now a nd = Some nd' \<Longrightarrow> node_inv E L nd'"
  by (auto simp: renew_candidate_def split: option.splits intro: candidate_kept_inv)

lemma expire_probe_inv:
  "node_inv E L nd \<Longrightarrow> expire_probe E A peer nd = Some nd' \<Longrightarrow> node_inv E L nd'"
  by (auto simp: expire_probe_def split: option.splits intro: report_probe_inv)

text \<open>The four passes of \<open>public_addr_maintenance\<close>.\<close>

lemma public_addr_maintenanceE:
  assumes "public_addr_maintenance E S nd = Some nd'"
  obtains expired timed_out due nd1 nd2 nd3 where
    "for_each (\<lambda>i peer. expire_probe E (su_amb S i) peer) 0 expired nd = Some nd1"
    "for_each (\<lambda>_ addr. expire_candidate E addr) 0 timed_out nd1 = Some nd2"
    "for_each (\<lambda>_ addr. renew_candidate (su_now S) addr) 0 due nd2 = Some nd3"
    "for_each (\<lambda>i addr. request_dial_back E (su_amb S (length expired + i)) addr) 0 due nd3 = Some nd'"
  using assms that by (auto simp: public_addr_maintenance_def Let_def split: option.splits)

lemma public_addr_inv:
  assumes "node_inv E L nd" and "public_addr_maintenance E S nd = Some nd'"
  shows "node_inv E L nd'"
proof -
  obtain expired timed_out due nd1 nd2 nd3 where
    r1: "for_each (\<lambda>i peer. expire_probe E (su_amb S i) peer) 0 expired nd = Some nd1" and
    r2: "for_each (\<lambda>_ addr. expire_candidate E addr) 0 timed_out nd1 = Some nd2" and
    r3: "for_each (\<lambda>_ addr. renew_candidate (su_now S) addr) 0 due nd2 = Some nd3" and
    r4: "for_each (\<lambda>i addr. request_dial_back E (su_amb S (length expired + i)) addr) 0 due nd3 = Some nd'"
    by (rule public_addr_maintenanceE [OF assms(2)])
  note keeps = for_each_keeps [where P = "node_inv E L"]
  from r1 assms(1) have "node_inv E L nd1" by (rule keeps) (rule expire_probe_inv)
  with r2 have "node_inv E L nd2" by (rule keeps) (rule expire_candidate_inv)
  with r3 have "node_inv E L nd3" by (rule keeps) (rule renew_candidate_inv)
  with r4 show ?thesis by (rule keeps) (rule request_dial_back_inv)
qed

lemma record_history_inv [simp]: "node_inv E L (record_history E S h nd) = node_inv E L nd"
  by (simp add: record_history_def)

lemma on_dial_back_req_inv: "node_inv E L nd \<Longrightarrow> node_inv E L (on_dial_back_req S p a nd)"
  by (auto simp: on_dial_back_req_def node_inv_def)

lemma on_session_inv:
  assumes inv: "node_inv E L nd" and ev: "NodeEvent (SwSession ev) \<in> set L"
    and step: "on_session_event E J S ev nd = Some nd'"
  shows "node_inv E L nd'"
proof (cases ev)
  case (SessionEstablished peer_id conn res)
  let ?nd = "nd\<lparr>nd_had_session := hs_insert peer_id (nd_had_session nd),
                 nd_dialing := hs_remove peer_id (nd_dialing nd)\<rparr>"
  have "node_inv E L ?nd" using inv by simp
  note told = report_probe_inv [OF this]
  show ?thesis using step inv SessionEstablished by (auto simp: Let_def split: option.splits dest: told)
next
  case (PeerDisconnected peer_id)
  let ?nd = "nd\<lparr>nd_connected := hs_remove peer_id (nd_connected nd),
                 nd_pending_probes := hm_remove peer_id (nd_pending_probes nd)\<rparr>"
  have "node_inv E L (?nd\<lparr>nd_had_session := hs\<rparr>)" for hs using inv by (auto simp: node_inv_def)
  note gone = schedule_reconnect_inv [OF this]
  have "node_inv E L ?nd" using inv by (auto simp: node_inv_def)
  then show ?thesis using step PeerDisconnected gone by (auto simp: Let_def split: if_splits)
next
  case (DialBackResolved peer addr rch)
  have "rch \<Longrightarrow> reported L addr" using ev DialBackResolved by (auto simp: reported_def)
  moreover have "on_dial_back_res E J S peer addr rch nd = Some nd'" using step DialBackResolved by simp
  ultimately show ?thesis by (rule on_dial_back_res_inv [OF inv])
qed (use inv step on_observed_inv [OF inv] on_dial_back_req_inv [OF inv] in \<open>auto simp: Let_def\<close>)

lemma dials_inv: "node_inv E L nd \<Longrightarrow> \<forall>d \<in> set ds. rd_addrs d \<noteq> [] \<Longrightarrow>
    node_inv E L (nd\<lparr>nd_retry_dials := ds\<rparr>)"
  by (simp add: node_inv_def)

lemma fire_dials_inv:
  "node_inv E L nd \<Longrightarrow> \<forall>d \<in> set ds. rd_addrs d \<noteq> [] \<Longrightarrow> node_inv E L (fire_dials now ds nd)"
proof (induction ds arbitrary: nd)
  case Nil
  then show ?case by (simp add: dials_inv)
next
  case (Cons d ds)
  then show ?case using dials_inv [OF Cons.prems(1), of "d # ds"] by simp
qed

lemma lookups_inv: "node_inv E L nd \<Longrightarrow> \<forall>r \<in> set rs. attempts_ok (lr_attempts r) \<Longrightarrow>
    node_inv E L (nd\<lparr>nd_retry_lookups := rs\<rparr>)"
  by (simp add: node_inv_def)

lemma fire_lookups_inv:
  "node_inv E L nd \<Longrightarrow> \<forall>r \<in> set rs. attempts_ok (lr_attempts r) \<Longrightarrow>
   node_inv E L (fire_lookups E ids now i rs nd)"
proof (induction rs arbitrary: nd i)
  case Nil
  then show ?case by (simp add: lookups_inv)
next
  case (Cons r rs)
  then show ?case using lookups_inv [OF Cons.prems(1), of "r # rs"] by (simp add: issue_lookup_inv)
qed

lemma dial_bootstrap_inv:
  "node_inv E L nd \<Longrightarrow> dial_bootstrap E bp nd = Some nd' \<Longrightarrow> node_inv E L nd'"
  by (auto simp: dial_bootstrap_def Let_def split: option.splits if_splits)

lemma bootstrap_maintenance_inv:
  assumes "node_inv E L nd" and "bootstrap_maintenance E S nd = Some nd'"
  shows "node_inv E L nd'"
proof (cases "su_connected S = 0 \<and> duration_since (su_now S) (nd_last_bootstrap nd) \<ge> secs 5")
  case True
  then have "for_each (\<lambda>_. dial_bootstrap E) 0 (nd_bootstrap_pending nd) (nd\<lparr>nd_last_bootstrap := su_now S\<rparr>) = Some nd'"
    using assms(2) by (simp add: bootstrap_maintenance_def)
  moreover have "node_inv E L (nd\<lparr>nd_last_bootstrap := su_now S\<rparr>)" using assms(1) by simp
  ultimately show ?thesis
    by (rule for_each_keeps [where P = "node_inv E L"]) (rule dial_bootstrap_inv)
next
  case False
  then show ?thesis using assms unfolding bootstrap_maintenance_def by (simp split: if_splits)
qed

lemma relay_maintenance_inv:
  "node_inv E L nd \<Longrightarrow> relay_maintenance E nd = Some nd' \<Longrightarrow> node_inv E L nd'"
  by (auto simp: relay_maintenance_def split: option.splits if_splits)

text \<open>The part of \<open>maintenance\<close> that serves the two retry queues.\<close>

definition fire_due :: "crates \<Rightarrow> surroundings \<Rightarrow> node \<Rightarrow> node" where
  "fire_due E S nd =
     (let nd1 = fire_dials (su_now S) (nd_retry_dials nd) nd in
      fire_lookups E (su_query S) (su_now S) 0 (nd_retry_lookups nd1) nd1)"

lemma maintenanceE:
  assumes "maintenance E J S nd = Some nd'"
  obtains nd1 nd2 nd3 nd4 where "refresh_local_addresses E J S nd = Some nd1"
    "nd2 = nd1 \<or> publish_record E J S nd1 = Some nd2" "public_addr_maintenance E S nd2 = Some nd3"
    "bootstrap_maintenance E S (fire_due E S nd3) = Some nd4" "relay_maintenance E nd4 = Some nd'"
  using assms that by (auto simp: maintenance_def fire_due_def Let_def split: option.splits if_splits)

lemma fire_due_inv:
  assumes "node_inv E L nd"
  shows "node_inv E L (fire_due E S nd)"
proof -
  let ?nd = "fire_dials (su_now S) (nd_retry_dials nd) nd"
  have "\<forall>d \<in> set (nd_retry_dials nd). rd_addrs d \<noteq> []" using assms by (simp add: node_inv_def)
  with assms have i: "node_inv E L ?nd" by (rule fire_dials_inv)
  then have "\<forall>r \<in> set (nd_retry_lookups ?nd). attempts_ok (lr_attempts r)" by (simp add: node_inv_def)
  with i show ?thesis unfolding fire_due_def Let_def by (rule fire_lookups_inv)
qed

lemma maintenance_inv:
  assumes "node_inv E L nd" and "maintenance E J S nd = Some nd'"
  shows "node_inv E L nd'"
  using assms(2)
proof (rule maintenanceE)
  fix nd1 nd2 nd3 nd4
  assume r: "refresh_local_addresses E J S nd = Some nd1" "nd2 = nd1 \<or> publish_record E J S nd1 = Some nd2"
    "public_addr_maintenance E S nd2 = Some nd3" "bootstrap_maintenance E S (fire_due E S nd3) = Some nd4"
    "relay_maintenance E nd4 = Some nd'"
  have "node_inv E L nd1" by (rule refresh_inv [OF r(1) assms(1)])
  then have "node_inv E L nd2" using r(2) publish_record_inv by blast
  then have "node_inv E L nd3" using r(3) by (rule public_addr_inv)
  then have "node_inv E L (fire_due E S nd3)" by (rule fire_due_inv)
  then have "node_inv E L nd4" using r(4) by (rule bootstrap_maintenance_inv)
  then show ?thesis using r(5) by (rule relay_maintenance_inv)
qed

lemma resolve_relay_inv:
  "node_inv E L nd \<Longrightarrow> resolve_relay E p ep nd = Some nd' \<Longrightarrow> node_inv E L nd'"
  by (auto simp: resolve_relay_def split: endpoint.splits option.splits if_splits)

lemma resolve_bootstrap_inv:
  assumes "node_inv E L nd" and "resolve_bootstrap E J S p ep nd = Some nd'"
  shows "node_inv E L nd'"
  using assms
  by (auto simp: resolve_bootstrap_def bootstrap_kad_def split: endpoint.splits option.splits if_splits
      dest!: publish_record_inv)

lemma on_connection_opened_inv:
  assumes "node_inv E L nd" and "on_connection_opened E J S p ep nd = Some nd'"
  shows "node_inv E L nd'"
proof -
  from assms(2) obtain nd1 nd2 where r: "resolve_relay E p ep nd = Some nd1"
    "resolve_bootstrap E J S p ep nd1 = Some nd2"
    and nd': "nd' = nd2\<lparr>nd_peer_paths := hm_insert p (if is_relayed ep then Relayed else Direct) (nd_peer_paths nd2)\<rparr>"
    by (auto simp: on_connection_opened_def split: option.splits)
  show ?thesis
    using resolve_bootstrap_inv [OF resolve_relay_inv [OF assms(1) r(1)] r(2)] by (simp add: nd')
qed

lemma on_connection_lost_inv: "node_inv E L nd \<Longrightarrow> node_inv E L (on_connection_lost p ep n nd)"
  by (simp add: on_connection_lost_def Let_def split: option.splits endpoint.splits)

lemma drop_record_inv: "node_inv E L nd \<Longrightarrow> node_inv E L (nd\<lparr>nd_records := hm_remove d (nd_records nd)\<rparr>)"
  by (auto simp: node_inv_def)

lemma on_peerless_failure_inv:
  assumes "node_inv E L nd" and "on_peerless_failure E S failed nd = Some nd'"
  shows "node_inv E L nd'"
  using assms(2) unfolding on_peerless_failure_def Let_def
  by (rule handle_probe_failure_inv [rotated]) (use assms(1) in \<open>simp split: option.split\<close>)

lemma forget_failed_inv:
  assumes "node_inv E L nd"
  shows "node_inv E L (forget_failed S peer device failed nd)"
proof -
  let ?nd = "case peer of None \<Rightarrow> nd
    | Some t \<Rightarrow> nd\<lparr>nd_orders := nd_orders nd @ map (KadRemoveAddress t) failed\<rparr>"
  have "node_inv E L ?nd" using assms by (simp split: option.split)
  then show ?thesis
    by (simp add: forget_failed_def Let_def invalidate_inv schedule_rediscovery_inv split: option.split)
qed

lemma on_dial_failed_inv:
  assumes inv: "node_inv E L nd" and step: "on_dial_failed E S peer err nd = Some nd'"
  shows "node_inv E L nd'"
proof -
  note peerless = on_peerless_failure_inv [OF inv]
  show ?thesis
    using step by (auto simp: on_dial_failed_def Let_def split: if_splits option.splits
        intro!: forget_failed_inv intro: inv drop_record_inv peerless)
qed

lemma handle_event_inv:
  assumes inv: "node_inv E L nd" and ev: "NodeEvent ev \<in> set L"
    and step: "handle_event E J S ev nd = Some nd'"
  shows "node_inv E L nd'"
proof (cases ev)
  case (SwSession e)
  then show ?thesis using on_session_inv [OF inv] ev step by simp
next
  case (SwKad e)
  then show ?thesis using on_kad_inv [OF inv] step by simp
next
  case (SwDcutr p ok)
  then show ?thesis using inv step by (auto simp: on_dcutr_def Let_def split: if_splits)
next
  case (SwNewListenAddr a)
  have "node_inv E L (nd\<lparr>nd_orders := os, nd_current_addrs := as\<rparr>)"
    "node_inv E L (nd\<lparr>nd_current_addrs := as\<rparr>)" for os as using inv by simp_all
  note told = publish_record_inv [OF _ this(1)] publish_record_inv [OF _ this(2)]
  show ?thesis using SwNewListenAddr inv step
    by (auto simp: on_new_listen_addr_def note_listen_addr_def Let_def split: if_splits dest: told)
next
  case (SwExpiredListenAddr a)
  have "node_inv E L (nd\<lparr>nd_current_addrs := as\<rparr>)" for as using inv by simp
  note told = publish_record_inv [OF _ this]
  show ?thesis using SwExpiredListenAddr inv step
    by (auto simp: on_expired_listen_addr_def note_listen_addr_gone_def Let_def split: if_splits dest: told)
next
  case (SwConnectionEstablished p ep)
  then show ?thesis using on_connection_opened_inv [OF inv] step by simp
next
  case (SwConnectionClosed p ep n)
  then show ?thesis using on_connection_lost_inv [OF inv] step by auto
next
  case (SwOutgoingConnectionError p e)
  then show ?thesis using on_dial_failed_inv [OF inv] step by simp
qed (use inv step in \<open>auto simp: on_autonat_def\<close>)

lemma node_step_inv:
  assumes "node_inv E L nd" and "op \<in> set L" and "node_step E J S op nd = Some nd'"
  shows "node_inv E L nd'"
proof (cases op)
  case (NodeEvent ev)
  then show ?thesis using assms handle_event_inv by simp
next
  case NodeTick
  then show ?thesis using assms maintenance_inv by simp
next
  case (NodeSend p body)
  then show ?thesis using assms by (auto simp: node_send_message_def)
next
  case (NodeLookup p)
  then show ?thesis using assms
    by (auto simp: node_lookup_def attempts_ok_def MAX_LOOKUP_ATTEMPTS_def intro!: issue_lookup_inv)
next
  case NodeDrain
  then show ?thesis using assms by (auto simp: node_inv_def)
next
  case (NodeSession bop)
  then show ?thesis using assms by auto
qed

lemma node_new_inv: "node_new E S d st opts = Some (Inr nd) \<Longrightarrow> node_inv E [] nd"
  by (auto simp: node_new_def node_inv_def split: option.splits)

interpretation node_sys: invariant_system "node_init E" "node_next E J" "\<lambda>c. node_inv E (fst c) (snd c)"
proof
  show "node_init E c \<Longrightarrow> node_inv E (fst c) (snd c)" for c
    using node_new_inv by (auto simp: node_init_def)
  show "node_inv E (fst c') (snd c')" if "node_inv E (fst c) (snd c)" "node_next E J c c'" for c c'
  proof -
    from that(2) obtain S op where s: "fst c' = fst c @ [op]" "node_step E J S op (snd c) = Some (snd c')"
      by (auto simp: node_next_def)
    show ?thesis
      using node_step_inv [OF node_inv_more [OF that(1), of op] _ s(2)] s(1) by simp
  qed
qed

end
