(* ===== verification/Node_Sessions.thy ===== *)
theory Node_Sessions
  imports Node_Inv
begin

text \<open>
  The node uses the session behaviour only through its operations.  Every step of the node is
  a sequence of behaviour operations on its session component, and
  only libp2p delivers frames to it, so whatever holds in every reachable state of
  the behaviour holds of the sessions of every reachable node.
\<close>

section \<open>Calls into the behaviour\<close>

text \<open>The operations the node calls itself; the others belong to libp2p.\<close>

fun node_made :: "bh_op \<Rightarrow> bool" where
  "node_made (OpHandler _ _ _) = False"
| "node_made (OpSwarm _) = False"
| "node_made OpPoll = False"
| "node_made _ = True"

definition bh_call :: "crates \<Rightarrow> behaviour \<Rightarrow> behaviour \<Rightarrow> bool" where
  "bh_call E b b' \<longleftrightarrow> (\<exists>A op. node_made op \<and> bh_step E A op b = Some b')"

definition node_calls :: "crates \<Rightarrow> node \<Rightarrow> node \<Rightarrow> bool" where
  "node_calls E nd nd' \<longleftrightarrow>
     nd_identity nd' = nd_identity nd \<and> (bh_call E)\<^sup>*\<^sup>* (nd_session nd) (nd_session nd')"

lemma node_made_delivers: "node_made op \<Longrightarrow> delivered op = []"
  by (cases op) simp_all

lemma node_calls_none [intro]:
  "nd_identity nd' = nd_identity nd \<Longrightarrow> nd_session nd' = nd_session nd \<Longrightarrow> node_calls E nd nd'"
  by (simp add: node_calls_def)

lemma node_calls_trans [trans]: "node_calls E a b \<Longrightarrow> node_calls E b c \<Longrightarrow> node_calls E a c"
  by (auto simp: node_calls_def)

lemma node_calls_op:
  assumes "bh_step E A op (nd_session nd) = Some b" and "node_made op"
    and "nd_identity nd' = nd_identity nd" and "nd_session nd' = b"
  shows "node_calls E nd nd'"
proof -
  have "bh_call E (nd_session nd) b" using assms(1,2) by (auto simp: bh_call_def)
  then show ?thesis using assms(3,4) by (simp add: node_calls_def)
qed

text \<open>Most operations leave the discovery state alone: the lookups and the number of queries
  issued, the scheduled and running dials, the cached records.\<close>

fun is_query :: "node_order \<Rightarrow> bool" where
  "is_query (KadGetRecord _ _) = True"
| "is_query _ = False"

definition queries :: "node \<Rightarrow> nat" where
  "queries nd = length (filter is_query (nd_orders nd))"

definition discovery ::
  "node \<Rightarrow> (query_id, lookup_request) hmap \<times> lookup_retry list \<times> nat \<times> retry_dial list \<times> peer_id list
     \<times> (peer_id, verified_record) hmap" where
  "discovery nd = (nd_pending_lookups nd, nd_retry_lookups nd, queries nd, nd_retry_dials nd,
     nd_dialing nd, nd_records nd)"

definition node_quiet :: "crates \<Rightarrow> node \<Rightarrow> node \<Rightarrow> bool" where
  "node_quiet E nd nd' \<longleftrightarrow> node_calls E nd nd' \<and> discovery nd' = discovery nd"

lemma discovery_simps [simp]:
  "discovery (nd\<lparr>nd_session := b\<rparr>) = discovery nd"
  "discovery (nd\<lparr>nd_storage := st\<rparr>) = discovery nd"
  "discovery (nd\<lparr>nd_our_record := r\<rparr>) = discovery nd"
  "discovery (nd\<lparr>nd_current_addrs := as\<rparr>) = discovery nd"
  "discovery (nd\<lparr>nd_last_publish := t\<rparr>) = discovery nd"
  "discovery (nd\<lparr>nd_last_interface_scan := t\<rparr>) = discovery nd"
  "discovery (nd\<lparr>nd_last_bootstrap := t\<rparr>) = discovery nd"
  "discovery (nd\<lparr>nd_connected := ps\<rparr>) = discovery nd"
  "discovery (nd\<lparr>nd_bootstrap_mapped := ps\<rparr>) = discovery nd"
  "discovery (nd\<lparr>nd_bootstrap_dialing := as\<rparr>) = discovery nd"
  "discovery (nd\<lparr>nd_had_session := ps\<rparr>) = discovery nd"
  "discovery (nd\<lparr>nd_candidates := cs\<rparr>) = discovery nd"
  "discovery (nd\<lparr>nd_validated_public_addrs := as\<rparr>) = discovery nd"
  "discovery (nd\<lparr>nd_pending_probes := pr\<rparr>) = discovery nd"
  "discovery (nd\<lparr>nd_relay_transport := rt\<rparr>) = discovery nd"
  "discovery (nd\<lparr>nd_relay_dialing := rd\<rparr>) = discovery nd"
  "discovery (nd\<lparr>nd_peer_paths := pp\<rparr>) = discovery nd"
  "discovery (nd\<lparr>nd_traversal_attempts := ta\<rparr>) = discovery nd"
  "discovery (nd\<lparr>nd_nat_status := ns\<rparr>) = discovery nd"
  "filter is_query os = filter is_query (nd_orders nd) \<Longrightarrow> discovery (nd\<lparr>nd_orders := os\<rparr>) = discovery nd"
  by (simp_all add: discovery_def queries_def)

lemma filter_no_query [simp]:
  "(\<And>x. \<not> is_query (f x)) \<Longrightarrow> filter is_query (map f xs) = []"
  by (simp add: filter_empty_conv)

lemma quiet_calls: "node_quiet E nd nd' \<Longrightarrow> node_calls E nd nd'"
  by (simp add: node_quiet_def)

lemma quiet_none [intro]:
  "nd_identity nd' = nd_identity nd \<Longrightarrow> nd_session nd' = nd_session nd \<Longrightarrow>
   discovery nd' = discovery nd \<Longrightarrow> node_quiet E nd nd'"
  by (auto simp: node_quiet_def)

lemma quiet_trans [trans]: "node_quiet E a b \<Longrightarrow> node_quiet E b c \<Longrightarrow> node_quiet E a c"
  unfolding node_quiet_def by (auto intro: node_calls_trans)

lemma quiet_op:
  assumes "bh_step E A op (nd_session nd) = Some b" and "node_made op"
    and "nd_identity nd' = nd_identity nd" and "nd_session nd' = b" and "discovery nd' = discovery nd"
  shows "node_quiet E nd nd'"
  using node_calls_op [OF assms(1-4)] assms(5) by (simp add: node_quiet_def)

lemma quiet_for_each:
  assumes "for_each body i xs nd = Some nd'"
    and "\<And>i x s s'. body i x s = Some s' \<Longrightarrow> node_quiet E s s'"
  shows "node_quiet E nd nd'"
proof (rule for_each_keeps [where P = "node_quiet E nd", OF assms(1)])
  show "node_quiet E nd nd" by auto
qed (use assms(2) quiet_trans in blast)

section \<open>Every operation of the node\<close>

lemma publish_record_quiet: "publish_record E J S nd = Some nd' \<Longrightarrow> node_quiet E nd nd'"
  by (auto simp: publish_record_def Let_def split: if_splits option.splits)

lemma refresh_quiet:
  assumes "refresh_local_addresses E J S nd = Some nd'"
  shows "node_quiet E nd nd'"
proof -
  have "node_quiet E nd nd'" if "publish_record E J S (nd\<lparr>nd_last_interface_scan := t, nd_current_addrs := as\<rparr>) = Some nd'"
    for t as using publish_record_quiet [OF that] by (simp add: node_quiet_def node_calls_def)
  then show ?thesis using assms
    by (auto simp: refresh_local_addresses_def Let_def split: if_splits option.splits)
qed

lemma dial_peer_calls: "node_calls E nd (dial_peer p t as nd)"
proof (cases "p \<in> set (nd_dialing nd)")
  case False
  show ?thesis
    by (rule node_calls_op [where op = "OpConnect p t as"]) (use False in \<open>simp_all add: dial_peer_def\<close>)
qed (auto simp: dial_peer_def)

lemma issue_lookup_calls [simp]:
  "nd_session (issue_lookup E q p n nd) = nd_session nd"
  "nd_identity (issue_lookup E q p n nd) = nd_identity nd"
  by (simp_all add: issue_lookup_def)

lemma schedule_calls [simp]:
  "nd_session (schedule_rediscovery S p t nd) = nd_session nd"
  "nd_identity (schedule_rediscovery S p t nd) = nd_identity nd"
  "nd_session (schedule_reconnect S p nd) = nd_session nd"
  "nd_identity (schedule_reconnect S p nd) = nd_identity nd"
  by (auto simp: schedule_rediscovery_def schedule_reconnect_def Let_def split: option.split)

lemma invalidate_calls [simp]:
  "nd_session (invalidate_candidates d as nd) = nd_session nd"
  "nd_identity (invalidate_candidates d as nd) = nd_identity nd"
  by (auto simp: invalidate_candidates_def Let_def split: option.split)

lemma on_verified_calls: "node_calls E nd (on_verified_record v nd)"
proof -
  let ?nd = "nd\<lparr>nd_records := hm_insert (vr_peer_id v) v (nd_records nd)\<rparr>"
  have "node_calls E nd (dial_peer p t as ?nd)" for p t as
    using dial_peer_calls [of E ?nd p t as] by (simp add: node_calls_def)
  then show ?thesis by (auto simp: on_verified_record_def Let_def split: option.split)
qed

lemma on_kad_calls:
  assumes "on_kad_event E J S ev nd = Some nd'"
  shows "node_calls E nd nd'"
proof (cases ev)
  case (OutboundQueryProgressed qid res)
  let ?nd = "nd\<lparr>nd_pending_lookups := hm_remove qid (nd_pending_lookups nd)\<rparr>"
  have "node_calls E nd (on_verified_record v ?nd)" for v
    using on_verified_calls [of E ?nd v] by (simp add: node_calls_def)
  then show ?thesis using assms OutboundQueryProgressed
    by (auto simp: Let_def split: option.splits query_result.splits sum.splits if_splits)
qed (use assms in auto)

lemma request_dial_back_quiet:
  "request_dial_back E A addr nd = Some nd' \<Longrightarrow> node_quiet E nd nd'"
  by (auto simp: request_dial_back_def Let_def split: option.splits if_splits list.splits
      intro: quiet_op [where A = A and op = "OpSendDialReq p addr" for p])

lemma on_observed_quiet:
  assumes "on_observed_addr E S peer ip port nd = Some nd'"
  shows "node_quiet E nd nd'"
proof -
  have "node_quiet E nd nd'" if "request_dial_back E A addr (nd\<lparr>nd_candidates := cs\<rparr>) = Some nd'"
    for A addr cs using request_dial_back_quiet [OF that] by (simp add: node_quiet_def node_calls_def)
  then show ?thesis using assms
    by (auto simp: on_observed_addr_def Let_def split: option.splits if_splits candidate_state.splits)
qed

lemma on_dial_back_req_quiet: "node_quiet E nd (on_dial_back_req S p a nd)"
proof (cases "hm_contains (nd_pending_probes nd) p")
  case False
  show ?thesis
    by (rule quiet_op [where op = "OpConnectProbe a"]) (use False in \<open>simp_all add: on_dial_back_req_def\<close>)
qed (auto simp: on_dial_back_req_def)

lemma reject_quiet: "reject_candidate E a c nd = Some nd' \<Longrightarrow> node_quiet E nd nd'"
  by (auto simp: reject_candidate_def)

lemma on_dial_back_res_quiet:
  assumes "on_dial_back_res E J S peer addr rch nd = Some nd'"
  shows "node_quiet E nd nd'"
proof -
  have via: "node_quiet E nd nd'" if "publish_record E J S nd1 = Some nd'" "node_quiet E nd nd1" for nd1
    using publish_record_quiet [OF that(1)] that(2) by (rule quiet_trans [rotated])
  show ?thesis using assms
    by (auto simp: on_dial_back_res_def split: option.splits if_splits candidate_state.splits
        intro: reject_quiet elim!: via)
qed

lemma report_probe_quiet: "report_probe E A p a ok nd = Some nd' \<Longrightarrow> node_quiet E nd nd'"
  by (auto simp: report_probe_def Let_def intro: quiet_op [where A = A and op = "OpSendDialRes p a ok"])

lemma handle_probe_failure_quiet:
  "handle_probe_failure E S failed nd = Some nd' \<Longrightarrow> node_quiet E nd nd'"
  unfolding handle_probe_failure_def Let_def
  by (erule quiet_for_each) (auto intro: report_probe_quiet)

lemma public_addr_quiet:
  assumes "public_addr_maintenance E S nd = Some nd'"
  shows "node_quiet E nd nd'"
proof -
  obtain expired timed_out due nd1 nd2 nd3 where
    r1: "for_each (\<lambda>i peer. expire_probe E (su_amb S i) peer) 0 expired nd = Some nd1" and
    r2: "for_each (\<lambda>_ addr. expire_candidate E addr) 0 timed_out nd1 = Some nd2" and
    r3: "for_each (\<lambda>_ addr. renew_candidate (su_now S) addr) 0 due nd2 = Some nd3" and
    r4: "for_each (\<lambda>i addr. request_dial_back E (su_amb S (length expired + i)) addr) 0 due nd3 = Some nd'"
    by (rule public_addr_maintenanceE [OF assms])
  have "node_quiet E nd nd1"
    by (rule quiet_for_each [OF r1]) (auto simp: expire_probe_def split: option.splits intro: report_probe_quiet)
  also have "node_quiet E nd1 nd2"
    by (rule quiet_for_each [OF r2]) (auto simp: expire_candidate_def split: option.splits intro: reject_quiet)
  also have "node_quiet E nd2 nd3"
    by (rule quiet_for_each [OF r3]) (auto simp: renew_candidate_def split: option.splits)
  also have "node_quiet E nd3 nd'"
    by (rule quiet_for_each [OF r4]) (rule request_dial_back_quiet)
  finally show ?thesis .
qed


lemma on_session_calls:
  assumes step: "on_session_event E J S ev nd = Some nd'"
  shows "node_calls E nd nd'"
proof (cases ev)
  case (SessionEstablished peer_id conn res)
  have "node_calls E nd (record_history E S h nd2)"
    if "report_probe E A p a ok (nd\<lparr>nd_had_session := hs, nd_dialing := ds\<rparr>) = Some nd2" for A p a ok hs ds h nd2
    using report_probe_quiet [OF that] by (simp add: node_quiet_def node_calls_def record_history_def)
  then show ?thesis using step SessionEstablished
    by (auto simp: Let_def record_history_def split: option.splits)
next
  case (PeerDisconnected peer_id)
  then show ?thesis using step by (auto simp: Let_def split: if_splits)
next
  case (ObservedAddrReported p ip port)
  then show ?thesis using step on_observed_quiet quiet_calls by simp
next
  case (DialBackRequested p a)
  then show ?thesis using step on_dial_back_req_quiet quiet_calls by auto
next
  case (DialBackResolved p a ok)
  then show ?thesis using step on_dial_back_res_quiet quiet_calls by simp
qed (use step in \<open>auto simp: record_history_def Let_def\<close>)

lemma fire_dials_calls: "node_calls E nd (fire_dials now ds nd)"
proof (induction ds arbitrary: nd)
  case (Cons d ds)
  show ?case
    using Cons node_calls_trans [OF dial_peer_calls Cons] by auto
qed auto

lemma fire_lookups_calls: "node_calls E nd (fire_lookups E ids now i rs nd)"
proof (induction rs arbitrary: nd i)
  case (Cons r rs)
  have "node_calls E nd (issue_lookup E (ids i) (lr_peer r) (lr_attempts r) nd)" by auto
  from node_calls_trans [OF this Cons] show ?case by auto
qed auto

lemma dial_bootstrap_quiet: "dial_bootstrap E bp nd = Some nd' \<Longrightarrow> node_quiet E nd nd'"
  by (auto simp: dial_bootstrap_def Let_def split: option.splits if_splits
      intro: quiet_op [where op = "OpConnectUnknown as" for as])

lemma bootstrap_maintenance_quiet:
  assumes "bootstrap_maintenance E S nd = Some nd'"
  shows "node_quiet E nd nd'"
proof -
  have "node_quiet E nd nd'"
    if "for_each (\<lambda>_. dial_bootstrap E) 0 bps (nd\<lparr>nd_last_bootstrap := t\<rparr>) = Some nd'" for bps t
    using quiet_for_each [OF that dial_bootstrap_quiet, of E] by (simp add: node_quiet_def node_calls_def)
  then show ?thesis using assms by (auto simp: bootstrap_maintenance_def split: if_splits)
qed

lemma relay_maintenance_quiet: "relay_maintenance E nd = Some nd' \<Longrightarrow> node_quiet E nd nd'"
  by (auto simp: relay_maintenance_def split: option.splits if_splits
      intro: quiet_op [where op = "OpConnectUnknown as" for as])

text \<open>Everything but the two retry queues is quiet in a tick.\<close>

lemma maintenance_phases:
  assumes "maintenance E J S nd = Some nd'"
  obtains nd1 where "node_quiet E nd nd1" "node_quiet E (fire_due E S nd1) nd'"
  using assms
proof (rule maintenanceE)
  fix nd1 nd2 nd3 nd4
  assume r: "refresh_local_addresses E J S nd = Some nd1" "nd2 = nd1 \<or> publish_record E J S nd1 = Some nd2"
    "public_addr_maintenance E S nd2 = Some nd3" "bootstrap_maintenance E S (fire_due E S nd3) = Some nd4"
    "relay_maintenance E nd4 = Some nd'"
  have "node_quiet E nd nd1" by (rule refresh_quiet [OF r(1)])
  also have "node_quiet E nd1 nd2" using r(2) publish_record_quiet by auto
  also have "node_quiet E nd2 nd3" by (rule public_addr_quiet [OF r(3)])
  finally have "node_quiet E nd nd3" .
  moreover have "node_quiet E (fire_due E S nd3) nd'"
    by (rule quiet_trans [OF bootstrap_maintenance_quiet [OF r(4)] relay_maintenance_quiet [OF r(5)]])
  ultimately show thesis by (rule that)
qed

lemma maintenance_calls:
  assumes "maintenance E J S nd = Some nd'"
  shows "node_calls E nd nd'"
proof -
  obtain nd1 where q: "node_quiet E nd nd1" "node_quiet E (fire_due E S nd1) nd'"
    by (rule maintenance_phases [OF assms])
  have "node_calls E nd1 (fire_due E S nd1)"
    unfolding fire_due_def Let_def by (rule node_calls_trans [OF fire_dials_calls fire_lookups_calls])
  then show ?thesis using quiet_calls [OF q(1)] quiet_calls [OF q(2)] node_calls_trans by blast
qed

lemma resolve_relay_quiet: "resolve_relay E p ep nd = Some nd' \<Longrightarrow> node_quiet E nd nd'"
  by (auto simp: resolve_relay_def split: endpoint.splits option.splits if_splits
      intro: quiet_op [where op = "OpMapTransport d t" for d t])

lemma resolve_bootstrap_quiet:
  assumes "resolve_bootstrap E J S p ep nd = Some nd'"
  shows "node_quiet E nd nd'"
proof -
  have "node_quiet E nd nd'" if "publish_record E J S (bootstrap_kad S
      (nd\<lparr>nd_bootstrap_mapped := bm, nd_bootstrap_dialing := bd, nd_session := map_transport d t (nd_session nd),
         nd_orders := nd_orders nd @ [KadAddAddress t a]\<rparr>)) = Some nd'" for bm bd d t a
  proof -
    let ?nd = "bootstrap_kad S (nd\<lparr>nd_bootstrap_mapped := bm, nd_bootstrap_dialing := bd,
      nd_session := map_transport d t (nd_session nd), nd_orders := nd_orders nd @ [KadAddAddress t a]\<rparr>)"
    have "node_quiet E nd ?nd"
      by (rule quiet_op [where op = "OpMapTransport d t"]) (simp_all add: bootstrap_kad_def)
    then show ?thesis using publish_record_quiet [OF that] by (rule quiet_trans)
  qed
  then show ?thesis using assms
    by (auto simp: resolve_bootstrap_def split: endpoint.splits option.splits if_splits)
qed

lemma on_connection_opened_quiet:
  assumes "on_connection_opened E J S p ep nd = Some nd'"
  shows "node_quiet E nd nd'"
proof -
  from assms obtain nd1 nd2 where r: "resolve_relay E p ep nd = Some nd1"
    "resolve_bootstrap E J S p ep nd1 = Some nd2"
    and nd': "nd' = nd2\<lparr>nd_peer_paths := hm_insert p (if is_relayed ep then Relayed else Direct) (nd_peer_paths nd2)\<rparr>"
    by (auto simp: on_connection_opened_def split: option.splits)
  have "node_quiet E nd nd2"
    by (rule quiet_trans [OF resolve_relay_quiet [OF r(1)] resolve_bootstrap_quiet [OF r(2)]])
  then show ?thesis by (simp add: nd' node_quiet_def node_calls_def)
qed


lemma on_dial_failed_calls:
  assumes "on_dial_failed E S peer err nd = Some nd'"
  shows "node_calls E nd nd'"
proof -
  have f: "node_calls E nd (forget_failed S p dev as nd1)" if "node_calls E nd nd1" for p dev as nd1
    using that by (simp add: node_calls_def forget_failed_def Let_def split: option.split)
  have p: "node_calls E nd nd1" if "on_peerless_failure E S as nd = Some nd1" for as nd1
    using handle_probe_failure_quiet [OF that [unfolded on_peerless_failure_def Let_def]]
    by (simp add: node_quiet_def node_calls_def split: option.splits if_splits)
  show ?thesis using assms
    by (auto simp: on_dial_failed_def Let_def split: if_splits option.splits intro!: f intro: p)
qed

lemma handle_event_calls:
  assumes step: "handle_event E J S ev nd = Some nd'"
  shows "node_calls E nd nd'"
proof -
  have told: "node_calls E nd nd'" if "publish_record E J S nd1 = Some nd'" "nd_identity nd1 = nd_identity nd"
    "nd_session nd1 = nd_session nd" for nd1
    using publish_record_quiet [OF that(1)] that(2,3) by (simp add: node_quiet_def node_calls_def)
  show ?thesis
  proof (cases ev)
    case (SwDcutr p ok)
    then show ?thesis using step by (auto simp: on_dcutr_def Let_def split: if_splits)
  next
    case (SwNewListenAddr a)
    then show ?thesis using step
      by (auto simp: on_new_listen_addr_def note_listen_addr_def Let_def split: if_splits elim!: told)
  next
    case (SwExpiredListenAddr a)
    then show ?thesis using step
      by (auto simp: on_expired_listen_addr_def note_listen_addr_gone_def Let_def split: if_splits elim!: told)
  next
    case (SwConnectionClosed p ep n)
    then show ?thesis using step
      by (auto simp: on_connection_lost_def Let_def split: option.splits endpoint.splits if_splits)
  qed (use step on_session_calls on_kad_calls on_connection_opened_quiet [THEN quiet_calls] on_dial_failed_calls in
      \<open>auto simp: on_autonat_def\<close>)
qed

section \<open>The node runs the behaviour\<close>

fun node_frames :: "node_op list \<Rightarrow> (peer_id \<times> connection_id \<times> frame) list" where
  "node_frames [] = []"
| "node_frames (NodeSession op # ops) = delivered op @ node_frames ops"
| "node_frames (op # ops) = node_frames ops"

lemma node_frames_append [simp]: "node_frames (xs @ ys) = node_frames xs @ node_frames ys"
  by (induction xs rule: node_frames.induct) simp_all

lemma behaviour_calls:
  assumes "(bh_call E)\<^sup>*\<^sup>* b b'" and "reachable (bh_init d) (bh_next E) (hist, b)"
  shows "reachable (bh_init d) (bh_next E) (hist, b')"
  using assms
proof (induction rule: rtranclp_induct)
  case (step b b')
  then obtain A op where "node_made op" "bh_step E A op b = Some b'" by (auto simp: bh_call_def)
  then have "bh_next E (hist, b) (hist, b')"
    unfolding bh_next_def by (intro exI [of _ A] exI [of _ op]) (simp add: node_made_delivers)
  then show ?case using step by (blast intro: reachable.reach_step)
qed

lemma node_calls_reachable:
  assumes "node_calls E nd nd'"
    and "reachable (bh_init (nd_identity nd)) (bh_next E) (hist, nd_session nd)"
  shows "reachable (bh_init (nd_identity nd')) (bh_next E) (hist, nd_session nd')"
  using assms behaviour_calls [of E "nd_session nd" "nd_session nd'" "nd_identity nd" hist]
  by (simp add: node_calls_def)

lemma node_step_behaviour:
  assumes step: "node_step E J S op nd = Some nd'"
    and r: "reachable (bh_init (nd_identity nd)) (bh_next E) (hist, nd_session nd)"
  shows "reachable (bh_init (nd_identity nd')) (bh_next E) (hist @ node_frames [op], nd_session nd')"
proof (cases op)
  case (NodeSession bop)
  then obtain b where b: "bh_step E (su_amb S 0) bop (nd_session nd) = Some b" "nd' = nd\<lparr>nd_session := b\<rparr>"
    using step by auto
  then have "bh_next E (hist, nd_session nd) (hist @ delivered bop, b)" by (auto simp: bh_next_def)
  then show ?thesis using r b NodeSession by (auto intro: reachable.reach_step)
next
  case (NodeEvent ev)
  then have "node_calls E nd nd'" using step handle_event_calls by simp
  then show ?thesis using r NodeEvent node_calls_reachable by simp
next
  case NodeTick
  then have "node_calls E nd nd'" using step maintenance_calls by simp
  then show ?thesis using r NodeTick node_calls_reachable by simp
next
  case (NodeSend p body)
  then obtain b i where "send_message E (su_amb S 0) p body (nd_session nd) = Some (b, i)" "nd' = nd\<lparr>nd_session := b\<rparr>"
    using step by (auto simp: node_send_message_def)
  then have "node_calls E nd nd'" by (intro node_calls_op [where op = "OpSend p body" and A = "su_amb S 0"]) simp_all
  then show ?thesis using r NodeSend node_calls_reachable by simp
next
  case (NodeLookup p)
  then show ?thesis using step r by (auto simp: node_lookup_def)
next
  case NodeDrain
  then show ?thesis using step r by auto
qed

lemma node_new_session: "node_new E S d st opts = Some (Inr nd) \<Longrightarrow> nd_session nd = behaviour_new (nd_identity nd)"
  by (auto simp: node_new_def split: option.splits)

lemma node_behaviour_reachable:
  assumes "reachable (node_init E) (node_next E J) c"
  shows "reachable (bh_init (nd_identity (snd c))) (bh_next E) (node_frames (fst c), nd_session (snd c))"
  using assms
proof (induction rule: reachable.induct)
  case (reach_init c)
  then have "nd_session (snd c) = behaviour_new (nd_identity (snd c))" "fst c = []"
    using node_new_session by (auto simp: node_init_def)
  then show ?case by (auto intro: reachable.reach_init simp: bh_init_def)
next
  case (reach_step c c')
  from reach_step(2) obtain S op where "fst c' = fst c @ [op]" "node_step E J S op (snd c) = Some (snd c')"
    by (auto simp: node_next_def)
  with node_step_behaviour [OF this(2) reach_step(3)] show ?case by simp
qed


text \<open>C7. The node refines the session behaviour.  In every state a node can reach, through any
  sequence of swarm events, ticks, commands and calls of libp2p, its session component is a
  state the behaviour alone reaches from the same identity on the frames delivered so far;
  therefore every session the node holds descends from a handshake in which a signature
  received on the session's connection verified under the key that hashes to the device's
  Peer ID.\<close>

theorem node_runs_behaviour:
  assumes "reachable (node_init E) (node_next E J) (ops, nd)"
  shows "reachable (bh_init (nd_identity nd)) (bh_next E) (node_frames ops, nd_session nd) \<and>
    (\<forall>device t c s. hm_get (bh_sessions (nd_session nd)) device = Some (t, c, s) \<longrightarrow>
      (\<exists>res. vouched E (nd_identity nd) {f. (t, c, f) \<in> set (node_frames ops)} res \<and>
         hr_peer_id res = device \<and> reachable (\<lambda>x. x = session_new E res) (session_next E) s))"
proof -
  have r: "reachable (bh_init (nd_identity nd)) (bh_next E) (node_frames ops, nd_session nd)"
    using node_behaviour_reachable [OF assms] by simp
  have "\<exists>res. vouched E (nd_identity nd) {f. (t, c, f) \<in> set (node_frames ops)} res \<and>
      hr_peer_id res = device \<and> reachable (\<lambda>x. x = session_new E res) (session_next E) s"
    if "hm_get (bh_sessions (nd_session nd)) device = Some (t, c, s)" for device t c s
  proof -
    have "session_ok E (nd_identity nd) (conn_frames t c (node_frames ops)) device s"
      using bh_sys.reachable_inv [OF r] that by (simp add: bh_inv_def)
    then show ?thesis by (auto simp: session_ok_def conn_frames_def)
  qed
  with r show ?thesis by blast
qed

text \<open>Conversely a node can follow any run of the behaviour.\<close>

lemma node_follows_behaviour:
  assumes "node_new E S d st opts = Some (Inr nd)"
    and "reachable (bh_init d) (bh_next E) c"
  shows "\<exists>ops. node_frames ops = fst c \<and>
    reachable (node_init E) (node_next E J) (ops, nd\<lparr>nd_session := snd c\<rparr>)"
  using assms(2)
proof (induction rule: reachable.induct)
  case (reach_init c)
  have "nd_session nd = behaviour_new d" "nd_identity nd = d"
    using assms(1) by (auto simp: node_new_def split: option.splits)
  then have "nd\<lparr>nd_session := snd c\<rparr> = nd" "fst c = []" using reach_init by (auto simp: bh_init_def)
  moreover have "node_init E ([], nd)" using assms(1) by (auto simp: node_init_def)
  ultimately show ?case by (intro exI [of _ "[]"]) (auto intro: reachable.reach_init)
next
  case (reach_step c c')
  then obtain ops where ops: "node_frames ops = fst c"
    "reachable (node_init E) (node_next E J) (ops, nd\<lparr>nd_session := snd c\<rparr>)" by blast
  obtain A op where op: "fst c' = fst c @ delivered op" "bh_step E A op (snd c) = Some (snd c')"
    using reach_step(2) by (auto simp: bh_next_def)
  have "node_step E J (S\<lparr>su_amb := \<lambda>_. A\<rparr>) (NodeSession op) (nd\<lparr>nd_session := snd c\<rparr>)
      = Some (nd\<lparr>nd_session := snd c'\<rparr>)" using op(2) by simp
  then have "node_next E J (ops, nd\<lparr>nd_session := snd c\<rparr>) (ops @ [NodeSession op], nd\<lparr>nd_session := snd c'\<rparr>)"
    unfolding node_next_def
    by (intro exI [of _ "S\<lparr>su_amb := \<lambda>_. A\<rparr>"] exI [of _ "NodeSession op"]) (simp only: fst_conv snd_conv simp_thms)
  then have "reachable (node_init E) (node_next E J) (ops @ [NodeSession op], nd\<lparr>nd_session := snd c'\<rparr>)"
    by (rule reachable.reach_step [OF ops(2)])
  then show ?case using ops(1) op(1) by (intro exI [of _ "ops @ [NodeSession op]"]) simp
qed

end
