(* ===== verification/Node_Discovery.thy ===== *)
theory Node_Discovery
  imports Node_Sessions
begin

text \<open>
  Discovery: how many queries a node issues, what its record cache holds, how a published record
  leads another node to dial, and how a lost session is dialled again.
\<close>

section \<open>The number of queries\<close>

text \<open>What a lookup may still cost: a pending query with \<open>n\<close> attempts can be followed by
  \<open>10 - n\<close> more, a scheduled one by \<open>11 - n\<close>.\<close>

fun pending_cost :: "query_id \<times> lookup_request \<Rightarrow> nat" where
  "pending_cost (_, r) = 10 - unat (lq_attempts r)"

definition retry_cost :: "lookup_retry \<Rightarrow> nat" where
  "retry_cost r = 11 - unat (lr_attempts r)"

definition lookup_budget :: "node \<Rightarrow> nat" where
  "lookup_budget nd =
     sum_list (map pending_cost (nd_pending_lookups nd)) + sum_list (map retry_cost (nd_retry_lookups nd))"

text \<open>The operations that may start a lookup: the commands and the two reasons to rediscover a
  peer.\<close>

fun starts_lookup :: "node_op \<Rightarrow> bool" where
  "starts_lookup (NodeLookup _) = True"
| "starts_lookup (NodeEvent (SwSession (PeerDisconnected _))) = True"
| "starts_lookup (NodeEvent (SwOutgoingConnectionError _ _)) = True"
| "starts_lookup _ = False"

abbreviation spent :: "node \<Rightarrow> nat" where
  "spent nd \<equiv> queries nd + lookup_budget nd"

lemma cost_insert: "sum_list (map f (hm_insert k v m)) \<le> sum_list (map f m) + f (k, v)" for f :: "_ \<Rightarrow> nat"
  unfolding hm_insert_def by (induction m) auto

lemma cost_delete: "sum_list (map f (AList.delete k m)) \<le> sum_list (map f m)" for f :: "_ \<Rightarrow> nat"
  by (induction m) auto

lemma cost_remove:
  "hm_get m k = Some v \<Longrightarrow> sum_list (map f (hm_remove k m)) + f (k, v) \<le> sum_list (map f m)" for f :: "_ \<Rightarrow> nat"
  unfolding hm_get_def hm_remove_def
proof (induction m)
  case (Cons e m)
  then show ?case using cost_delete [of f k m] by (cases e) (auto split: if_splits)
qed simp

lemma spent_discovery: "discovery nd' = discovery nd \<Longrightarrow> spent nd' = spent nd"
  by (simp add: discovery_def lookup_budget_def)

lemma spent_quiet: "node_quiet E nd nd' \<Longrightarrow> spent nd' = spent nd"
  unfolding node_quiet_def by (blast intro: spent_discovery)

lemma spent_simps [simp]:
  "spent (nd\<lparr>nd_dialing := ds\<rparr>) = spent nd"
  "spent (nd\<lparr>nd_retry_dials := rd\<rparr>) = spent nd"
  "spent (nd\<lparr>nd_records := rs\<rparr>) = spent nd"
  "spent (nd\<lparr>nd_session := b\<rparr>) = spent nd"
  by (simp_all add: lookup_budget_def queries_def)

lemma spent_dial_peer [simp]: "spent (dial_peer p t as nd) = spent nd"
  by (simp add: dial_peer_def lookup_budget_def queries_def)

lemma spent_issue:
  "spent (issue_lookup E q p n nd) \<le> spent nd + 1 + (10 - unat n)"
  using cost_insert [of pending_cost q "\<lparr>lq_peer = p, lq_attempts = n\<rparr>" "nd_pending_lookups nd"]
  by (simp add: issue_lookup_def lookup_budget_def queries_def)

lemma spent_rediscovery: "spent (schedule_rediscovery S p d nd) \<le> spent nd + 10"
  by (simp add: schedule_rediscovery_def lookup_budget_def queries_def retry_cost_def)

lemma spent_reconnect: "spent (schedule_reconnect S p nd) \<le> spent nd + 10"
proof -
  have "spent (schedule_rediscovery S p d (nd\<lparr>nd_retry_dials := rd\<rparr>)) \<le> spent nd + 10" for d rd
    using spent_rediscovery [of S p d "nd\<lparr>nd_retry_dials := rd\<rparr>"] by simp
  then show ?thesis using spent_rediscovery
    by (auto simp: schedule_reconnect_def Let_def split: option.split)
qed

lemma spent_invalidate [simp]: "spent (invalidate_candidates d as nd) = spent nd"
  by (simp add: invalidate_candidates_def Let_def split: option.split)

lemma spent_verified [simp]: "spent (on_verified_record v nd) = spent nd"
  by (simp add: on_verified_record_def Let_def)

lemma spent_kad:
  assumes "node_inv E L nd" and step: "on_kad_event E J S ev nd = Some nd'"
  shows "spent nd' \<le> spent nd"
proof (cases ev)
  case (OutboundQueryProgressed qid res)
  show ?thesis
  proof (cases "hm_get (nd_pending_lookups nd) qid")
    case (Some req)
    let ?nd = "nd\<lparr>nd_pending_lookups := hm_remove qid (nd_pending_lookups nd)\<rparr>"
    let ?n = "lq_attempts req"
    have base: "spent ?nd + (10 - unat ?n) \<le> spent nd"
      using cost_remove [OF Some, of pending_cost] by (simp add: lookup_budget_def queries_def)
    have "unat (?n + 1) = unat ?n + 1" if "?n < MAX_LOOKUP_ATTEMPTS"
      using that by (simp add: MAX_LOOKUP_ATTEMPTS_def word_less_nat_alt unat_word_ariths)
    then have "spent (?nd\<lparr>nd_retry_lookups := nd_retry_lookups ?nd
        @ [\<lparr>lr_peer = p, lr_attempts = ?n + 1, lr_next_at = t\<rparr>]\<rparr>) \<le> spent nd"
      if "?n < MAX_LOOKUP_ATTEMPTS" for p t
      using that base by (simp add: lookup_budget_def queries_def retry_cost_def)
    then show ?thesis using step base OutboundQueryProgressed Some
      by (auto simp: Let_def split: query_result.splits sum.splits option.splits if_splits)
  qed (use step OutboundQueryProgressed in simp)
qed (use step in simp)

lemma spent_fire_dials [simp]: "spent (fire_dials now ds nd) = spent nd"
  by (induction ds arbitrary: nd) simp_all

lemma spent_fire_lookups:
  assumes "\<forall>r \<in> set rs. attempts_ok (lr_attempts r)"
  shows "spent (fire_lookups E ids now i rs nd)
    \<le> spent (nd\<lparr>nd_retry_lookups := []\<rparr>) + sum_list (map retry_cost rs)"
  using assms
proof (induction rs arbitrary: i nd)
  case (Cons r rs)
  show ?case
  proof (cases "lr_next_at r > now")
    case True
    then show ?thesis by (simp add: lookup_budget_def queries_def)
  next
    case False
    let ?nd = "issue_lookup E (ids i) (lr_peer r) (lr_attempts r) nd"
    have "attempts_ok (lr_attempts r)" using Cons.prems by simp
    then have one: "1 + (10 - unat (lr_attempts r)) = retry_cost r"
      by (simp add: attempts_ok_def MAX_LOOKUP_ATTEMPTS_def retry_cost_def word_le_nat_alt) arith
    have "?nd\<lparr>nd_retry_lookups := []\<rparr>
        = issue_lookup E (ids i) (lr_peer r) (lr_attempts r) (nd\<lparr>nd_retry_lookups := []\<rparr>)"
      by (simp add: issue_lookup_def)
    then have "spent (?nd\<lparr>nd_retry_lookups := []\<rparr>) \<le> spent (nd\<lparr>nd_retry_lookups := []\<rparr>) + retry_cost r"
      using spent_issue [of E "ids i" "lr_peer r" "lr_attempts r" "nd\<lparr>nd_retry_lookups := []\<rparr>"]
      by (simp only: add.assoc one)
    moreover have "spent (fire_lookups E ids now (Suc i) rs ?nd)
        \<le> spent (?nd\<lparr>nd_retry_lookups := []\<rparr>) + sum_list (map retry_cost rs)"
      by (rule Cons.IH) (use Cons.prems in simp)
    ultimately show ?thesis using False by simp
  qed
qed simp


lemma spent_maintenance:
  assumes inv: "node_inv E L nd" and step: "maintenance E J S nd = Some nd'"
  shows "spent nd' \<le> spent nd"
proof -
  obtain nd1 where q: "node_quiet E nd nd1" "node_quiet E (fire_due E S nd1) nd'"
    by (rule maintenance_phases [OF step])
  let ?nd = "fire_dials (su_now S) (nd_retry_dials nd1) nd1"
  have keep: "nd_retry_lookups (fire_dials now ds x) = nd_retry_lookups x" for now ds x
    by (induction ds arbitrary: x) (simp_all add: dial_peer_def)
  have "nd_retry_lookups ?nd = nd_retry_lookups nd"
    using q(1) by (simp add: keep node_quiet_def discovery_def)
  then have "\<forall>r \<in> set (nd_retry_lookups ?nd). attempts_ok (lr_attempts r)"
    using inv by (simp add: node_inv_def)
  from spent_fire_lookups [OF this, of E "su_query S" "su_now S" 0 ?nd]
  have "spent (fire_due E S nd1) \<le> spent ?nd"
    by (simp add: fire_due_def Let_def lookup_budget_def queries_def)
  then show ?thesis using spent_quiet [OF q(1)] spent_quiet [OF q(2)] by simp
qed

lemma spent_session:
  assumes "on_session_event E J S ev nd = Some nd'"
  shows "spent nd' \<le> spent nd + (if \<exists>p. ev = PeerDisconnected p then 10 else 0)"
proof (cases ev)
  case (SessionEstablished peer_id conn res)
  have "spent nd2 = spent nd" if "report_probe E A p a ok (nd\<lparr>nd_had_session := hs, nd_dialing := ds\<rparr>) = Some nd2"
    for A p a ok hs ds nd2
    using spent_quiet [OF report_probe_quiet [OF that]] by (simp add: lookup_budget_def queries_def)
  then show ?thesis using assms SessionEstablished
    by (auto simp: Let_def record_history_def lookup_budget_def queries_def split: option.splits)
next
  case (PeerDisconnected p)
  let ?nd = "nd\<lparr>nd_connected := hs_remove p (nd_connected nd),
                 nd_pending_probes := hm_remove p (nd_pending_probes nd)\<rparr>"
  have "spent (schedule_reconnect S p (?nd\<lparr>nd_had_session := hs\<rparr>)) \<le> spent nd + 10" for hs
    using spent_reconnect [of S p "?nd\<lparr>nd_had_session := hs\<rparr>"] by (simp add: lookup_budget_def queries_def)
  then show ?thesis using assms PeerDisconnected
    by (auto simp: Let_def lookup_budget_def queries_def split: if_splits)
next
  case (ObservedAddrReported p ip port)
  then have "node_quiet E nd nd'" using assms on_observed_quiet by simp
  then show ?thesis using spent_quiet by simp
next
  case (DialBackRequested p a)
  then have "node_quiet E nd nd'" using assms on_dial_back_req_quiet by auto
  then show ?thesis using spent_quiet by simp
next
  case (DialBackResolved p a ok)
  then have "node_quiet E nd nd'" using assms on_dial_back_res_quiet by simp
  then show ?thesis using spent_quiet by simp
qed (use assms in \<open>auto simp: record_history_def lookup_budget_def queries_def\<close>)

lemma spent_dial_failed:
  assumes "on_dial_failed E S peer err nd = Some nd'"
  shows "spent nd' \<le> spent nd + 10"
proof -
  have f: "spent (forget_failed S p dev as nd1) \<le> spent nd1 + 10" for p dev as nd1
  proof -
    let ?nd = "case p of None \<Rightarrow> nd1
      | Some t \<Rightarrow> nd1\<lparr>nd_orders := nd_orders nd1 @ map (KadRemoveAddress t) as\<rparr>"
    have "spent ?nd = spent nd1" by (simp add: lookup_budget_def queries_def split: option.split)
    then show ?thesis
      using spent_rediscovery [of S d LOOKUP_RETRY_DELAY "invalidate_candidates d as ?nd" for d]
      by (simp add: forget_failed_def Let_def split: option.split)
  qed
  have p: "spent nd1 = spent nd" if "on_peerless_failure E S as nd = Some nd1" for as nd1
    using spent_quiet [OF handle_probe_failure_quiet [OF that [unfolded on_peerless_failure_def Let_def]]]
    by (simp add: lookup_budget_def queries_def split: option.splits if_splits)
  obtain nd1 dev as where "nd' = forget_failed S peer dev as nd1" "spent nd1 = spent nd"
    using assms p by (auto simp: on_dial_failed_def Let_def split: if_splits option.splits)
  then show ?thesis using f [of peer dev as nd1] by simp
qed

lemma spent_event:
  assumes inv: "node_inv E L nd" and step: "handle_event E J S ev nd = Some nd'"
  shows "spent nd' \<le> spent nd + (if starts_lookup (NodeEvent ev) then 10 else 0)"
proof (cases ev)
  case (SwSession e)
  then show ?thesis using spent_session [of E J S e nd nd'] step by (cases e) auto
next
  case (SwKad e)
  then show ?thesis using spent_kad [OF inv] step by simp
next
  case (SwDcutr p ok)
  then show ?thesis using step
    by (auto simp: on_dcutr_def Let_def lookup_budget_def queries_def split: if_splits)
next
  case (SwNewListenAddr a)
  then show ?thesis using step
    by (auto simp: on_new_listen_addr_def note_listen_addr_def Let_def lookup_budget_def queries_def
        split: if_splits dest!: publish_record_quiet spent_quiet)
next
  case (SwExpiredListenAddr a)
  then show ?thesis using step
    by (auto simp: on_expired_listen_addr_def note_listen_addr_gone_def Let_def lookup_budget_def queries_def
        split: if_splits dest!: publish_record_quiet spent_quiet)
next
  case (SwConnectionEstablished p ep)
  then have "node_quiet E nd nd'" using step on_connection_opened_quiet by simp
  then show ?thesis using spent_quiet by simp
next
  case (SwConnectionClosed p ep n)
  then show ?thesis using step
    by (auto simp: on_connection_lost_def Let_def lookup_budget_def queries_def
        split: option.splits endpoint.splits if_splits)
next
  case (SwOutgoingConnectionError p e)
  then show ?thesis using spent_dial_failed step by simp
qed (use step in \<open>auto simp: on_autonat_def lookup_budget_def queries_def\<close>)

lemma spent_step:
  assumes inv: "node_inv E L nd" and step: "node_step E J S op nd = Some nd'"
  shows "spent nd' \<le> spent nd + (if starts_lookup op then 10 else 0)"
proof (cases op)
  case (NodeEvent ev)
  then show ?thesis using spent_event [OF inv] step by simp
next
  case NodeTick
  then show ?thesis using spent_maintenance [OF inv] step by simp
next
  case (NodeLookup p)
  then show ?thesis using step spent_issue [of E "su_query S 0" p 1 nd] by (auto simp: node_lookup_def)
qed (use step in \<open>auto simp: node_send_message_def\<close>)

lemma spent_new: "node_new E S d st opts = Some (Inr nd) \<Longrightarrow> spent nd = 0"
  by (auto simp: node_new_def queries_def lookup_budget_def split: option.splits)

definition within_budget :: "node_trace \<Rightarrow> bool" where
  "within_budget c \<longleftrightarrow> spent (snd c) \<le> 10 * length (filter starts_lookup (fst c))"

interpretation lookup_sys:
  invariant_system "node_init E" "node_next E J" "\<lambda>c. node_inv E (fst c) (snd c) \<and> within_budget c"
proof
  fix c assume c: "node_init E c"
  then have "spent (snd c) = 0" using spent_new by (auto simp: node_init_def)
  then show "node_inv E (fst c) (snd c) \<and> within_budget c"
    using node_sys.init_inv [OF c] by (simp add: within_budget_def)
next
  fix c c' assume inv: "node_inv E (fst c) (snd c) \<and> within_budget c" and s: "node_next E J c c'"
  then obtain S op where "fst c' = fst c @ [op]" "node_step E J S op (snd c) = Some (snd c')"
    by (auto simp: node_next_def)
  moreover have "node_inv E (fst c) (snd c)" using inv by simp
  ultimately have "within_budget c'"
    using spent_step [of E "fst c" "snd c" J S op "snd c'"] inv by (auto simp: within_budget_def)
  then show "node_inv E (fst c') (snd c') \<and> within_budget c'" using node_sys.step_inv s inv by blast
qed



section \<open>What the node's own calls keep\<close>

lemma hm_contains_get: "hm_get m p = Some v \<Longrightarrow> hm_contains m p"
  by (simp add: hm_contains_def)

definition bh_grows :: "behaviour \<Rightarrow> behaviour \<Rightarrow> bool" where
  "bh_grows b b' \<longleftrightarrow> (\<forall>p. has_session p b' = has_session p b) \<and> set (bh_queue b) \<subseteq> set (bh_queue b')"

lemma send_sealed_grows: "send_sealed f p b = Some b' \<Longrightarrow> bh_grows b b'"
  by (auto simp: send_sealed_def bh_grows_def has_session_def hm_contains_get split: option.splits)

lemma bh_call_grows:
  assumes "bh_call E b b'"
  shows "bh_grows b b'"
proof -
  from assms obtain A op where op: "node_made op" "bh_step E A op b = Some b'" by (auto simp: bh_call_def)
  show ?thesis
  proof (cases op)
    case (OpSend p body)
    then show ?thesis using op
      by (auto simp: send_message_def bh_grows_def has_session_def Let_def hm_contains_get split: option.splits sum.splits)
  next
    case (OpConnectUnknown as)
    then show ?thesis using op by (auto simp: connect_unknown_def bh_grows_def has_session_def split: list.splits)
  qed (use op in \<open>auto simp: connect_def connect_probe_def send_observed_addr_def send_dial_back_req_def
      send_dial_back_res_def bh_grows_def has_session_def split: if_splits dest!: send_sealed_grows\<close>)
qed

lemma node_calls_grows: "node_calls E nd nd' \<Longrightarrow> bh_grows (nd_session nd) (nd_session nd')"
proof -
  have "(bh_call E)\<^sup>*\<^sup>* b b' \<Longrightarrow> bh_grows b b'" for b b'
    by (induction rule: rtranclp_induct) (use bh_call_grows in \<open>fastforce simp: bh_grows_def\<close>)+
  then show "node_calls E nd nd' \<Longrightarrow> ?thesis" by (simp add: node_calls_def)
qed

section \<open>The record cache\<close>

text \<open>C19. The record cache holds verified records only.  In every reachable state a cached record
  is filed under its own Peer ID, has at least one address, and agrees with a record that
  passed verification in everything but addresses dropped since; a scheduled re-dial
  always has an address to dial.\<close>

theorem node_records_vetted:
  assumes "reachable (node_init E) (node_next E J) (ops, nd)"
  shows "(\<forall>p v. hm_get (nd_records nd) p = Some v \<longrightarrow> vr_peer_id v = p \<and> vr_addrs v \<noteq> [] \<and>
      (\<exists>key r now v0. verify_addr_record E key r now = Some (Inr v0) \<and>
         v = v0\<lparr>vr_addrs := vr_addrs v\<rparr> \<and> set (vr_addrs v) \<subseteq> set (vr_addrs v0))) \<and>
    (\<forall>d \<in> set (nd_retry_dials nd). rd_addrs d \<noteq> [])"
proof -
  have inv: "node_inv E ops nd" using node_sys.reachable_inv [OF assms] by simp
  have "vetted E p v" if "hm_get (nd_records nd) p = Some v" for p v
    using inv that by (simp add: node_inv_def)
  moreover have "\<forall>d \<in> set (nd_retry_dials nd). rd_addrs d \<noteq> []" using inv by (simp add: node_inv_def)
  ultimately show ?thesis unfolding vetted_def by blast
qed

section \<open>From a published record to a dial\<close>

lemma publish_record_puts:
  assumes laws: "dsa_correct E" "peer_ids_ok E" "text_codecs_ok E" "record_json_ok J"
    and d: "wf_identity E (nd_identity nd)"
    and name: "ui_user_name (di_user (nd_identity nd)) \<noteq> []" "length (ui_user_name (di_user (nd_identity nd))) \<le> 64"
    and as: "as = push_new (nd_validated_public_addrs nd) (nd_current_addrs nd)" "publishable E (take MAX_ADDRS as)"
    and time: "unat (now_unix (su_secs S)) + 150 < 2 ^ 64" "unat now + 30 < 2 ^ 64"
      "unat (now_unix (su_secs S)) \<le> unat now + 30" "unat now \<le> unat (now_unix (su_secs S)) + 150"
  obtains nd' r bs where "publish_record E J S nd = Some nd'"
    "nd_orders nd' = nd_orders nd @ [KadPutRecord (pid_to_bytes E (di_peer_id (nd_identity nd))) bs]"
    "rj_from_slice J bs = Some r"
    "verify_addr_record E (pid_to_bytes E (di_peer_id (nd_identity nd))) r now = Some (Inr
      \<lparr>vr_peer_id = di_peer_id (nd_identity nd), vr_user_id = ui_user_id (di_user (nd_identity nd)),
       vr_user_name = ui_user_name (di_user (nd_identity nd)), vr_device_uuid = di_device_uuid (nd_identity nd),
       vr_transport_peer = transport_peer_id E (nd_identity nd), vr_addrs = take MAX_ADDRS as,
       vr_issued_at = now_unix (su_secs S)\<rparr>)"
proof -
  obtain r where r: "sign_addr_record E (nd_identity nd) as (su_secs S) (su_entropy S) = Some r"
    "verify_addr_record E (pid_to_bytes E (di_peer_id (nd_identity nd))) r now = Some (Inr
      \<lparr>vr_peer_id = di_peer_id (nd_identity nd), vr_user_id = ui_user_id (di_user (nd_identity nd)),
       vr_user_name = ui_user_name (di_user (nd_identity nd)), vr_device_uuid = di_device_uuid (nd_identity nd),
       vr_transport_peer = transport_peer_id E (nd_identity nd), vr_addrs = take MAX_ADDRS as,
       vr_issued_at = now_unix (su_secs S)\<rparr>)"
    using sign_verify_ok [OF laws(1-3) d name as(2) time] by blast
  obtain bs where bs: "rj_to_vec J r = Some bs" "rj_from_slice J bs = Some r"
    using laws(4) by (auto simp: record_json_ok_def)
  have "as \<noteq> []" using as(2) by (auto simp: publishable_def)
  then show thesis
    using that [OF _ _ bs(2) r(2)] r(1) bs(1) by (simp add: publish_record_def as(1) [symmetric] record_to_bytes_def)
qed

text \<open>A record that verifies, from an answered lookup for a device that is neither connected nor
  being dialled: it is cached and the device is dialled.\<close>

lemma found_record_dials:
  assumes found: "rj_from_slice J bs = Some r" "length bs \<le> MAX_RECORD_BYTES"
      "verify_addr_record E key r (now_unix (su_secs S)) = Some (Inr v)" "vr_addrs v \<noteq> []"
    and b: "hm_get (nd_pending_lookups b) q = Some req" "vr_peer_id v \<notin> set (nd_dialing b)"
      "\<not> node_has_session (vr_peer_id v) b"
      "\<And>old. hm_get (nd_records b) (vr_peer_id v) = Some old \<Longrightarrow> vr_issued_at old \<le> vr_issued_at v"
  shows "\<exists>b'. on_kad_event E J S (OutboundQueryProgressed q (FoundRecord key bs)) b = Some b' \<and>
    hm_get (nd_records b') (vr_peer_id v) = Some v \<and> vr_peer_id v \<in> set (nd_dialing b') \<and>
    device_of (vr_transport_peer v) (nd_session b') = Some (vr_peer_id v) \<and>
    bh_queue (nd_session b') = bh_queue (nd_session b) @ [Dial (DialPeer (vr_transport_peer v) (vr_addrs v))]"
proof -
  have fresh: "(case hm_get (nd_records b) (vr_peer_id v) of
      None \<Rightarrow> True | Some old \<Rightarrow> vr_issued_at old \<le> vr_issued_at v)"
    using b(4) by (cases "hm_get (nd_records b) (vr_peer_id v)") auto
  have "\<not> has_session (vr_peer_id v) (nd_session b)" using b(3) by (simp add: node_has_session_def)
  then show ?thesis
    using found b(1,2) fresh
    by (simp add: record_from_bytes_def Let_def on_verified_record_def node_has_session_def dial_peer_def
        connect_def device_of_def split: option.splits)
qed


section \<open>Reconnecting\<close>

lemma fire_dials_append:
  assumes "\<forall>d \<in> set ds. rd_next_at d \<le> now"
  shows "\<exists>nd'. fire_dials now (ds @ es) nd = fire_dials now es nd' \<and>
    (\<forall>p. has_session p (nd_session nd') = has_session p (nd_session nd)) \<and>
    set (nd_dialing nd') \<subseteq> set (nd_dialing nd) \<union> rd_peer ` set ds"
  using assms
proof (induction ds arbitrary: nd)
  case Nil
  then show ?case by auto
next
  case (Cons d ds)
  let ?nd = "if node_has_session (rd_peer d) nd \<or> rd_peer d \<in> set (nd_dialing nd) then nd
    else dial_peer (rd_peer d) (rd_transport d) (rd_addrs d) nd"
  have go: "fire_dials now ((d # ds) @ es) nd = fire_dials now (ds @ es) ?nd" using Cons.prems by simp
  have "has_session p (nd_session ?nd) = has_session p (nd_session nd)" for p
    by (simp add: dial_peer_def connect_def has_session_def)
  moreover have "set (nd_dialing ?nd) \<subseteq> insert (rd_peer d) (set (nd_dialing nd))"
    by (auto simp: dial_peer_def)
  ultimately show ?case using Cons.IH [of ?nd] Cons.prems unfolding go by fastforce
qed

lemma fire_lookups_keeps [simp]:
  "nd_dialing (fire_lookups E ids now i rs nd) = nd_dialing nd"
  "nd_session (fire_lookups E ids now i rs nd) = nd_session nd"
  by (induction rs arbitrary: i nd) (simp_all add: issue_lookup_def)

lemma fire_dials_last:
  assumes "\<forall>d \<in> set ds. rd_next_at d \<le> now \<and> rd_peer d \<noteq> rd_peer x" and "rd_next_at x \<le> now"
    and "rd_addrs x \<noteq> []" and "rd_peer x \<notin> set (nd_dialing nd)" and "\<not> has_session (rd_peer x) (nd_session nd)"
  shows "rd_peer x \<in> set (nd_dialing (fire_dials now (ds @ [x]) nd)) \<and>
    Dial (DialPeer (rd_transport x) (rd_addrs x)) \<in> set (bh_queue (nd_session (fire_dials now (ds @ [x]) nd)))"
proof -
  obtain nd' where "fire_dials now (ds @ [x]) nd = fire_dials now [x] nd'"
    "has_session (rd_peer x) (nd_session nd') = has_session (rd_peer x) (nd_session nd)"
    "set (nd_dialing nd') \<subseteq> set (nd_dialing nd) \<union> rd_peer ` set ds"
    using fire_dials_append [of ds now "[x]" nd] assms(1) by blast
  moreover from this(3) have "rd_peer x \<notin> set (nd_dialing nd')" using assms(1,4) by (metis UnE imageE subsetD)
  ultimately show ?thesis
    using assms(2,3,5) by (simp add: node_has_session_def dial_peer_def connect_def)
qed

lemma rediscovery_effect:
  "nd_retry_dials (schedule_rediscovery S p d nd) = nd_retry_dials nd"
  "nd_dialing (schedule_rediscovery S p d nd) = nd_dialing nd"
  "lookup_in_flight p (schedule_rediscovery S p d nd)"
  by (simp_all add: schedule_rediscovery_def) (auto simp: lookup_in_flight_def)

lemma reconnect_effect:
  assumes "hm_get (nd_records nd) p = Some r" "p \<notin> set (nd_dialing nd)" "\<not> node_has_session p nd"
  shows "nd_retry_dials (schedule_reconnect S p nd) = nd_retry_dials nd
      @ [\<lparr>rd_peer = p, rd_transport = vr_transport_peer r, rd_addrs = vr_addrs r,
          rd_next_at = su_now S + RECONNECT_DIAL_DELAY\<rparr>]"
    and "nd_dialing (schedule_reconnect S p nd) = nd_dialing nd"
    and "lookup_in_flight p (schedule_reconnect S p nd)"
  using assms by (simp_all add: schedule_reconnect_def rediscovery_effect)


section \<open>Relayed addresses\<close>

lemma p2p_not_verified:
  assumes codecs: "text_codecs_ok E" and a: "a \<in> set (take MAX_ADDRS as)" "list_ex is_p2p (ma_iter a)"
    and r: "sign_addr_record E d as clock rng = Some r"
  shows "verify_addr_record E key r now \<noteq> Some (Inr v)"
proof
  assume "verify_addr_record E key r now = Some (Inr v)"
  then have "verify_key_sig E key r = Some (Inr v)"
    by (auto simp: verify_addr_record_def split: option.splits if_splits)
  then obtain pid where "verify_fields E pid r = Inr v" by (rule verify_key_sig_sound)
  then have "check_addrs E [] [] (ar_addrs r) = Inr (vr_addrs v)" using verify_fields_sound by blast
  from check_addrs_sound [OF this] have ok: "map (ma_from_str E) (ar_addrs r) = map Some (vr_addrs v)"
    "\<forall>m \<in> set (vr_addrs v). \<not> list_ex is_p2p (ma_iter m)" by auto
  have "ar_addrs r = map (ma_to_string E) (take MAX_ADDRS as)"
    using r by (auto simp: sign_addr_record_def Let_def take_map split: option.splits)
  then have "map Some (take MAX_ADDRS as) = map Some (vr_addrs v)"
    using ok(1) text_codecs_simps(3) [OF codecs] by (simp add: comp_def)
  then have "vr_addrs v = take MAX_ADDRS as" by (simp add: inj_map_eq_map)
  then show False using ok(2) a by auto
qed

text \<open>C38. A node that uses a relay makes itself undiscoverable.  The circuit addresses that
  \<open>handle_event\<close> orders once the relay's transport is known carry a \<open>/p2p\<close> component; when
  libp2p reports one of them as a new listen address and it is among the first eight, the record
  the node then publishes is rejected by \<open>verify_addr_record\<close> at every node, at every time.\<close>

theorem relayed_record_rejected:
  assumes codecs: "text_codecs_ok E"
    and ordered: "resolve_relay E t ep nd0 = Some nd1" "ListenOn a \<in> set (nd_orders nd1) - set (nd_orders nd0)"
    and listen: "a \<notin> set (nd_current_addrs nd)"
      "a \<in> set (take MAX_ADDRS (push_new (nd_validated_public_addrs nd) (nd_current_addrs nd @ [a])))"
    and step: "handle_event E J S (SwNewListenAddr a) nd = Some nd'"
  shows "list_ex is_p2p (ma_iter a) \<and> verify_addr_record E key (nd_our_record nd') now \<noteq> Some (Inr v)"
proof -
  obtain b where "a = ma_with (ma_with b (P2p t)) P2pCircuit"
    using ordered by (auto simp: resolve_relay_def split: endpoint.splits option.splits if_splits)
  then have p2p: "list_ex is_p2p (ma_iter a)" by (simp add: ma_with_def)
  let ?as = "push_new (nd_validated_public_addrs nd) (nd_current_addrs nd @ [a])"
  have "?as \<noteq> []" using listen(2) by auto
  then obtain r where "sign_addr_record E (nd_identity nd) ?as (su_secs S) (su_entropy S) = Some r"
    "nd_our_record nd' = r"
    using step listen(1)
    by (auto simp: on_new_listen_addr_def note_listen_addr_def publish_record_def Let_def
        split: if_splits option.splits)
  then show ?thesis using p2p p2p_not_verified [OF codecs listen(2) p2p] by blast
qed

end
