(* ===== verification/Node_Public.thy ===== *)
theory Node_Public
  imports Node_Discovery
begin

text \<open>
  Public addresses: which addresses a node may publish beyond its own listeners, and what the
  periodic maintenance does to probes, candidates and validated addresses.
\<close>

section \<open>Loops that touch one key each\<close>

lemma for_each_pointwise:
  assumes "for_each body i xs s = Some t" and "distinct xs"
    and "\<And>i x s s'. body i x s = Some s' \<Longrightarrow> view s' = (view s)(x := g (view s x))"
  shows "view t = (\<lambda>k. if k \<in> set xs then g (view s k) else view s k)"
  using assms(1,2)
proof (induction xs arbitrary: i s)
  case Nil
  then show ?case by simp
next
  case (Cons x xs)
  then obtain s' where s': "body i x s = Some s'" "for_each body (Suc i) xs s' = Some t"
    by (auto split: option.splits)
  have "view t = (\<lambda>k. if k \<in> set xs then g (view s' k) else view s' k)"
    using Cons.IH [OF s'(2)] Cons.prems(2) by simp
  then show ?case using assms(3) [OF s'(1)] Cons.prems(2) by auto
qed

lemma for_each_constant:
  assumes "for_each body i xs s = Some t" and "\<And>i x s s'. body i x s = Some s' \<Longrightarrow> f s' = f s"
  shows "f t = f s"
  by (rule for_each_keeps [where P = "\<lambda>u. f u = f s", OF assms(1)]) (use assms(2) in auto)

lemma hm_filter_keys:
  assumes "hm_wf m"
  shows "k \<in> set (map fst (filter (\<lambda>(_, v). P v) m)) \<longleftrightarrow> (\<exists>v. hm_get m k = Some v \<and> P v)"
  using hm_get_entry [OF assms] by force

lemma hm_filter_distinct: "hm_wf m \<Longrightarrow> distinct (map fst (filter P m))"
  unfolding hm_wf_def by (induction m) (auto simp: image_iff)

section \<open>The steps on one candidate or probe\<close>

definition candidate_view :: "node \<Rightarrow> multiaddr \<Rightarrow> candidate_state option" where
  "candidate_view nd a = map_option cd_state (hm_get (nd_candidates nd) a)"

definition probe_view :: "node \<Rightarrow> peer_id \<Rightarrow> pending_probe option" where
  "probe_view nd p = hm_get (nd_pending_probes nd) p"

definition public_view :: "node \<Rightarrow> multiaddr \<Rightarrow> bool" where
  "public_view nd a \<longleftrightarrow> a \<in> set (nd_validated_public_addrs nd)"

lemma request_dial_back_effect:
  assumes "request_dial_back E A addr nd = Some nd'"
  shows "candidate_view nd' = candidate_view nd"
    and "nd_validated_public_addrs nd' = nd_validated_public_addrs nd"
    and "nd_pending_probes nd' = nd_pending_probes nd"
  using assms
  by (auto simp: request_dial_back_def candidate_view_def fun_eq_iff Let_def
      split: option.splits if_splits list.splits)

lemma expire_probe_effect:
  assumes "expire_probe E A p nd = Some nd'"
  shows "probe_view nd' = (probe_view nd)(p := None)"
    and "nd_candidates nd' = nd_candidates nd"
    and "nd_validated_public_addrs nd' = nd_validated_public_addrs nd"
  using assms
  by (auto simp: expire_probe_def report_probe_def probe_view_def fun_eq_iff Let_def split: option.splits)

definition rejected_state :: "crates \<Rightarrow> candidate_state option \<Rightarrow> candidate_state option" where
  "rejected_state E st = (case st of None \<Rightarrow> None | Some x \<Rightarrow> reject_state E x)"

lemma reject_effect:
  assumes "reject_candidate E a c nd = Some nd'" and "hm_get (nd_candidates nd) a = Some c"
  shows "candidate_view nd' = (candidate_view nd)(a := rejected_state E (candidate_view nd a))"
    and "public_view nd' = (public_view nd)(a := False)"
    and "nd_pending_probes nd' = nd_pending_probes nd"
    and "hm_wf (nd_candidates nd) \<Longrightarrow> hm_wf (nd_candidates nd')"
  using assms
  by (auto simp: reject_candidate_def candidate_view_def public_view_def rejected_state_def fun_eq_iff)

lemma expire_candidate_effect:
  assumes "expire_candidate E a nd = Some nd'"
  shows "candidate_view nd' = (candidate_view nd)(a := rejected_state E (candidate_view nd a))"
    and "public_view nd' = (public_view nd)(a := False)"
    and "nd_pending_probes nd' = nd_pending_probes nd"
    and "hm_wf (nd_candidates nd) \<Longrightarrow> hm_wf (nd_candidates nd')"
  using assms reject_effect by (auto simp: expire_candidate_def split: option.splits)

lemma renew_candidate_effect:
  assumes "renew_candidate now a nd = Some nd'"
  shows "candidate_view nd' = (candidate_view nd)(a := map_option (\<lambda>_. CandPending now) (candidate_view nd a))"
    and "nd_validated_public_addrs nd' = nd_validated_public_addrs nd"
    and "nd_pending_probes nd' = nd_pending_probes nd"
  using assms by (auto simp: renew_candidate_def candidate_view_def fun_eq_iff split: option.splits)

section \<open>Maintenance of public addresses\<close>

text \<open>What one round makes of a candidate.\<close>

definition aged :: "instant \<Rightarrow> candidate_state \<Rightarrow> candidate_state" where
  "aged now st =
     (if validation_expired now st then CandRejected 1
      else if revalidation_due now st then CandPending now
      else st)"

text \<open>The four passes, each with its effect on the views.\<close>

abbreviation probes_expired :: "instant \<Rightarrow> node \<Rightarrow> peer_id list" where
  "probes_expired now nd \<equiv> map fst (filter (\<lambda>(_, p). probe_expired now p) (nd_pending_probes nd))"

abbreviation candidates_where :: "(candidate_state \<Rightarrow> bool) \<Rightarrow> node \<Rightarrow> multiaddr list" where
  "candidates_where P nd \<equiv> map fst (filter (\<lambda>(_, c). P (cd_state c)) (nd_candidates nd))"

lemma candidates_where_iff:
  assumes "hm_wf (nd_candidates nd)"
  shows "a \<in> set (candidates_where P nd) \<longleftrightarrow> (\<exists>st. candidate_view nd a = Some st \<and> P st)"
  using hm_filter_keys [OF assms, of a "\<lambda>c. P (cd_state c)"] by (auto simp: candidate_view_def)

lemma probes_pass:
  assumes wf: "hm_wf (nd_pending_probes nd)"
    and r: "for_each (\<lambda>i peer. expire_probe E (amb i) peer) 0 (probes_expired now nd) nd = Some nd1"
  shows "probe_view nd1 p = (case probe_view nd p of None \<Rightarrow> None
      | Some pr \<Rightarrow> if probe_expired now pr then None else Some pr)"
    and "nd_candidates nd1 = nd_candidates nd" "nd_validated_public_addrs nd1 = nd_validated_public_addrs nd"
proof -
  have "probe_view nd1 = (\<lambda>k. if k \<in> set (probes_expired now nd) then None else probe_view nd k)"
    by (rule for_each_pointwise [OF r hm_filter_distinct [OF wf], where g = "\<lambda>_. None"])
      (rule expire_probe_effect(1))
  then show "probe_view nd1 p = (case probe_view nd p of None \<Rightarrow> None
      | Some pr \<Rightarrow> if probe_expired now pr then None else Some pr)"
    using hm_filter_keys [OF wf, of p "probe_expired now"]
    by (auto simp: probe_view_def split: option.split)
  show "nd_candidates nd1 = nd_candidates nd" "nd_validated_public_addrs nd1 = nd_validated_public_addrs nd"
    using for_each_constant [OF r, of nd_candidates] for_each_constant [OF r, of nd_validated_public_addrs]
      expire_probe_effect by blast+
qed

lemma timeouts_pass:
  assumes wf: "hm_wf (nd_candidates nd)"
    and r: "for_each (\<lambda>_ addr. expire_candidate E addr) 0 (candidates_where (validation_expired now) nd) nd = Some nd1"
  shows "candidate_view nd1 a
      = map_option (\<lambda>st. if validation_expired now st then CandRejected 1 else st) (candidate_view nd a)"
    and "public_view nd1 a \<longleftrightarrow> public_view nd a \<and>
      \<not> (\<exists>st. candidate_view nd a = Some st \<and> validation_expired now st)"
    and "nd_pending_probes nd1 = nd_pending_probes nd" and "hm_wf (nd_candidates nd1)"
proof -
  let ?ks = "candidates_where (validation_expired now) nd"
  have d: "distinct ?ks" by (rule hm_filter_distinct [OF wf])
  have pend: "rejected_state E (Some st) = Some (CandRejected 1)" if "validation_expired now st" for st
    using that by (cases st) (simp_all add: rejected_state_def reject_state_def)
  have "candidate_view nd1 = (\<lambda>k. if k \<in> set ?ks then rejected_state E (candidate_view nd k) else candidate_view nd k)"
    by (rule for_each_pointwise [OF r d]) (rule expire_candidate_effect(1))
  then show "candidate_view nd1 a
      = map_option (\<lambda>st. if validation_expired now st then CandRejected 1 else st) (candidate_view nd a)"
    using candidates_where_iff [OF wf, of a "validation_expired now"] pend
    by (cases "candidate_view nd a") auto
  have "public_view nd1 = (\<lambda>k. if k \<in> set ?ks then False else public_view nd k)"
    by (rule for_each_pointwise [OF r d, where g = "\<lambda>_. False"]) (rule expire_candidate_effect(2))
  then show "public_view nd1 a \<longleftrightarrow> public_view nd a \<and>
      \<not> (\<exists>st. candidate_view nd a = Some st \<and> validation_expired now st)"
    using candidates_where_iff [OF wf, of a "validation_expired now"] by auto
  show "nd_pending_probes nd1 = nd_pending_probes nd"
    using for_each_constant [OF r, of nd_pending_probes] expire_candidate_effect(3) by blast
  show "hm_wf (nd_candidates nd1)"
    by (rule for_each_keeps [where P = "\<lambda>u. hm_wf (nd_candidates u)", OF r wf])
      (rule expire_candidate_effect(4))
qed

lemma renewals_pass:
  assumes wf: "hm_wf (nd_candidates nd)" and ks: "ks = candidates_where (revalidation_due now) nd"
    and r: "for_each (\<lambda>_ addr. renew_candidate now addr) 0 ks nd = Some nd1"
      "for_each (\<lambda>i addr. request_dial_back E (amb i) addr) 0 ks nd1 = Some nd2"
  shows "candidate_view nd2 a
      = map_option (\<lambda>st. if revalidation_due now st then CandPending now else st) (candidate_view nd a)"
    and "nd_validated_public_addrs nd2 = nd_validated_public_addrs nd"
    and "nd_pending_probes nd2 = nd_pending_probes nd"
proof -
  have "distinct ks" unfolding ks by (rule hm_filter_distinct [OF wf])
  then have "candidate_view nd1 = (\<lambda>k. if k \<in> set ks then map_option (\<lambda>_. CandPending now) (candidate_view nd k)
      else candidate_view nd k)"
    by (rule for_each_pointwise [OF r(1)]) (rule renew_candidate_effect(1))
  moreover have "candidate_view nd2 = candidate_view nd1"
    using for_each_constant [OF r(2), of candidate_view] request_dial_back_effect(1) by blast
  ultimately show "candidate_view nd2 a
      = map_option (\<lambda>st. if revalidation_due now st then CandPending now else st) (candidate_view nd a)"
    using candidates_where_iff [OF wf, of a "revalidation_due now"] unfolding ks
    by (cases "candidate_view nd a") auto
  have "nd_validated_public_addrs nd1 = nd_validated_public_addrs nd" "nd_pending_probes nd1 = nd_pending_probes nd"
    using for_each_constant [OF r(1), of nd_validated_public_addrs] for_each_constant [OF r(1), of nd_pending_probes]
      renew_candidate_effect(2,3) by blast+
  moreover have "nd_validated_public_addrs nd2 = nd_validated_public_addrs nd1" "nd_pending_probes nd2 = nd_pending_probes nd1"
    using for_each_constant [OF r(2), of nd_validated_public_addrs] for_each_constant [OF r(2), of nd_pending_probes]
      request_dial_back_effect(2,3) by blast+
  ultimately show "nd_validated_public_addrs nd2 = nd_validated_public_addrs nd"
    "nd_pending_probes nd2 = nd_pending_probes nd" by simp_all
qed

lemma maintenance_views:
  assumes wf: "hm_wf (nd_candidates nd)" "hm_wf (nd_pending_probes nd)"
    and step: "public_addr_maintenance E S nd = Some nd'"
  shows "probe_view nd' p = (case probe_view nd p of None \<Rightarrow> None
      | Some pr \<Rightarrow> if probe_expired (su_now S) pr then None else Some pr)"
    and "candidate_view nd' a = map_option (aged (su_now S)) (candidate_view nd a)"
    and "public_view nd' a \<longleftrightarrow> public_view nd a \<and>
      \<not> (\<exists>st. candidate_view nd a = Some st \<and> validation_expired (su_now S) st)"
proof -
  let ?now = "su_now S"
  obtain nd1 nd2 nd3 where
    r1: "for_each (\<lambda>i peer. expire_probe E (su_amb S i) peer) 0 (probes_expired ?now nd) nd = Some nd1" and
    r2: "for_each (\<lambda>_ addr. expire_candidate E addr) 0 (candidates_where (validation_expired ?now) nd1) nd1 = Some nd2" and
    r3: "for_each (\<lambda>_ addr. renew_candidate ?now addr) 0 (candidates_where (revalidation_due ?now) nd2) nd2 = Some nd3"
    "for_each (\<lambda>i addr. request_dial_back E (su_amb S (length (probes_expired ?now nd) + i)) addr) 0
       (candidates_where (revalidation_due ?now) nd2) nd3 = Some nd'"
    using step by (auto simp: public_addr_maintenance_def Let_def split: option.splits)
  note p1 = probes_pass [OF wf(2) r1]
  have wf1: "hm_wf (nd_candidates nd1)" using wf(1) p1(2) by simp
  note p2 = timeouts_pass [OF wf1 r2]
  note p3 = renewals_pass [OF p2(4) refl r3]
  have same: "candidate_view nd1 = candidate_view nd" "public_view nd1 = public_view nd"
    by (simp_all add: p1 candidate_view_def public_view_def fun_eq_iff)
  show "probe_view nd' p = (case probe_view nd p of None \<Rightarrow> None
      | Some pr \<Rightarrow> if probe_expired ?now pr then None else Some pr)"
    using p1(1) p2(3) p3(3) by (simp add: probe_view_def)
  show "candidate_view nd' a = map_option (aged ?now) (candidate_view nd a)"
    unfolding p3(1) p2(1) same by (cases "candidate_view nd a") (simp_all add: aged_def)
  show "public_view nd' a \<longleftrightarrow> public_view nd a \<and>
      \<not> (\<exists>st. candidate_view nd a = Some st \<and> validation_expired ?now st)"
    using p2(2) [of a] p3(2) same by (simp add: public_view_def)
qed


text \<open>C21. One round of \<open>public_addr_maintenance\<close>, exactly: a probe disappears when it is 30 seconds
  old and stays otherwise; a candidate that waits for its validation for 15 seconds becomes
  rejected, one that was validated 300 seconds ago waits again, every other one keeps its
  state; an address stops being published exactly when the validation of its candidate timed
  out, so an address under re-validation stays public meanwhile.\<close>

theorem public_maintenance_exact:
  assumes reach: "reachable (node_init E) (node_next E J) (ops, nd)"
    and step: "public_addr_maintenance E S nd = Some nd'"
  shows "(\<forall>p. hm_get (nd_pending_probes nd') p = (case hm_get (nd_pending_probes nd) p of
        None \<Rightarrow> None
      | Some pr \<Rightarrow> if duration_since (su_now S) (pp_since pr) \<ge> secs 30 then None else Some pr)) \<and>
    (\<forall>a. map_option cd_state (hm_get (nd_candidates nd') a)
        = map_option (\<lambda>c. case cd_state c of
            CandPending since \<Rightarrow>
              if duration_since (su_now S) since \<ge> secs 15 then CandRejected 1 else CandPending since
          | CandValidated since \<Rightarrow>
              if duration_since (su_now S) since \<ge> secs 300 then CandPending (su_now S) else CandValidated since
          | CandRejected n \<Rightarrow> CandRejected n) (hm_get (nd_candidates nd) a)) \<and>
    (\<forall>a. a \<in> set (nd_validated_public_addrs nd') \<longleftrightarrow> a \<in> set (nd_validated_public_addrs nd) \<and>
       \<not> (\<exists>c since. hm_get (nd_candidates nd) a = Some c \<and> cd_state c = CandPending since \<and>
            duration_since (su_now S) since \<ge> secs 15))"
proof -
  have "node_inv E ops nd" using node_sys.reachable_inv [OF reach] by simp
  then have wf: "hm_wf (nd_candidates nd)" "hm_wf (nd_pending_probes nd)" by (simp_all add: node_inv_def)
  note v = maintenance_views [OF wf step]
  have "hm_get (nd_pending_probes nd') p = (case hm_get (nd_pending_probes nd) p of
        None \<Rightarrow> None
      | Some pr \<Rightarrow> if duration_since (su_now S) (pp_since pr) \<ge> secs 30 then None else Some pr)" for p
    using v(1) [of p]
    by (cases "hm_get (nd_pending_probes nd) p") (simp_all add: probe_view_def probe_expired_def PROBE_TIMEOUT_def)
  moreover have aged: "aged (su_now S) st = (case st of
      CandPending since \<Rightarrow> if duration_since (su_now S) since \<ge> secs 15 then CandRejected 1 else CandPending since
    | CandValidated since \<Rightarrow>
        if duration_since (su_now S) since \<ge> secs 300 then CandPending (su_now S) else CandValidated since
    | CandRejected n \<Rightarrow> CandRejected n)" for st
    by (cases st) (simp_all add: aged_def VALIDATION_TIMEOUT_def PUBLIC_REVALIDATE_INTERVAL_def)
  moreover have "map_option cd_state (hm_get (nd_candidates nd') a)
      = map_option (\<lambda>c. aged (su_now S) (cd_state c)) (hm_get (nd_candidates nd) a)" for a
    using v(2) [of a] by (simp add: candidate_view_def option.map_comp comp_def)
  moreover have "validation_expired (su_now S) st \<longleftrightarrow>
      (\<exists>since. st = CandPending since \<and> duration_since (su_now S) since \<ge> secs 15)" for st
    by (cases st) (simp_all add: VALIDATION_TIMEOUT_def)
  then have "a \<in> set (nd_validated_public_addrs nd') \<longleftrightarrow> a \<in> set (nd_validated_public_addrs nd) \<and>
       \<not> (\<exists>c since. hm_get (nd_candidates nd) a = Some c \<and> cd_state c = CandPending since \<and>
            duration_since (su_now S) since \<ge> secs 15)" for a
    using v(3) [of a] by (auto simp: public_view_def candidate_view_def)
  ultimately show ?thesis by simp
qed

section \<open>Which addresses become public\<close>

text \<open>C12. Only confirmed addresses are published.  In every reachable state the validated
  addresses are distinct, each was reported reachable by a peer in a dial-back result, and its
  candidate is not rejected.  A dial-back result adds an address only when it is positive
  and comes from the peer the node asked to probe that candidate, and a negative one from
  that peer removes it.\<close>

theorem public_addrs_validated:
  assumes "reachable (node_init E) (node_next E J) (ops, nd)"
  shows "distinct (nd_validated_public_addrs nd) \<and>
    (\<forall>a \<in> set (nd_validated_public_addrs nd).
       (\<exists>p. NodeEvent (SwSession (DialBackResolved p a True)) \<in> set ops) \<and>
       (\<exists>c. hm_get (nd_candidates nd) a = Some c \<and> (\<forall>n. cd_state c \<noteq> CandRejected n))) \<and>
    (\<forall>S peer a rch nd'. on_dial_back_res E J S peer a rch nd = Some nd' \<longrightarrow>
       set (nd_validated_public_addrs nd') =
         (if \<exists>c. hm_get (nd_candidates nd) a = Some c \<and> cd_prober c = peer
          then (if rch then insert a (set (nd_validated_public_addrs nd))
                else set (nd_validated_public_addrs nd) - {a})
          else set (nd_validated_public_addrs nd)) \<or>
       rch \<and> nd' = nd \<and> (\<exists>c since. hm_get (nd_candidates nd) a = Some c \<and> cd_state c = CandValidated since))"
proof -
  have inv: "node_inv E ops nd" using node_sys.reachable_inv [OF assms] by simp
  have "\<forall>n. cd_state c \<noteq> CandRejected n" if "live_candidate (cd_state c)" for c using that by auto
  then have "\<forall>a \<in> set (nd_validated_public_addrs nd).
       (\<exists>p. NodeEvent (SwSession (DialBackResolved p a True)) \<in> set ops) \<and>
       (\<exists>c. hm_get (nd_candidates nd) a = Some c \<and> (\<forall>n. cd_state c \<noteq> CandRejected n))"
    using inv unfolding node_inv_def reported_def by blast
  moreover have pub: "nd_validated_public_addrs nd2 = nd_validated_public_addrs nd1"
    if "publish_record E J S nd1 = Some nd2" for S nd1 nd2
    using that by (auto simp: publish_record_def Let_def split: if_splits option.splits)
  have "set (nd_validated_public_addrs nd') =
         (if \<exists>c. hm_get (nd_candidates nd) a = Some c \<and> cd_prober c = peer
          then (if rch then insert a (set (nd_validated_public_addrs nd))
                else set (nd_validated_public_addrs nd) - {a})
          else set (nd_validated_public_addrs nd)) \<or>
       rch \<and> nd' = nd \<and> (\<exists>c since. hm_get (nd_candidates nd) a = Some c \<and> cd_state c = CandValidated since)"
    if step: "on_dial_back_res E J S peer a rch nd = Some nd'" for S peer a rch nd'
  proof (cases "hm_get (nd_candidates nd) a")
    case None
    then show ?thesis using step by (simp add: on_dial_back_res_def)
  next
    case (Some c)
    then show ?thesis using step
      by (cases rch; cases "cd_state c")
        (auto simp: on_dial_back_res_def reject_candidate_def push_new_one split: if_splits option.splits dest!: pub)
  qed
  ultimately show ?thesis using inv unfolding node_inv_def by blast
qed

text \<open>C39. The validation budget is not kept.  An address whose candidate has been rejected fewer
  than three times is tried again when a peer reports it, and the new attempt forgets the count:
  if it times out the candidate is rejected with a count of one, whatever the count
  was before.  So an address that never validates is probed again at every report, and the
  limit \<open>MAX_VALIDATION_ATTEMPTS\<close> is never reached by timeouts.\<close>

theorem validation_budget_resets:
  assumes wf: "hm_wf (nd_candidates nd)" "hm_wf (nd_pending_probes nd)"
    and ext: "is_external_ip S ip nd" "candidate_for E ip nd = Some addr"
      "ip \<in> set (nd_external_ips nd) \<or> addr \<notin> set (nd_current_addrs nd)"
    and c: "hm_get (nd_candidates nd) addr = Some c" "cd_state c = CandRejected n" "n < MAX_VALIDATION_ATTEMPTS"
    and seen: "on_observed_addr E S peer ip port nd = Some nd1"
    and tick: "public_addr_maintenance E S' nd1 = Some nd2" "su_now S' \<ge> su_now S + secs 15"
  shows "map_option cd_state (hm_get (nd_candidates nd1) addr) = Some (CandPending (su_now S)) \<and>
    map_option cd_state (hm_get (nd_candidates nd2) addr) = Some (CandRejected 1)"
proof -
  let ?nd = "nd\<lparr>nd_candidates := hm_insert addr \<lparr>cd_state = CandPending (su_now S), cd_prober = peer\<rparr> (nd_candidates nd)\<rparr>"
  have "\<not> MAX_VALIDATION_ATTEMPTS \<le> n" using c(3) by simp
  then have ask: "request_dial_back E (su_amb S 0) addr ?nd = Some nd1"
    using seen ext c(1,2) by (auto simp: on_observed_addr_def Let_def)
  have wf1: "hm_wf (nd_candidates nd1)" "hm_wf (nd_pending_probes nd1)"
    using ask wf by (auto simp: request_dial_back_def Let_def split: option.splits if_splits list.splits)
  have now: "candidate_view nd1 addr = Some (CandPending (su_now S))"
    using request_dial_back_effect(1) [OF ask] by (simp add: candidate_view_def)
  have "validation_expired (su_now S') (CandPending (su_now S))"
    using tick(2) by (simp add: VALIDATION_TIMEOUT_def duration_since_def)
  then have "candidate_view nd2 addr = Some (CandRejected 1)"
    using maintenance_views(2) [OF wf1 tick(1), of addr] now by (simp add: aged_def)
  with now show ?thesis by (simp add: candidate_view_def)
qed

section \<open>Local addresses\<close>

text \<open>The first entry of each printed form.\<close>

fun nub_by :: "('a \<Rightarrow> 'b) \<Rightarrow> 'a list \<Rightarrow> 'a list" where
  "nub_by f [] = []"
| "nub_by f (x # xs) = x # filter (\<lambda>y. f y \<noteq> f x) (nub_by f xs)"

lemma nub_by_distinct: "distinct (map f (nub_by f xs))"
proof (induction xs)
  case (Cons x xs)
  then have "distinct (map f (filter (\<lambda>y. f y \<noteq> f x) (nub_by f xs)))" by (rule distinct_map_filter)
  then show ?case by auto
qed simp

lemma nub_by_id: "distinct (map f xs) \<Longrightarrow> nub_by f xs = xs"
  by (induction xs) (fastforce simp: filter_id_conv image_iff)+

lemma filter_local_loop_eq:
  "filter_local_loop E ips seen as
     = filter (\<lambda>a. ma_to_string E a \<notin> set seen) (nub_by (ma_to_string E) (filter (keep_local ips) as))"
proof (induction as arbitrary: seen)
  case (Cons a as)
  have split: "filter (\<lambda>b. ma_to_string E b \<notin> set (ma_to_string E a # seen)) xs
      = filter (\<lambda>b. ma_to_string E b \<notin> set seen) (filter (\<lambda>b. ma_to_string E b \<noteq> ma_to_string E a) xs)" for xs
    by (induction xs) auto
  have skip: "filter (\<lambda>b. ma_to_string E b \<notin> set seen) (filter (\<lambda>b. ma_to_string E b \<noteq> ma_to_string E a) xs)
      = filter (\<lambda>b. ma_to_string E b \<notin> set seen) xs" if "ma_to_string E a \<in> set seen" for xs
    using that by (induction xs) auto
  show ?case using Cons split skip by auto
qed simp


end
