(* ===== verification/Node_Total.thy ===== *)
theory Node_Total
  imports Node_Sessions
begin

text \<open>
  No step of a node panics in a release build: the \<open>expect\<close>s and \<open>unwrap\<close>s of \<open>src/node.rs\<close>
  hold in every reachable state, whatever arrives.  What can run out is the 32-bit counter of a
  session, which a step advances once per control frame it seals; the lemmas count these.
\<close>

section \<open>Room in the session counters\<close>

definition release_ok :: "crates \<Rightarrow> record_json \<Rightarrow> bool" where
  "release_ok E J \<longleftrightarrow>
     hash_sized E \<and> peer_ids_ok E \<and> kdf_total E \<and> dsa_correct E \<and> aead_correct E \<and> record_json_ok J \<and>
     \<not> overflow_checks E \<and> \<not> debug_assertions E"

text \<open>Every session can seal \<open>n\<close> more frames.\<close>

definition seal_room :: "nat \<Rightarrow> behaviour \<Rightarrow> bool" where
  "seal_room n b \<longleftrightarrow>
     (\<forall>p t c s. hm_get (bh_sessions b) p = Some (t, c, s) \<longrightarrow> unat (ss_out_seq s) + n < 2 ^ 32)"

text \<open>The configured peers have been parsed, the identity is well-formed.\<close>

definition node_able :: "crates \<Rightarrow> nat \<Rightarrow> node \<Rightarrow> bool" where
  "node_able E n nd \<longleftrightarrow>
     seal_room n (nd_session nd) \<and> wf_identity E (nd_identity nd) \<and>
     (\<forall>bp \<in> set (nd_bootstrap_pending nd) \<union> set_option (nd_relay nd). bootstrap_peer_id E bp \<noteq> None)"

lemma seal_room_mono: "seal_room m b \<Longrightarrow> n \<le> m \<Longrightarrow> seal_room n b"
  by (fastforce simp: seal_room_def)

lemma node_able_mono: "node_able E m nd \<Longrightarrow> n \<le> m \<Longrightarrow> node_able E n nd"
  using seal_room_mono by (auto simp: node_able_def)

lemma seal_room_same: "bh_sessions b' = bh_sessions b \<Longrightarrow> seal_room n b' = seal_room n b"
  by (simp add: seal_room_def)

lemma seal_room_frame [simp]:
  "seal_room n (map_transport d t b) = seal_room n b" "seal_room n (connect_unknown as b) = seal_room n b"
  "seal_room n (connect_probe a b) = seal_room n b" "seal_room n (connect d t as b) = seal_room n b"
  by (rule seal_room_same; simp add: map_transport_def connect_unknown_def connect_probe_def connect_def
      split: list.split)+

lemma node_able_frame [simp]:
  "node_able E n (nd\<lparr>nd_orders := x1\<rparr>) = node_able E n nd"
  "node_able E n (nd\<lparr>nd_storage := x2\<rparr>) = node_able E n nd"
  "node_able E n (nd\<lparr>nd_our_record := x3\<rparr>) = node_able E n nd"
  "node_able E n (nd\<lparr>nd_current_addrs := x4\<rparr>) = node_able E n nd"
  "node_able E n (nd\<lparr>nd_last_publish := x5\<rparr>) = node_able E n nd"
  "node_able E n (nd\<lparr>nd_last_interface_scan := x5\<rparr>) = node_able E n nd"
  "node_able E n (nd\<lparr>nd_last_bootstrap := x5\<rparr>) = node_able E n nd"
  "node_able E n (nd\<lparr>nd_bootstrap_mapped := x6\<rparr>) = node_able E n nd"
  "node_able E n (nd\<lparr>nd_bootstrap_dialing := x4\<rparr>) = node_able E n nd"
  "node_able E n (nd\<lparr>nd_pending_lookups := x7\<rparr>) = node_able E n nd"
  "node_able E n (nd\<lparr>nd_retry_lookups := x8\<rparr>) = node_able E n nd"
  "node_able E n (nd\<lparr>nd_dialing := x6\<rparr>) = node_able E n nd"
  "node_able E n (nd\<lparr>nd_had_session := x6\<rparr>) = node_able E n nd"
  "node_able E n (nd\<lparr>nd_retry_dials := x9\<rparr>) = node_able E n nd"
  "node_able E n (nd\<lparr>nd_records := x10\<rparr>) = node_able E n nd"
  "node_able E n (nd\<lparr>nd_candidates := x11\<rparr>) = node_able E n nd"
  "node_able E n (nd\<lparr>nd_validated_public_addrs := x4\<rparr>) = node_able E n nd"
  "node_able E n (nd\<lparr>nd_pending_probes := x12\<rparr>) = node_able E n nd"
  "node_able E n (nd\<lparr>nd_relay_transport := x13\<rparr>) = node_able E n nd"
  "node_able E n (nd\<lparr>nd_relay_dialing := x14\<rparr>) = node_able E n nd"
  "node_able E n (nd\<lparr>nd_peer_paths := x15\<rparr>) = node_able E n nd"
  by (simp_all add: node_able_def)

lemma node_able_session:
  "node_able E n nd \<Longrightarrow> seal_room m b \<Longrightarrow> node_able E m (nd\<lparr>nd_session := b\<rparr>)"
  by (simp add: node_able_def)

text \<open>A loop whose state pays for each of its rounds.\<close>

lemma for_each_spend:
  assumes "P xs s" and "\<And>i x ys s. P (x # ys) s \<Longrightarrow> \<exists>s'. body i x s = Some s' \<and> P ys s'"
  shows "\<exists>t. for_each body i xs s = Some t \<and> P [] t"
  using assms(1)
proof (induction xs arbitrary: i s)
  case (Cons x xs)
  obtain s' where "body i x s = Some s'" "P xs s'" using assms(2) [OF Cons.prems] by blast
  then show ?case using Cons.IH by auto
qed simp

section \<open>Control frames\<close>

lemma dial_back_seals:
  assumes "release_ok E J" and "unat (ss_out_seq s) + 1 < 2 ^ 32"
  shows "\<exists>s' f. encrypt_dial_back_req E a rid s = Some (s', f) \<and> ss_out_seq s' = ss_out_seq s + 1"
    and "\<exists>s' f. encrypt_dial_back_res E a r rid s = Some (s', f) \<and> ss_out_seq s' = ss_out_seq s + 1"
proof -
  have ae: "aead_correct E" and db: "\<not> debug_assertions E" using assms(1) by (simp_all add: release_ok_def)
  have p: "\<exists>p. push_addr E [tag] a = Some p \<and> length p \<le> 515" for tag
    using db by (auto simp: push_addr_def Let_def MAX_CONTROL_ADDR_BYTES_def min_def unat_of_nat)
  have room: "unat (ss_out_seq s) < 2 ^ 32 - 1" using assms(2) by simp
  obtain p1 p2 where q: "push_addr E [DIAL_BACK_REQ_TAG] a = Some p1" "length p1 \<le> 515"
    "push_addr E [DIAL_BACK_RES_TAG] a = Some p2" "length p2 \<le> 515" using p by meson
  show "\<exists>s' f. encrypt_dial_back_req E a rid s = Some (s', f) \<and> ss_out_seq s' = ss_out_seq s + 1"
    using q seal_control_total [OF ae _ room, of p1 rid] by (auto simp: encrypt_dial_back_req_def)
  show "\<exists>s' f. encrypt_dial_back_res E a r rid s = Some (s', f) \<and> ss_out_seq s' = ss_out_seq s + 1"
    using q seal_control_total [OF ae _ room, of "p2 @ [if r then 1 else 0]" rid]
    by (auto simp: encrypt_dial_back_res_def)
qed

lemma send_sealed_spends:
  assumes "\<And>s. unat (ss_out_seq s) + 1 < 2 ^ 32 \<Longrightarrow> \<exists>s' f. seal s = Some (s', f) \<and> ss_out_seq s' = ss_out_seq s + 1"
    and "seal_room (Suc n) b"
  shows "\<exists>b'. send_sealed seal p b = Some b' \<and> seal_room n b'"
proof (cases "hm_get (bh_sessions b) p")
  case None
  then show ?thesis using assms(2) seal_room_mono [of "Suc n" b n] by (simp add: send_sealed_def)
next
  case (Some e)
  then obtain t c s where e: "hm_get (bh_sessions b) p = Some (t, c, s)" by (cases e) auto
  then have u: "unat (ss_out_seq s) + Suc n < 2 ^ 32" using assms(2) unfolding seal_room_def by blast
  then obtain s' f where s': "seal s = Some (s', f)" "ss_out_seq s' = ss_out_seq s + 1" using assms(1) [of s] by auto
  have "unat (ss_out_seq s') \<le> unat (ss_out_seq s) + 1" 
    unfolding s'(2) by (simp add: unat_word_ariths mod_less_eq_dividend)
  then have "seal_room n (set_session p t c s' b)"
    using u seal_room_mono [OF assms(2), of n] by (auto simp: seal_room_def set_session_def)
  then have "seal_room n (notify_conn t c [f] (set_session p t c s' b))"
    by (simp add: seal_room_def)
  then show ?thesis using e s'(1) by (simp add: send_sealed_def)
qed

lemma dial_back_sends:
  assumes "release_ok E J" "seal_room (Suc n) b"
  shows "\<exists>b'. send_dial_back_req E A p a b = Some b' \<and> seal_room n b'"
    and "\<exists>b'. send_dial_back_res E A p a r b = Some b' \<and> seal_room n b'"
  unfolding send_dial_back_req_def send_dial_back_res_def
  by (rule send_sealed_spends [OF _ assms(2)], erule dial_back_seals [OF assms(1)])+

section \<open>The parts of a step\<close>

lemma sign_record_total:
  assumes "dsa_correct E" and "wf_identity E d"
  obtains r where "sign_addr_record E d as clock rng = Some r"
proof -
  have "di_sign E d m rng \<noteq> None" for m
    using wf_identity_sign [OF assms] by (metis option.distinct(1))
  then have "\<exists>r. sign_addr_record E d as clock rng = Some r"
    by (auto simp: sign_addr_record_def Let_def split: option.split)
  then show thesis using that by blast
qed

lemma publish_total:
  assumes ok: "release_ok E J" and "node_able E n nd"
  shows "\<exists>nd'. publish_record E J S nd = Some nd' \<and> node_able E n nd' \<and>
    nd_pending_probes nd' = nd_pending_probes nd \<and> nd_candidates nd' = nd_candidates nd"
proof -
  have d: "dsa_correct E" "record_json_ok J" "wf_identity E (nd_identity nd)"
    using assms by (simp_all add: release_ok_def node_able_def)
  let ?as = "push_new (nd_validated_public_addrs nd) (nd_current_addrs nd)"
  obtain r where "sign_addr_record E (nd_identity nd) ?as (su_secs S) (su_entropy S) = Some r"
    by (rule sign_record_total [OF d(1,3)])
  moreover obtain bs where "record_to_bytes J r = Some bs"
    using d(2) by (auto simp: record_to_bytes_def record_json_ok_def)
  ultimately show ?thesis
    using assms(2) by (cases "?as = []") (simp_all add: publish_record_def)
qed

lemma refresh_total:
  assumes ok: "release_ok E J" and "node_able E n nd"
  shows "\<exists>nd'. refresh_local_addresses E J S nd = Some nd' \<and> node_able E n nd' \<and>
    nd_pending_probes nd' = nd_pending_probes nd \<and> nd_candidates nd' = nd_candidates nd"
proof -
  let ?nd = "\<lambda>as. nd\<lparr>nd_last_interface_scan := su_now S, nd_current_addrs := as\<rparr>"
  have "\<exists>nd'. publish_record E J S (?nd as) = Some nd' \<and> node_able E n nd' \<and>
      nd_pending_probes nd' = nd_pending_probes nd \<and> nd_candidates nd' = nd_candidates nd" for as
    using publish_total [OF ok, of n "?nd as" S] assms(2) by simp
  then show ?thesis
    using assms(2) by (simp add: refresh_local_addresses_def Let_def split: option.split)
qed

lemma verify_total:
  assumes "release_ok E J"
  shows "verify_addr_record E key r now \<noteq> None"
proof -
  have ov: "\<not> overflow_checks E" "hash_sized E" "peer_ids_ok E" using assms by (simp_all add: release_ok_def)
  have n: "peer_id_of E pk = None \<Longrightarrow> False" for pk using peer_id_of_total [OF ov(2,3), of pk] by (metis option.distinct(1))
  have "verify_key_sig E key r \<noteq> None" by (auto simp: verify_key_sig_def split: option.split dest: n)
  then show ?thesis using ov(1) by (simp add: verify_addr_record_def plain_add_def)
qed

lemma dial_peer_able [simp]: "node_able E n (dial_peer p t as nd) = node_able E n nd"
  by (simp add: dial_peer_def node_able_def)

lemma on_kad_total:
  assumes "release_ok E J" and "node_able E n nd"
  shows "on_kad_event E J S ev nd \<noteq> None"
proof -
  have v: "verify_addr_record E key r now = None \<Longrightarrow> False" for key r now using verify_total [OF assms(1)] by blast
  show ?thesis by (cases ev) (auto simp: Let_def split: option.splits sum.splits query_result.splits dest: v)
qed

lemma report_probe_total:
  assumes "release_ok E J" and "node_able E (Suc n) nd"
  shows "\<exists>nd'. report_probe E A p a r nd = Some nd' \<and> node_able E n nd' \<and>
    nd_pending_probes nd' = hm_remove p (nd_pending_probes nd) \<and> nd_candidates nd' = nd_candidates nd"
proof -
  have "seal_room (Suc n) (nd_session nd)" using assms(2) by (simp add: node_able_def)
  then obtain b' where b': "send_dial_back_res E A p a r (nd_session nd) = Some b'" "seal_room n b'"
    using dial_back_sends(2) [OF assms(1)] by blast
  then show ?thesis using assms(2) by (simp add: report_probe_def node_able_def)
qed

lemma request_total:
  assumes "release_ok E J" and "node_able E (Suc n) nd"
  shows "\<exists>nd'. request_dial_back E A a nd = Some nd' \<and> node_able E n nd'"
proof -
  have "seal_room (Suc n) (nd_session nd)" using assms(2) by (simp add: node_able_def)
  then have s: "\<exists>b'. send_dial_back_req E A p a (nd_session nd) = Some b' \<and> seal_room n b'" for p
    by (rule dial_back_sends(1) [OF assms(1)])
  have m: "node_able E n nd" by (rule node_able_mono [OF assms(2)]) simp
  show ?thesis
  proof (cases "hm_get (nd_candidates nd) a")
    case None
    then show ?thesis using m by (simp add: request_dial_back_def)
  next
    case (Some c)
    have sent: "\<exists>nd'. map_option (\<lambda>b. nd\<lparr>nd_candidates := cs, nd_session := b\<rparr>)
        (send_dial_back_req E A p a (nd_session nd)) = Some nd' \<and> node_able E n nd'" for p cs
      using s [of p] assms(2) by (auto simp: node_able_def)
    show ?thesis
      using m Some sent by (simp add: request_dial_back_def Let_def split: list.split)
  qed
qed

lemma on_observed_total:
  assumes "release_ok E J" and "node_able E (Suc n) nd"
  shows "on_observed_addr E S p ip port nd \<noteq> None"
proof -
  have "request_dial_back E (su_amb S 0) a (nd\<lparr>nd_candidates := cs\<rparr>) = None \<Longrightarrow> False" for a cs
    using request_total [OF assms(1), of n "nd\<lparr>nd_candidates := cs\<rparr>" "su_amb S 0" a] assms(2) by auto
  then show ?thesis by (auto simp: on_observed_addr_def Let_def split: option.splits)
qed

lemma reject_total:
  assumes "release_ok E J" and "node_able E n nd"
  shows "\<exists>st. reject_candidate E a c nd = Some (nd\<lparr>nd_candidates := hm_insert a (c\<lparr>cd_state := st\<rparr>) (nd_candidates nd),
      nd_validated_public_addrs := filter (\<lambda>x. x \<noteq> a) (nd_validated_public_addrs nd)\<rparr>)"
proof -
  have "\<not> overflow_checks E" using assms(1) by (simp add: release_ok_def)
  then have "\<exists>st. reject_state E (cd_state c) = Some st"
    by (simp add: reject_state_def plain_add_def split: candidate_state.split)
  then show ?thesis by (auto simp: reject_candidate_def)
qed

lemma on_dial_back_res_total:
  assumes "release_ok E J" and "node_able E n nd"
  shows "on_dial_back_res E J S p a r nd \<noteq> None"
proof -
  have "publish_record E J S (nd\<lparr>nd_candidates := cs, nd_validated_public_addrs := vs\<rparr>) = None \<Longrightarrow> False" for cs vs
    using publish_total [OF assms(1), of n "nd\<lparr>nd_candidates := cs, nd_validated_public_addrs := vs\<rparr>" S] assms(2)
    by fastforce
  moreover obtain st where "reject_candidate E a c nd = Some (nd\<lparr>nd_candidates := hm_insert a (c\<lparr>cd_state := st c\<rparr>)
      (nd_candidates nd), nd_validated_public_addrs := filter (\<lambda>x. x \<noteq> a) (nd_validated_public_addrs nd)\<rparr>)" for c
    using reject_total [OF assms] by metis
  ultimately show ?thesis
    by (auto simp: on_dial_back_res_def split: option.splits candidate_state.splits)
qed

lemma handle_probe_failure_total:
  assumes "release_ok E J" and "node_able E (length (nd_pending_probes nd)) nd"
  shows "\<exists>nd'. handle_probe_failure E S failed nd = Some nd'"
proof -
  let ?matched = "map (\<lambda>(peer, p). (peer, pp_addr p)) (filter (\<lambda>(_, p). pp_addr p \<in> set failed) (nd_pending_probes nd))"
  have "node_able E (length ?matched) nd" by (rule node_able_mono [OF assms(2)]) simp
  then have "\<exists>t. for_each (\<lambda>i (probed, addr). report_probe E (su_amb S i) probed addr False) 0 ?matched nd = Some t \<and>
      node_able E (length ([] :: (peer_id \<times> multiaddr) list)) t"
  proof (rule for_each_spend)
    fix i x and ys :: "(peer_id \<times> multiaddr) list" and s
    assume "node_able E (length (x # ys)) s"
    then show "\<exists>s'. (case x of (probed, addr) \<Rightarrow> report_probe E (su_amb S i) probed addr False) s = Some s' \<and>
        node_able E (length ys) s'"
      using report_probe_total [OF assms(1), of "length ys" s "su_amb S i" "fst x" "snd x" False]
      by (auto simp: split_beta)
  qed
  then show ?thesis by (auto simp: handle_probe_failure_def)
qed


section \<open>Maintenance\<close>

text \<open>The keys of the candidates stay, so the rounds of the last pass are paid for.\<close>

lemma hm_insert_keys: "hm_contains m k \<Longrightarrow> map fst (hm_insert k v m) = map fst m"
  by (force simp: hm_contains_def hm_get_def hm_insert_def AList.update_keys map_of_eq_None_iff)

definition candidates_able :: "crates \<Rightarrow> nat \<Rightarrow> multiaddr list \<Rightarrow> multiaddr list \<Rightarrow> node \<Rightarrow> bool" where
  "candidates_able E n ks xs nd \<longleftrightarrow> node_able E n nd \<and> map fst (nd_candidates nd) = ks \<and> set xs \<subseteq> set ks"

lemma candidate_present: "candidates_able E n ks (a # as) nd \<Longrightarrow> hm_contains (nd_candidates nd) a"
  by (force simp: candidates_able_def hm_contains_def hm_get_def map_of_eq_None_iff)

lemma expire_candidate_total:
  assumes "release_ok E J" and "candidates_able E n ks (a # as) nd"
  shows "\<exists>nd'. expire_candidate E a nd = Some nd' \<and> candidates_able E n ks as nd'"
proof -
  note h = candidate_present [OF assms(2)]
  then obtain c where c: "hm_get (nd_candidates nd) a = Some c" by (auto simp: hm_contains_def)
  have able: "node_able E n nd" using assms(2) by (simp add: candidates_able_def)
  show ?thesis
    using reject_total [OF assms(1) able, of a c] c assms(2) hm_insert_keys [OF h]
    by (auto simp: expire_candidate_def candidates_able_def)
qed

lemma renew_candidate_total:
  assumes "candidates_able E n ks (a # as) nd"
  shows "\<exists>nd'. renew_candidate now a nd = Some nd' \<and> candidates_able E n ks as nd'"
proof -
  note h = candidate_present [OF assms]
  then obtain c where c: "hm_get (nd_candidates nd) a = Some c" by (auto simp: hm_contains_def)
  then show ?thesis
    using assms hm_insert_keys [OF h] by (auto simp: renew_candidate_def candidates_able_def)
qed

definition probes_able :: "crates \<Rightarrow> nat \<Rightarrow> (multiaddr, candidate) hmap \<Rightarrow> peer_id list \<Rightarrow> node \<Rightarrow> bool" where
  "probes_able E n cs ps nd \<longleftrightarrow> node_able E (length ps + n) nd \<and> nd_candidates nd = cs \<and> distinct ps \<and>
     (\<forall>p \<in> set ps. hm_contains (nd_pending_probes nd) p)"

lemma expire_probe_total:
  assumes "release_ok E J" and "probes_able E n cs (p # ps) nd"
  shows "\<exists>nd'. expire_probe E A p nd = Some nd' \<and> probes_able E n cs ps nd'"
proof -
  obtain pr where pr: "hm_get (nd_pending_probes nd) p = Some pr"
    using assms(2) by (auto simp: probes_able_def hm_contains_def)
  have "node_able E (Suc (length ps + n)) nd" using assms(2) by (simp add: probes_able_def)
  from report_probe_total [OF assms(1) this, of A p "pp_addr pr" False] obtain nd' where
    "report_probe E A p (pp_addr pr) False nd = Some nd'" "node_able E (length ps + n) nd'"
    "nd_pending_probes nd' = hm_remove p (nd_pending_probes nd)" "nd_candidates nd' = nd_candidates nd" by blast
  then show ?thesis using pr assms(2) by (auto simp: expire_probe_def probes_able_def)
qed

lemma public_addr_total:
  assumes ok: "release_ok E J" and wf: "hm_wf (nd_pending_probes nd)"
    and able: "node_able E (length (nd_pending_probes nd) + length (nd_candidates nd)) nd"
  shows "\<exists>nd'. public_addr_maintenance E S nd = Some nd' \<and> node_able E 0 nd'"
proof -
  let ?n = "length (nd_candidates nd)" and ?ks = "map fst (nd_candidates nd)"
  define expired where "expired = map fst (filter (\<lambda>(_, p). probe_expired (su_now S) p) (nd_pending_probes nd))"
  have "probes_able E ?n (nd_candidates nd) expired nd"
  proof -
    have "node_able E (length expired + ?n) nd" by (rule node_able_mono [OF able]) (simp add: expired_def)
    moreover have "distinct expired" using wf by (simp add: expired_def hm_wf_def distinct_map_filter)
    moreover have "hm_contains (nd_pending_probes nd) p" if "p \<in> set expired" for p
      using that by (force simp: expired_def hm_contains_def hm_get_def map_of_eq_None_iff)
    ultimately show ?thesis by (simp add: probes_able_def)
  qed
  then have "\<exists>t. for_each (\<lambda>i. expire_probe E (su_amb S i)) 0 expired nd = Some t \<and>
      probes_able E ?n (nd_candidates nd) [] t"
    by (rule for_each_spend) (rule expire_probe_total [OF ok])
  then obtain nd1 where nd1: "for_each (\<lambda>i. expire_probe E (su_amb S i)) 0 expired nd = Some nd1"
    "probes_able E ?n (nd_candidates nd) [] nd1" by blast
  define timed_out where "timed_out = map fst (filter (\<lambda>(_, c). validation_expired (su_now S) (cd_state c)) (nd_candidates nd1))"
  have "candidates_able E ?n ?ks timed_out nd1" using nd1(2) by (auto simp: candidates_able_def probes_able_def timed_out_def)
  then have "\<exists>t. for_each (\<lambda>_. expire_candidate E) 0 timed_out nd1 = Some t \<and> candidates_able E ?n ?ks [] t"
    by (rule for_each_spend) (rule expire_candidate_total [OF ok])
  then obtain nd2 where nd2: "for_each (\<lambda>_. expire_candidate E) 0 timed_out nd1 = Some nd2"
    "candidates_able E ?n ?ks [] nd2" by blast
  define due where "due = map fst (filter (\<lambda>(_, c). revalidation_due (su_now S) (cd_state c)) (nd_candidates nd2))"
  have "set due \<subseteq> set (map fst (nd_candidates nd2))" by (auto simp: due_def)
  then have "candidates_able E ?n ?ks due nd2" using nd2(2) unfolding candidates_able_def by metis
  then have "\<exists>t. for_each (\<lambda>_. renew_candidate (su_now S)) 0 due nd2 = Some t \<and> candidates_able E ?n ?ks [] t"
    by (rule for_each_spend) (rule renew_candidate_total)
  then obtain nd3 where nd3: "for_each (\<lambda>_. renew_candidate (su_now S)) 0 due nd2 = Some nd3"
    "candidates_able E ?n ?ks [] nd3" by blast
  have "length due \<le> length (map fst (nd_candidates nd2))" by (simp add: due_def)
  also have "map fst (nd_candidates nd2) = ?ks" using nd2(2) by (simp add: candidates_able_def)
  finally have "node_able E (length due) nd3"
    using nd3(2) node_able_mono [of E ?n nd3 "length due"] by (simp add: candidates_able_def)
  then have "\<exists>t. for_each (\<lambda>i. request_dial_back E (su_amb S (length expired + i))) 0 due nd3 = Some t \<and>
      node_able E (length ([] :: multiaddr list)) t"
    by (rule for_each_spend [where P = "\<lambda>xs. node_able E (length xs)"]) (simp add: request_total [OF ok])
  then obtain nd4 where "for_each (\<lambda>i. request_dial_back E (su_amb S (length expired + i))) 0 due nd3 = Some nd4"
    "node_able E 0 nd4" by auto
  then show ?thesis
    using nd1(1) nd2(1) nd3(1) unfolding public_addr_maintenance_def Let_def
    by (simp add: expired_def timed_out_def due_def)
qed


lemma fire_dials_able: "node_able E n nd \<Longrightarrow> node_able E n (fire_dials now ds nd)"
  by (induction ds arbitrary: nd) simp_all

lemma fire_lookups_able: "node_able E n nd \<Longrightarrow> node_able E n (fire_lookups E ids now i rs nd)"
  by (induction rs arbitrary: i nd) (simp_all add: issue_lookup_def)

lemma bootstrap_total:
  assumes "node_able E n nd"
  shows "\<exists>nd'. bootstrap_maintenance E S nd = Some nd' \<and> node_able E n nd'"
proof -
  let ?P = "\<lambda>xs x. node_able E n x \<and> (\<forall>bp \<in> set xs. bootstrap_peer_id E bp \<noteq> None)"
  have "?P (nd_bootstrap_pending nd) (nd\<lparr>nd_last_bootstrap := su_now S\<rparr>)" using assms by (simp add: node_able_def)
  then have "\<exists>t. for_each (\<lambda>_. dial_bootstrap E) 0 (nd_bootstrap_pending nd) (nd\<lparr>nd_last_bootstrap := su_now S\<rparr>) = Some t \<and> ?P [] t"
    by (rule for_each_spend) (auto simp: dial_bootstrap_def node_able_def Let_def)
  then show ?thesis using assms by (auto simp: bootstrap_maintenance_def)
qed

lemma maintenance_total:
  assumes ok: "release_ok E J" and wf: "hm_wf (nd_pending_probes nd)"
    and able: "node_able E (length (nd_pending_probes nd) + length (nd_candidates nd)) nd"
  shows "\<exists>nd'. maintenance E J S nd = Some nd'"
proof -
  obtain nd1 where nd1: "refresh_local_addresses E J S nd = Some nd1"
    "node_able E (length (nd_pending_probes nd1) + length (nd_candidates nd1)) nd1" "hm_wf (nd_pending_probes nd1)"
    using refresh_total [OF ok able, of S] wf by auto
  obtain nd2 where nd2: "(if duration_since (su_now S) (nd_last_publish nd1) \<ge> PUBLISH_INTERVAL
      then publish_record E J S nd1 else Some nd1) = Some nd2"
    "node_able E (length (nd_pending_probes nd2) + length (nd_candidates nd2)) nd2" "hm_wf (nd_pending_probes nd2)"
    using publish_total [OF ok nd1(2), of S] nd1(2,3) by (metis (no_types, lifting))
  obtain nd3 where nd3: "public_addr_maintenance E S nd2 = Some nd3" "node_able E 0 nd3"
    using public_addr_total [OF ok nd2(3,2)] by blast
  let ?nd4 = "fire_dials (su_now S) (nd_retry_dials nd3) nd3"
  let ?nd5 = "fire_lookups E (su_query S) (su_now S) 0 (nd_retry_lookups ?nd4) ?nd4"
  obtain nd6 where nd6: "bootstrap_maintenance E S ?nd5 = Some nd6"
    using bootstrap_total [OF fire_lookups_able [OF fire_dials_able [OF nd3(2)]]] by blast
  have "\<exists>nd'. relay_maintenance E nd6 = Some nd'" by (simp add: relay_maintenance_def split: option.split)
  then show ?thesis using nd1(1) nd2(1) nd3(1) nd6 by (simp add: maintenance_def Let_def)
qed

section \<open>Events\<close>

lemma on_session_total:
  assumes ok: "release_ok E J" and "node_able E (Suc n) nd"
  shows "on_session_event E J S ev nd \<noteq> None"
proof (cases ev)
  case (SessionEstablished p c res)
  let ?nd = "nd\<lparr>nd_had_session := hs_insert p (nd_had_session nd), nd_dialing := hs_remove p (nd_dialing nd)\<rparr>"
  have "report_probe E (su_amb S 0) p a True ?nd \<noteq> None" for a
    using report_probe_total [OF ok, of n ?nd "su_amb S 0" p a True] assms(2) by auto
  then show ?thesis using SessionEstablished by (auto simp: Let_def split: option.split)
next
  case (ObservedAddrReported p ip port)
  then show ?thesis using on_observed_total [OF assms] by simp
next
  case (DialBackResolved p a r)
  then show ?thesis using on_dial_back_res_total [OF assms] by simp
qed (simp_all add: Let_def)

lemma resolve_relay_total:
  assumes "node_able E n nd"
  shows "\<exists>nd'. resolve_relay E p ep nd = Some nd' \<and> node_able E n nd'"
proof -
  have "bootstrap_peer_id E bp \<noteq> None" if "nd_relay nd = Some bp" for bp
    using assms that unfolding node_able_def by auto
  then show ?thesis
    using assms by (auto simp: resolve_relay_def node_able_def split: endpoint.split option.split)
qed

lemma resolve_bootstrap_total:
  assumes "release_ok E J" "node_able E n nd"
  shows "\<exists>nd'. resolve_bootstrap E J S p ep nd = Some nd'"
proof (cases ep)
  case (Dialer address x)
  show ?thesis
  proof (cases "find (\<lambda>bp. address \<in> set (bootstrap_multiaddrs E bp)) (nd_bootstrap_pending nd)")
    case (Some bp)
    then have "bp \<in> set (nd_bootstrap_pending nd)" by (auto simp: find_Some_iff)
    then obtain d where d: "bootstrap_peer_id E bp = Some d" using assms(2) unfolding node_able_def by auto
    let ?nd = "bootstrap_kad S (nd\<lparr>nd_bootstrap_mapped := hs_insert d (nd_bootstrap_mapped nd),
        nd_bootstrap_dialing := filter (\<lambda>a. a \<notin> set (bootstrap_multiaddrs E bp)) (nd_bootstrap_dialing nd),
        nd_session := map_transport d p (nd_session nd),
        nd_orders := nd_orders nd @ [KadAddAddress p address]\<rparr>)"
    have "node_able E n ?nd" using assms(2) by (simp add: bootstrap_kad_def node_able_def)
    then have "\<exists>nd'. publish_record E J S ?nd = Some nd'" using publish_total [OF assms(1)] by blast
    then show ?thesis using Some d Dialer by (simp add: resolve_bootstrap_def)
  qed (simp add: resolve_bootstrap_def Dialer)
qed (simp add: resolve_bootstrap_def)

lemma on_peerless_total:
  assumes "release_ok E J" and "node_able E (length (nd_pending_probes nd)) nd"
  shows "\<exists>nd'. on_peerless_failure E S failed nd = Some nd'"
  unfolding on_peerless_failure_def Let_def
  by (rule handle_probe_failure_total [OF assms(1)]) (use assms(2) in \<open>simp split: option.split\<close>)

lemma handle_event_total:
  assumes ok: "release_ok E J" and able: "node_able E (Suc (length (nd_pending_probes nd))) nd"
  shows "handle_event E J S ev nd \<noteq> None"
proof (cases ev)
  case (SwSession e)
  then show ?thesis using on_session_total [OF ok able] by simp
next
  case (SwKad e)
  then show ?thesis using on_kad_total [OF ok able] by simp
next
  case (SwNewListenAddr a)
  have "publish_record E J S (nd\<lparr>nd_orders := x, nd_current_addrs := as\<rparr>) \<noteq> None" 
    "publish_record E J S (nd\<lparr>nd_current_addrs := as\<rparr>) \<noteq> None" for x as
    using publish_total [OF ok, of _ "nd\<lparr>nd_orders := x, nd_current_addrs := as\<rparr>" S]
      publish_total [OF ok, of _ "nd\<lparr>nd_current_addrs := as\<rparr>" S] able by fastforce+
  then show ?thesis using SwNewListenAddr
    by (simp add: on_new_listen_addr_def note_listen_addr_def Let_def split: prod.split)
next
  case (SwExpiredListenAddr a)
  have "publish_record E J S (nd\<lparr>nd_current_addrs := as\<rparr>) \<noteq> None" for as
    using publish_total [OF ok, of _ "nd\<lparr>nd_current_addrs := as\<rparr>" S] able by fastforce
  then show ?thesis using SwExpiredListenAddr
    by (simp add: on_expired_listen_addr_def note_listen_addr_gone_def Let_def split: prod.split)
next
  case (SwConnectionEstablished p ep)
  obtain nd1 where "resolve_relay E p ep nd = Some nd1" "node_able E (Suc (length (nd_pending_probes nd))) nd1"
    using resolve_relay_total [OF able] by blast
  moreover obtain nd2 where "resolve_bootstrap E J S p ep nd1 = Some nd2"
    using resolve_bootstrap_total [OF ok calculation(2)] by blast
  ultimately show ?thesis using SwConnectionEstablished by (simp add: on_connection_opened_def)
next
  case (SwOutgoingConnectionError p err)
  have "node_able E (length (nd_pending_probes nd)) nd" by (rule node_able_mono [OF able]) simp
  then have "on_peerless_failure E S failed nd \<noteq> None" for failed
    using on_peerless_total [OF ok, of nd S failed] by auto
  then show ?thesis using SwOutgoingConnectionError by (auto simp: on_dial_failed_def Let_def split: option.split)
qed simp_all


section \<open>Every step\<close>

lemma parsed_peer_id: "peer_ids_ok E \<Longrightarrow> bootstrap_parse E s = Inr bp \<Longrightarrow> bootstrap_peer_id E bp \<noteq> None"
  by (auto simp: bootstrap_parse_def bootstrap_peer_id_def peer_ids_simps split: option.splits)

text \<open>C9. A node does not panic.  In a release build, in every state a node reaches, with configured
  peers that were parsed and a well-formed identity, every step returns: any swarm event with
  any contents, a tick, a command, or a call of libp2p into the session behaviour.  All it takes
  is room in the session counters for the control frames of one step, one for each probe
  and candidate plus one, and no queue of unsent messages of four thousand million entries.\<close>

theorem node_never_panics:
  assumes laws: "hash_sized E" "peer_ids_ok E" "kdf_total E" "dsa_correct E" "aead_correct E" "record_json_ok J"
    and build: "\<not> overflow_checks E" "\<not> debug_assertions E"
    and reach: "reachable (node_init E) (node_next E J) (ops, nd)"
    and ident: "wf_identity E (nd_identity nd)"
    and peers: "\<forall>bp \<in> set (nd_bootstrap_pending nd) \<union> set_option (nd_relay nd). \<exists>s. bootstrap_parse E s = Inr bp"
    and room: "seal_room (Suc (length (nd_pending_probes nd) + length (nd_candidates nd))) (nd_session nd)"
      "\<forall>p q. hm_get (bh_pending_sends (nd_session nd)) p = Some q \<longrightarrow> length q < 2 ^ 32 - 1"
  shows "\<exists>nd'. node_step E J S op nd = Some nd'"
proof -
  have ok: "release_ok E J" using laws build by (simp add: release_ok_def)
  have "node_able E (Suc (length (nd_pending_probes nd) + length (nd_candidates nd))) nd"
    using room(1) ident peers parsed_peer_id [OF laws(2)] by (auto simp: node_able_def)
  then have able: "node_able E n nd" if "n \<le> Suc (length (nd_pending_probes nd) + length (nd_candidates nd))" for n
    using that by (rule node_able_mono)
  have "node_step E J S op nd \<noteq> None"
  proof (cases op)
    case (NodeEvent ev)
    then show ?thesis using handle_event_total [OF ok able] by simp
  next
    case NodeTick
    have "hm_wf (nd_pending_probes nd)" using node_sys.reachable_inv [OF reach] by (simp add: node_inv_def)
    then show ?thesis using NodeTick maintenance_total [OF ok _ able] by auto
  next
    case (NodeSend p body)
    then show ?thesis using send_message_total [OF laws(5), of "su_amb S 0" p body] by (auto simp: node_send_message_def)
  next
    case (NodeSession bop)
    have "reachable (bh_init (nd_identity nd)) (bh_next E) (node_frames ops, nd_session nd)"
      using node_behaviour_reachable [OF reach] by simp
    then have tab: "tables_ok E (\<lambda>t c. conn_frames t c (node_frames ops)) (nd_identity nd) (nd_session nd)"
      using bh_sys.reachable_inv bh_inv_tables by blast
    have one: "seal_room (Suc 0) (nd_session nd)" using able [of 1] by (simp add: node_able_def)
    then have "unat (ss_out_seq s) < 2 ^ 32 - 1" if "hm_get (bh_sessions (nd_session nd)) p = Some (t, c, s)" for p t c s
      using that unfolding seal_room_def by fastforce
    then have r: "bh_room (nd_session nd)" using room(2) unfolding bh_room_def by blast
    have "bh_step E (su_amb S 0) bop (nd_session nd) \<noteq> None"
      by (rule bh_step_total [OF laws(1-5) ident tab r]) (use dial_back_sends [OF ok one] in fastforce)+
    then show ?thesis using NodeSession by simp
  qed simp_all
  then show ?thesis by blast
qed

end
