(* ===== verification/Node_Loop.thy ===== *)
theory Node_Loop
  imports Node_Public Node_Total "HOL-Library.Multiset"
begin

text \<open>
  The loops of \<open>src/node.rs\<close> that drive a node: \<open>wait_for\<close>, \<open>next_event\<close>, \<open>run\<close>, \<open>run_for\<close> and
  \<open>run_interactive\<close>.  A loop waits for whatever becomes ready next; the model takes these
  occurrences as a list, each with the surroundings in which it is handled.  The end of the list
  of \<open>wait_for\<close> and \<open>run_for\<close> is the moment the timer fires.  A reply channel is a number.
\<close>

section \<open>Waiting for an event\<close>

datatype wake = WakeTick | WakeEvent swarm_event

text \<open>\<open>handle_event\<close> hands back the session event it was given, if any.\<close>

fun session_event :: "swarm_event \<Rightarrow> behaviour_event option" where
  "session_event (SwSession ev) = Some ev"
| "session_event _ = None"

definition next_event ::
  "crates \<Rightarrow> record_json \<Rightarrow> surroundings \<Rightarrow> swarm_event \<Rightarrow> node \<Rightarrow> (node \<times> behaviour_event option) option" where
  "next_event E J S ev nd = map_option (\<lambda>nd'. (nd', session_event ev)) (handle_event E J S ev nd)"

fun wait_for ::
  "crates \<Rightarrow> record_json \<Rightarrow> (behaviour_event \<Rightarrow> bool) \<Rightarrow> (surroundings \<times> wake) list \<Rightarrow> node
   \<Rightarrow> (node \<times> behaviour_event option) option" where
  "wait_for E J predicate [] nd = Some (nd, None)"
| "wait_for E J predicate ((S, WakeTick) # ws) nd =
     (case maintenance E J S nd of None \<Rightarrow> None | Some nd' \<Rightarrow> wait_for E J predicate ws nd')"
| "wait_for E J predicate ((S, WakeEvent ev) # ws) nd =
     (case handle_event E J S ev nd of
        None \<Rightarrow> None
      | Some nd' \<Rightarrow>
          (case session_event ev of
             None \<Rightarrow> wait_for E J predicate ws nd'
           | Some e \<Rightarrow> if predicate e then Some (nd', Some e) else wait_for E J predicate ws nd'))"

text \<open>In \<open>run\<close> the stop future may resolve too; the second component says whether \<open>run\<close> has
  returned.\<close>

datatype run_wake = Woken wake | StopFlag bool

fun node_run :: "crates \<Rightarrow> record_json \<Rightarrow> (surroundings \<times> run_wake) list \<Rightarrow> node \<Rightarrow> (node \<times> bool) option" where
  "node_run E J [] nd = Some (nd, False)"
| "node_run E J ((S, Woken WakeTick) # ws) nd =
     (case maintenance E J S nd of None \<Rightarrow> None | Some nd' \<Rightarrow> node_run E J ws nd')"
| "node_run E J ((S, Woken (WakeEvent ev)) # ws) nd =
     (case handle_event E J S ev nd of None \<Rightarrow> None | Some nd' \<Rightarrow> node_run E J ws nd')"
| "node_run E J ((S, StopFlag b) # ws) nd = (if b then Some (nd, True) else node_run E J ws nd)"

definition run_for ::
  "crates \<Rightarrow> record_json \<Rightarrow> (surroundings \<times> wake) list \<Rightarrow> surroundings \<Rightarrow> node \<Rightarrow> (node \<times> bool) option" where
  "run_for E J ws S nd = node_run E J (map (\<lambda>(S, w). (S, Woken w)) ws @ [(S, StopFlag True)]) nd"

section \<open>The interactive loop\<close>

datatype node_command =
  CmdSend peer_id string nat
| CmdLookup peer_id nat
| CmdPeers nat
| CmdQuit

datatype node_reply =
  ReplySend "string + u64"
| ReplyLookup "verified_record list"
| ReplyPeers "(string \<times> peer_id \<times> string) list"

record interactive =
  it_node :: node
  it_waiters :: "(instant \<times> nat) list"
  it_replies :: "(nat \<times> node_reply) list"

definition peer_line :: "node \<Rightarrow> peer_id \<Rightarrow> string \<times> peer_id \<times> string" where
  "peer_line nd p =
     (let name = (case peer_name p (nd_session nd) of None \<Rightarrow> ''?'' | Some s \<Rightarrow> s);
          transport = (case transport_of p (nd_session nd) of None \<Rightarrow> p | Some t \<Rightarrow> t);
          path = (case hm_get (nd_peer_paths nd) transport of None \<Rightarrow> ''unknown'' | Some x \<Rightarrow> path_label x) in
      (name, p, path))"

text \<open>One command; the second component says whether the loop goes on.\<close>

fun on_command ::
  "crates \<Rightarrow> surroundings \<Rightarrow> node_command option \<Rightarrow> interactive \<Rightarrow> (interactive \<times> bool) option" where
  "on_command E S (Some (CmdSend peer body reply)) it =
     (let nd = it_node it;
          nd1 = (if \<not> node_has_session peer nd then fst (node_lookup E S peer nd) else nd) in
      case node_send_message E S peer body nd1 of
        None \<Rightarrow> None
      | Some (nd2, msg_id) \<Rightarrow>
          Some (it\<lparr>it_node := nd2, it_replies := it_replies it @ [(reply, ReplySend (Inr msg_id))]\<rparr>, True))"
| "on_command E S (Some (CmdLookup peer reply)) it =
     Some (it\<lparr>it_node := fst (node_lookup E S peer (it_node it)),
              it_waiters := it_waiters it @ [(su_now S + secs 10, reply)]\<rparr>, True)"
| "on_command E S (Some (CmdPeers reply)) it =
     Some (it\<lparr>it_replies := it_replies it
          @ [(reply, ReplyPeers (map (peer_line (it_node it)) (session_peers (nd_session (it_node it)))))]\<rparr>, True)"
| "on_command E S (Some CmdQuit) it = Some (it, False)"
| "on_command E S None it = Some (it, False)"

text \<open>\<open>mem::take(&mut node.records).into_values()\<close> for every waiter that is due.\<close>

definition flush_waiter :: "instant \<times> nat \<Rightarrow> interactive \<Rightarrow> interactive" where
  "flush_waiter w it =
     it\<lparr>it_node := (it_node it)\<lparr>nd_records := []\<rparr>,
        it_replies := it_replies it @ [(snd w, ReplyLookup (map snd (nd_records (it_node it))))]\<rparr>"

definition interactive_tick ::
  "crates \<Rightarrow> record_json \<Rightarrow> surroundings \<Rightarrow> interactive \<Rightarrow> interactive option" where
  "interactive_tick E J S it =
     (case maintenance E J S (it_node it) of
        None \<Rightarrow> None
      | Some nd \<Rightarrow>
          (let done = filter (\<lambda>(deadline, _). deadline \<le> su_now S) (it_waiters it);
               keep = filter (\<lambda>(deadline, _). \<not> deadline \<le> su_now S) (it_waiters it) in
           Some (fold flush_waiter done (it\<lparr>it_node := nd, it_waiters := keep\<rparr>))))"

datatype occurrence = OccCommand "node_command option" | OccTick | OccEvent swarm_event

fun interactive_step ::
  "crates \<Rightarrow> record_json \<Rightarrow> surroundings \<Rightarrow> occurrence \<Rightarrow> interactive \<Rightarrow> (interactive \<times> bool) option" where
  "interactive_step E J S (OccCommand cmd) it = on_command E S cmd it"
| "interactive_step E J S OccTick it = map_option (\<lambda>it'. (it', True)) (interactive_tick E J S it)"
| "interactive_step E J S (OccEvent ev) it =
     map_option (\<lambda>nd. (it\<lparr>it_node := nd\<rparr>, True)) (handle_event E J S ev (it_node it))"

fun run_interactive ::
  "crates \<Rightarrow> record_json \<Rightarrow> (surroundings \<times> occurrence) list \<Rightarrow> interactive \<Rightarrow> (interactive \<times> bool) option" where
  "run_interactive E J [] it = Some (it, True)"
| "run_interactive E J ((S, oc) # ocs) it =
     (case interactive_step E J S oc it of
        None \<Rightarrow> None
      | Some (it', cont) \<Rightarrow> if cont then run_interactive E J ocs it' else Some (it', False))"

definition interactive_new :: "node \<Rightarrow> interactive" where
  "interactive_new nd = \<lparr>it_node = nd, it_waiters = [], it_replies = []\<rparr>"

section \<open>The loops take the node's steps\<close>

lemma node_reach_step:
  assumes "reachable (node_init E) (node_next E J) (ops, nd)" and "node_step E J S op nd = Some nd'"
  shows "reachable (node_init E) (node_next E J) (ops @ [op], nd')"
proof (rule reachable.reach_step [OF assms(1)])
  show "node_next E J (ops, nd) (ops @ [op], nd')"
    unfolding node_next_def using assms(2) by (intro exI [of _ S] exI [of _ op]) simp
qed

text \<open>The session events among the arrivals.\<close>

fun arrivals :: "(surroundings \<times> wake) list \<Rightarrow> behaviour_event list" where
  "arrivals [] = []"
| "arrivals ((S, WakeEvent ev) # ws) =
     (case session_event ev of None \<Rightarrow> arrivals ws | Some e \<Rightarrow> e # arrivals ws)"
| "arrivals ((S, WakeTick) # ws) = arrivals ws"

text \<open>\<open>wait_for\<close> returns the first matching event and nothing else.  Whatever arrives while it
  waits, its result is the first session event that satisfies the predicate, and nothing exactly
  when the timer fires before any did; the node it leaves is one that ordinary steps reach.\<close>

lemma wait_for_first:
  assumes "wait_for E J P ws nd = Some (nd', res)" and "reachable (node_init E) (node_next E J) (ops, nd)"
  shows "res = find P (arrivals ws) \<and> (\<exists>ops'. reachable (node_init E) (node_next E J) (ops', nd'))"
  using assms
proof (induction E J P ws nd arbitrary: ops rule: wait_for.induct)
  case (1 E J P nd)
  then show ?case by auto
next
  case (2 E J P S ws nd)
  then obtain nd1 where m: "maintenance E J S nd = Some nd1" "wait_for E J P ws nd1 = Some (nd', res)"
    by (auto split: option.splits)
  have "reachable (node_init E) (node_next E J) (ops @ [NodeTick], nd1)"
    by (rule node_reach_step [OF 2(3), where S = S]) (simp add: m(1))
  then show ?case using 2(1) [OF m(1,2)] by simp
next
  case (3 E J P S ev ws nd)
  then obtain nd1 where m: "handle_event E J S ev nd = Some nd1" by (auto split: option.splits)
  have r: "reachable (node_init E) (node_next E J) (ops @ [NodeEvent ev], nd1)"
    by (rule node_reach_step [OF 3(4), where S = S]) (simp add: m)
  show ?case
  proof (cases "session_event ev")
    case None
    then show ?thesis using 3(1) [OF m None _ r] 3(3) m by simp
  next
    case (Some e)
    show ?thesis
    proof (cases "P e")
      case True
      then have "res = Some e" "nd' = nd1" using 3(3) m Some by simp_all
      then show ?thesis using True r Some by auto
    next
      case False
      then show ?thesis using 3(2) [OF m Some False _ r] 3(3) m Some by simp
    qed
  qed
qed


section \<open>Replies\<close>

fun reply_of :: "occurrence \<Rightarrow> nat list" where
  "reply_of (OccCommand (Some (CmdSend _ _ r))) = [r]"
| "reply_of (OccCommand (Some (CmdLookup _ r))) = [r]"
| "reply_of (OccCommand (Some (CmdPeers r))) = [r]"
| "reply_of _ = []"

definition owed :: "interactive \<Rightarrow> nat multiset" where
  "owed it = mset (map snd (it_waiters it)) + mset (map fst (it_replies it))"

lemma flush_all:
  "fold flush_waiter (w # ws) it = it\<lparr>it_node := (it_node it)\<lparr>nd_records := []\<rparr>,
     it_replies := it_replies it @ (snd w, ReplyLookup (map snd (nd_records (it_node it))))
       # map (\<lambda>w. (snd w, ReplyLookup [])) ws\<rparr>"
proof (induction ws rule: rev_induct)
  case Nil
  then show ?case by (simp add: flush_waiter_def)
next
  case (snoc v ws)
  then show ?case by (simp add: flush_waiter_def)
qed

lemma owed_flush: "owed (fold flush_waiter ws it) = owed it + mset (map snd ws)"
proof (induction ws arbitrary: it)
  case (Cons w ws)
  then show ?case by (simp add: owed_def flush_waiter_def)
qed simp

lemma owed_tick:
  assumes "interactive_tick E J S it = Some it'"
  shows "owed it' = owed it" and "\<forall>w \<in> set (it_waiters it'). su_now S < fst w"
proof -
  let ?d = "\<lambda>w. fst w \<le> su_now S"
  obtain nd where it': "it' = fold flush_waiter (filter ?d (it_waiters it))
      (it\<lparr>it_node := nd, it_waiters := filter (\<lambda>w. \<not> ?d w) (it_waiters it)\<rparr>)"
    using assms by (auto simp: interactive_tick_def Let_def case_prod_beta' split: option.splits)
  have "mset (map snd xs) = mset (map snd (filter (\<lambda>w. \<not> ?d w) xs)) + mset (map snd (filter ?d xs))" for xs
    by (induction xs) auto
  from this [of "it_waiters it"] show "owed it' = owed it" unfolding it' owed_flush by (simp add: owed_def)
  have "it_waiters (fold flush_waiter ws x) = it_waiters x" for ws x
    by (induction ws arbitrary: x) (simp_all add: flush_waiter_def)
  then show "\<forall>w \<in> set (it_waiters it'). su_now S < fst w" by (auto simp: it')
qed

lemma owed_step:
  assumes "interactive_step E J S oc it = Some (it', cont)"
  shows "owed it' = owed it + mset (reply_of oc)"
proof (cases oc)
  case (OccCommand cmd)
  then show ?thesis using assms
    by (cases "(E, S, cmd, it)" rule: on_command.cases) (auto simp: Let_def owed_def split: option.splits)
qed (use assms owed_tick in \<open>auto simp: owed_def\<close>)

text \<open>Every step of the loop is a sequence of steps of the node.\<close>

lemma interactive_step_reach:
  assumes "interactive_step E J S oc it = Some (it', cont)"
    and r: "reachable (node_init E) (node_next E J) (ops, it_node it)"
  shows "\<exists>ops'. reachable (node_init E) (node_next E J) (ops', it_node it')"
proof (cases oc)
  case (OccEvent ev)
  then show ?thesis using assms(1) node_reach_step [OF r, of S "NodeEvent ev"] by auto
next
  case OccTick
  then obtain nd where nd: "maintenance E J S (it_node it) = Some nd"
    "\<exists>ws is. it' = fold flush_waiter ws (it\<lparr>it_node := nd, it_waiters := is\<rparr>)"
    using assms(1) by (auto simp: interactive_tick_def Let_def split: option.splits)
  have t: "reachable (node_init E) (node_next E J) (ops @ [NodeTick], nd)"
    by (rule node_reach_step [OF r, where S = S]) (simp add: nd(1))
  have d: "reachable (node_init E) (node_next E J) ((ops @ [NodeTick]) @ [NodeDrain], nd\<lparr>nd_records := []\<rparr>)"
    by (rule node_reach_step [OF t, where S = S]) simp
  have "it_node it' = nd \<or> it_node it' = nd\<lparr>nd_records := []\<rparr>"
  proof -
    from nd(2) obtain ws iw where it': "it' = fold flush_waiter ws (it\<lparr>it_node := nd, it_waiters := iw\<rparr>)" by blast
    show ?thesis
    proof (cases ws)
      case (Cons w ws')
      then show ?thesis unfolding it' by (simp only: flush_all) simp
    qed (simp add: it')
  qed
  then show ?thesis using t d by auto
next
  case (OccCommand cmd)
  show ?thesis
  proof (cases "(E, S, cmd, it)" rule: on_command.cases)
    case (1 E' S' peer body reply it0)
    let ?nd1 = "if \<not> node_has_session peer (it_node it) then fst (node_lookup E S peer (it_node it)) else it_node it"
    have "\<exists>ops1. reachable (node_init E) (node_next E J) (ops1, ?nd1)"
      using r node_reach_step [OF r, of S "NodeLookup peer"] by auto
    then obtain ops1 where r1: "reachable (node_init E) (node_next E J) (ops1, ?nd1)" by blast
    obtain nd2 i where s: "node_send_message E S peer body ?nd1 = Some (nd2, i)" "it_node it' = nd2"
      using assms(1) OccCommand 1 by (auto simp: Let_def split: option.splits)
    have "reachable (node_init E) (node_next E J) (ops1 @ [NodeSend peer body], nd2)"
      by (rule node_reach_step [OF r1, where S = S]) (simp add: s(1))
    then show ?thesis using s(2) by auto
  next
    case (2 E' S' peer reply it0)
    then show ?thesis using assms(1) OccCommand node_reach_step [OF r, of S "NodeLookup peer"] by auto
  qed (use assms OccCommand in auto)
qed

lemma run_interactive_owed:
  assumes "run_interactive E J ocs it0 = Some (it, cont)"
    and "reachable (node_init E) (node_next E J) (ops, it_node it0)"
  shows "\<exists>taken. (cont \<longrightarrow> taken = ocs) \<and> (\<exists>rest. ocs = taken @ rest) \<and>
    owed it = owed it0 + mset (concat (map (\<lambda>x. reply_of (snd x)) taken)) \<and>
    (\<exists>ops'. reachable (node_init E) (node_next E J) (ops', it_node it))"
  using assms
proof (induction ocs arbitrary: it0 ops)
  case Nil
  then show ?case by auto
next
  case (Cons soc ocs)
  obtain S oc where so: "soc = (S, oc)" by (cases soc)
  obtain it1 c1 where s: "interactive_step E J S oc it0 = Some (it1, c1)"
    using Cons.prems(1) so by (auto split: option.splits)
  obtain ops1 where r1: "reachable (node_init E) (node_next E J) (ops1, it_node it1)"
    using interactive_step_reach [OF s Cons.prems(2)] by blast
  show ?case
  proof (cases c1)
    case True
    then have "run_interactive E J ocs it1 = Some (it, cont)" using Cons.prems(1) so s by simp
    from Cons.IH [OF this r1] obtain taken where t: "cont \<longrightarrow> taken = ocs" "\<exists>rest. ocs = taken @ rest"
      "owed it = owed it1 + mset (concat (map (\<lambda>x. reply_of (snd x)) taken))"
      "\<exists>ops'. reachable (node_init E) (node_next E J) (ops', it_node it)" by blast
    then show ?thesis using owed_step [OF s] so
      by (intro exI [of _ "soc # taken"]) (auto simp: union_assoc)
  next
    case False
    then show ?thesis using Cons.prems(1) so s owed_step [OF s] r1
      by (intro exI [of _ "[soc]"]) auto
  qed
qed


text \<open>C40. Answering a lookup empties the record cache.  When several lookups are due at the same
  tick the first is answered with every cached record (whichever peer it asked for) and the
  others with none; afterwards the cache is empty, so a peer that disconnects then is
  neither dialled nor looked up again.\<close>

theorem lookup_reply_drains_cache:
  assumes tick: "interactive_tick E J S it = Some it'" "maintenance E J S (it_node it) = Some nd"
    and due: "filter (\<lambda>w. fst w \<le> su_now S) (it_waiters it) = w # ws"
  shows "it_replies it' = it_replies it @ (snd w, ReplyLookup (map snd (nd_records nd)))
      # map (\<lambda>w. (snd w, ReplyLookup [])) ws \<and>
    nd_records (it_node it') = [] \<and>
    (\<forall>S' p nd'. on_session_event E J S' (PeerDisconnected p) (it_node it') = Some nd' \<longrightarrow>
       nd_retry_dials nd' = nd_retry_dials nd \<and> nd_retry_lookups nd' = nd_retry_lookups nd)"
proof -
  obtain iw where "it' = fold flush_waiter (w # ws) (it\<lparr>it_node := nd, it_waiters := iw\<rparr>)"
    using tick due by (auto simp: interactive_tick_def Let_def case_prod_beta')
  then have it': "it' = it\<lparr>it_waiters := iw, it_node := nd\<lparr>nd_records := []\<rparr>,
      it_replies := it_replies it @ (snd w, ReplyLookup (map snd (nd_records nd)))
        # map (\<lambda>w. (snd w, ReplyLookup [])) ws\<rparr>"
    by (simp only: flush_all) simp
  have "nd_retry_dials nd' = nd_retry_dials nd \<and> nd_retry_lookups nd' = nd_retry_lookups nd"
    if "on_session_event E J S' (PeerDisconnected p) (nd\<lparr>nd_records := []\<rparr>) = Some nd'" for S' p nd'
    using that by (auto simp: Let_def schedule_reconnect_def split: if_splits)
  then show ?thesis by (simp add: it')
qed

end
