(* ===== verification/Node_Disk.thy ===== *)
theory Node_Disk
  imports Node_Loop
begin

text \<open>
  What a node writes to its data directory: nothing but lines of the history log.
\<close>

definition logs_only :: "disk \<Rightarrow> disk \<Rightarrow> bool" where
  "logs_only dk dk' \<longleftrightarrow> (\<forall>n. n \<noteq> HISTORY_FILE \<longrightarrow> hm_get (dk_files dk') n = hm_get (dk_files dk) n)"

lemma logs_only_refl [simp]: "logs_only dk dk"
  by (simp add: logs_only_def)

lemma logs_only_trans [trans]: "logs_only a b \<Longrightarrow> logs_only b c \<Longrightarrow> logs_only a c"
  by (simp add: logs_only_def)

lemma publish_disk: "publish_record E J S nd = Some nd' \<Longrightarrow> nd_storage nd' = nd_storage nd"
  by (auto simp: publish_record_def Let_def split: if_splits option.splits)

lemma refresh_disk: "refresh_local_addresses E J S nd = Some nd' \<Longrightarrow> nd_storage nd' = nd_storage nd"
  by (auto simp: refresh_local_addresses_def Let_def dest!: publish_disk split: if_splits option.splits)

lemma pure_disk [simp]:
  "nd_storage (dial_peer p t as nd) = nd_storage nd"
  "nd_storage (issue_lookup E q p n nd) = nd_storage nd"
  "nd_storage (schedule_rediscovery S p dl nd) = nd_storage nd"
  "nd_storage (invalidate_candidates d failed nd) = nd_storage nd"
  "nd_storage (bootstrap_kad S nd) = nd_storage nd"
  "nd_storage (on_dial_back_req S p a nd) = nd_storage nd"
  "nd_storage (on_dcutr p ok nd) = nd_storage nd"
  "nd_storage (on_autonat st nd) = nd_storage nd"
  by (simp_all add: dial_peer_def issue_lookup_def schedule_rediscovery_def invalidate_candidates_def bootstrap_kad_def
      on_dial_back_req_def on_dcutr_def on_autonat_def Let_def split: option.split)

lemma scheduled_disk [simp]:
  "nd_storage (schedule_reconnect S p nd) = nd_storage nd"
  "nd_storage (on_verified_record v nd) = nd_storage nd"
  "nd_storage (on_connection_lost p ep n nd) = nd_storage nd"
  "nd_storage (forget_failed S peer device failed nd) = nd_storage nd"
  by (simp_all add: schedule_reconnect_def on_verified_record_def on_connection_lost_def forget_failed_def Let_def
      split: option.split endpoint.split)

lemma fire_dials_disk [simp]: "nd_storage (fire_dials now ds nd) = nd_storage nd"
  by (induction ds arbitrary: nd) simp_all

lemma fire_lookups_disk [simp]: "nd_storage (fire_lookups E ids now i rs nd) = nd_storage nd"
  by (induction rs arbitrary: i nd) simp_all

lemma request_disk: "request_dial_back E A a nd = Some nd' \<Longrightarrow> nd_storage nd' = nd_storage nd"
  by (auto simp: request_dial_back_def Let_def split: option.splits if_splits list.splits)

lemma on_observed_disk: "on_observed_addr E S p ip port nd = Some nd' \<Longrightarrow> nd_storage nd' = nd_storage nd"
  by (auto simp: on_observed_addr_def Let_def dest!: request_disk split: option.splits if_splits)

lemma reject_disk: "reject_candidate E a c nd = Some nd' \<Longrightarrow> nd_storage nd' = nd_storage nd"
  by (auto simp: reject_candidate_def)

lemma on_dial_back_res_disk: "on_dial_back_res E J S p a r nd = Some nd' \<Longrightarrow> nd_storage nd' = nd_storage nd"
  by (auto simp: on_dial_back_res_def dest!: publish_disk reject_disk
      split: option.splits if_splits candidate_state.splits)

lemma report_probe_disk: "report_probe E A p a r nd = Some nd' \<Longrightarrow> nd_storage nd' = nd_storage nd"
  by (auto simp: report_probe_def)

text \<open>A loop whose rounds leave the disk alone does so too.\<close>

lemma for_each_disk:
  assumes "for_each body i xs nd = Some nd'" and "\<And>i x a b. body i x a = Some b \<Longrightarrow> nd_storage b = nd_storage a"
  shows "nd_storage nd' = nd_storage nd"
  by (rule for_each_keeps [OF assms(1), where P = "\<lambda>x. nd_storage x = nd_storage nd"]) (use assms(2) in auto)

lemma handle_probe_failure_disk: "handle_probe_failure E S failed nd = Some nd' \<Longrightarrow> nd_storage nd' = nd_storage nd"
  unfolding handle_probe_failure_def Let_def
  by (erule for_each_disk) (auto dest: report_probe_disk split: prod.splits)

lemma public_addr_disk:
  assumes "public_addr_maintenance E S nd = Some nd'"
  shows "nd_storage nd' = nd_storage nd"
proof -
  have e: "expire_probe E A p x = Some y \<Longrightarrow> nd_storage y = nd_storage x"
    "expire_candidate E a x = Some y \<Longrightarrow> nd_storage y = nd_storage x"
    "renew_candidate now a x = Some y \<Longrightarrow> nd_storage y = nd_storage x" for A p a now x y
    by (auto simp: expire_probe_def expire_candidate_def renew_candidate_def dest: report_probe_disk reject_disk
        split: option.splits)
  obtain expired timed_out due nd1 nd2 nd3 where
    r: "for_each (\<lambda>i peer. expire_probe E (su_amb S i) peer) 0 expired nd = Some nd1"
    "for_each (\<lambda>_ addr. expire_candidate E addr) 0 timed_out nd1 = Some nd2"
    "for_each (\<lambda>_ addr. renew_candidate (su_now S) addr) 0 due nd2 = Some nd3"
    "for_each (\<lambda>i addr. request_dial_back E (su_amb S (length expired + i)) addr) 0 due nd3 = Some nd'"
    by (rule public_addr_maintenanceE [OF assms])
  have "nd_storage nd1 = nd_storage nd" by (rule for_each_disk [OF r(1) e(1)])
  moreover have "nd_storage nd2 = nd_storage nd1" by (rule for_each_disk [OF r(2) e(2)])
  moreover have "nd_storage nd3 = nd_storage nd2" by (rule for_each_disk [OF r(3) e(3)])
  moreover have "nd_storage nd' = nd_storage nd3" by (rule for_each_disk [OF r(4) request_disk])
  ultimately show ?thesis by simp
qed

lemma bootstrap_disk: "bootstrap_maintenance E S nd = Some nd' \<Longrightarrow> nd_storage nd' = nd_storage nd"
proof -
  have d: "dial_bootstrap E bp x = Some y \<Longrightarrow> nd_storage y = nd_storage x" for bp x y
    by (auto simp: dial_bootstrap_def Let_def split: option.splits if_splits)
  show "bootstrap_maintenance E S nd = Some nd' \<Longrightarrow> nd_storage nd' = nd_storage nd"
    by (auto simp: bootstrap_maintenance_def dest!: for_each_disk [OF _ d] split: if_splits)
qed

lemma relay_disk: "relay_maintenance E nd = Some nd' \<Longrightarrow> nd_storage nd' = nd_storage nd"
  by (auto simp: relay_maintenance_def split: option.splits if_splits)

lemma maintenance_disk:
  assumes "maintenance E J S nd = Some nd'"
  shows "nd_storage nd' = nd_storage nd"
  using assms
proof (rule maintenanceE)
  fix nd1 nd2 nd3 nd4
  assume r: "refresh_local_addresses E J S nd = Some nd1" "nd2 = nd1 \<or> publish_record E J S nd1 = Some nd2"
    "public_addr_maintenance E S nd2 = Some nd3" "bootstrap_maintenance E S (fire_due E S nd3) = Some nd4"
    "relay_maintenance E nd4 = Some nd'"
  have "nd_storage (fire_due E S nd3) = nd_storage nd3" by (simp add: fire_due_def Let_def)
  moreover have "nd_storage nd2 = nd_storage nd1" using r(2) publish_disk by blast
  ultimately show ?thesis
    using refresh_disk [OF r(1)] public_addr_disk [OF r(3)] bootstrap_disk [OF r(4)] relay_disk [OF r(5)] by simp
qed

section \<open>Events\<close>

lemma history_logs: "logs_only (nd_storage nd) (nd_storage (record_history E S h nd))"
proof -
  obtain dk0 r0 where e: "ensure (su_faults S) 0 (nd_storage nd) = (dk0, r0)" by (cases "ensure (su_faults S) 0 (nd_storage nd)")
  show ?thesis
    using e ensure_files [OF e]
    by (auto simp: record_history_def logs_only_def append_history_def Let_def split: sum.splits option.splits)
qed

lemma on_session_disk:
  assumes "on_session_event E J S ev nd = Some nd'"
  shows "logs_only (nd_storage nd) (nd_storage nd')"
proof (cases ev)
  case (SessionEstablished p c res)
  let ?nd = "nd\<lparr>nd_had_session := hs_insert p (nd_had_session nd), nd_dialing := hs_remove p (nd_dialing nd)\<rparr>"
  obtain nd1 where nd1: "nd1 = ?nd \<or> (\<exists>a. report_probe E (su_amb S 0) p a True ?nd = Some nd1)"
    "nd' = record_history E S (Sent (pid_to_base58 E p) 0 ''session-established'') nd1"
    using assms SessionEstablished by (auto simp: Let_def split: option.splits)
  have "nd_storage nd1 = nd_storage nd" using nd1(1) report_probe_disk by fastforce
  then show ?thesis using history_logs nd1(2) by metis
next
  case (MessageReceived p i body ts)
  then show ?thesis using assms history_logs by auto
next
  case (AckReceived p i sq)
  then show ?thesis using assms history_logs by auto
next
  case (ObservedAddrReported p ip port)
  then show ?thesis using assms on_observed_disk by fastforce
next
  case (DialBackResolved p a r)
  then show ?thesis using assms on_dial_back_res_disk by fastforce
qed (use assms in \<open>auto simp: Let_def split: if_splits\<close>)

lemma on_kad_disk: "on_kad_event E J S ev nd = Some nd' \<Longrightarrow> nd_storage nd' = nd_storage nd"
  by (cases ev) (auto simp: Let_def split: option.splits sum.splits query_result.splits if_splits)

lemma on_connection_opened_disk:
  assumes "on_connection_opened E J S p ep nd = Some nd'"
  shows "nd_storage nd' = nd_storage nd"
proof -
  obtain nd1 nd2 where r: "resolve_relay E p ep nd = Some nd1" "resolve_bootstrap E J S p ep nd1 = Some nd2"
    "nd_storage nd' = nd_storage nd2"
    using assms by (auto simp: on_connection_opened_def split: option.splits)
  have "nd_storage nd1 = nd_storage nd"
    using r(1) by (auto simp: resolve_relay_def split: endpoint.splits option.splits if_splits)
  moreover have "nd_storage nd2 = nd_storage nd1"
    using r(2) by (auto simp: resolve_bootstrap_def dest!: publish_disk split: endpoint.splits option.splits if_splits)
  ultimately show ?thesis using r(3) by simp
qed

lemma on_dial_failed_disk:
  assumes "on_dial_failed E S peer err nd = Some nd'"
  shows "nd_storage nd' = nd_storage nd"
proof -
  have "nd_storage y = nd_storage x" if "on_peerless_failure E S failed x = Some y" for failed x y
    using handle_probe_failure_disk that by (fastforce simp: on_peerless_failure_def Let_def split: option.splits if_splits)
  then show ?thesis
    using assms by (fastforce simp: on_dial_failed_def Let_def split: if_splits option.splits)
qed

lemma handle_event_disk:
  assumes "handle_event E J S ev nd = Some nd'"
  shows "logs_only (nd_storage nd) (nd_storage nd')"
proof (cases ev)
  case (SwSession e)
  then show ?thesis using assms on_session_disk by simp
next
  case (SwKad e)
  then have "nd_storage nd' = nd_storage nd" using assms on_kad_disk by simp
  then show ?thesis by simp
next
  case (SwNewListenAddr a)
  then show ?thesis
    using assms by (auto simp: on_new_listen_addr_def note_listen_addr_def Let_def dest!: publish_disk split: if_splits prod.splits)
next
  case (SwExpiredListenAddr a)
  then show ?thesis
    using assms by (auto simp: on_expired_listen_addr_def note_listen_addr_gone_def Let_def dest!: publish_disk split: if_splits)
next
  case (SwConnectionEstablished p ep)
  then have "nd_storage nd' = nd_storage nd" using assms on_connection_opened_disk by simp
  then show ?thesis by simp
next
  case (SwOutgoingConnectionError p err)
  then have "nd_storage nd' = nd_storage nd" using assms on_dial_failed_disk by simp
  then show ?thesis by simp
qed (use assms in auto)

section \<open>Loops\<close>

lemma send_disk: "node_send_message E S p body nd = Some (nd', i) \<Longrightarrow> nd_storage nd' = nd_storage nd"
  by (auto simp: node_send_message_def)

lemma lookup_disk [simp]: "nd_storage (fst (node_lookup E S p nd)) = nd_storage nd"
  by (simp add: node_lookup_def)

lemma wait_for_disk:
  "wait_for E J P ws nd = Some (nd', res) \<Longrightarrow> logs_only (nd_storage nd) (nd_storage nd')"
proof (induction E J P ws nd rule: wait_for.induct)
  case (2 E J P S ws nd)
  then obtain nd1 where "maintenance E J S nd = Some nd1" "wait_for E J P ws nd1 = Some (nd', res)"
    by (auto split: option.splits)
  then show ?case using 2(1) maintenance_disk by metis
next
  case (3 E J P S ev ws nd)
  then obtain nd1 where m: "handle_event E J S ev nd = Some nd1" by (auto split: option.splits)
  then have "logs_only (nd_storage nd1) (nd_storage nd')"
    using 3 by (auto split: option.splits if_splits)
  then show ?case using handle_event_disk [OF m] logs_only_trans by blast
qed simp

lemma node_run_disk:
  "node_run E J ws nd = Some (nd', stopped) \<Longrightarrow> logs_only (nd_storage nd) (nd_storage nd')"
proof (induction E J ws nd rule: node_run.induct)
  case (2 E J S ws nd)
  then obtain nd1 where "maintenance E J S nd = Some nd1" "node_run E J ws nd1 = Some (nd', stopped)"
    by (auto split: option.splits)
  then show ?case using 2(1) maintenance_disk by metis
next
  case (3 E J S ev ws nd)
  then obtain nd1 where m: "handle_event E J S ev nd = Some nd1" "node_run E J ws nd1 = Some (nd', stopped)"
    by (auto split: option.splits)
  then show ?case using 3(1) handle_event_disk logs_only_trans by blast
qed (auto split: if_splits)

lemma interactive_step_disk:
  assumes "interactive_step E J S oc it = Some (it', cont)"
  shows "logs_only (nd_storage (it_node it)) (nd_storage (it_node it'))"
proof (cases oc)
  case (OccCommand cmd)
  then show ?thesis
    using assms by (cases "(E, S, cmd, it)" rule: on_command.cases) (auto simp: Let_def dest!: send_disk split: option.splits if_splits)
next
  case OccTick
  then obtain nd where m: "maintenance E J S (it_node it) = Some nd" "interactive_tick E J S it = Some it'"
    using assms by (auto simp: interactive_tick_def split: option.splits)
  have "nd_storage (it_node (fold flush_waiter ws x)) = nd_storage (it_node x)" for ws x
    by (induction ws arbitrary: x) (simp_all add: flush_waiter_def)
  then show ?thesis using m maintenance_disk [OF m(1)] by (auto simp: interactive_tick_def Let_def)
next
  case (OccEvent ev)
  then show ?thesis using assms handle_event_disk by auto
qed

lemma run_interactive_disk:
  "run_interactive E J ocs it = Some (it', cont) \<Longrightarrow> logs_only (nd_storage (it_node it)) (nd_storage (it_node it'))"
proof (induction E J ocs it rule: run_interactive.induct)
  case (2 E J S oc ocs it)
  then obtain it1 c1 where s: "interactive_step E J S oc it = Some (it1, c1)" by (auto split: option.splits)
  then have "logs_only (nd_storage (it_node it1)) (nd_storage (it_node it'))"
    using 2 by (auto split: if_splits)
  then show ?case using interactive_step_disk [OF s] logs_only_trans by blast
qed simp

end
