(* ===== verification/Cli.thy ===== *)
theory Cli
  imports Node_Disk
begin

text \<open>
  \<open>src/cli.rs\<close>: the commands.  Argument parsing belongs to \<open>clap\<close>: a command starts from its
  parsed arguments.  What is printed is a list of lines.  A command reads its environment (two
  variables, the data directories, the surroundings of the node it builds) from \<open>cli_env\<close>; the
  calls to the storage are numbered, each with its own fault plan.  What arrives while a
  command waits is a list of arrivals per wait.  \<open>None\<close> is a panic.
\<close>

section \<open>Arguments and environment\<close>

definition DEFAULT_PORT :: u16 where "DEFAULT_PORT = 9000"
definition ACK_TIMEOUT_SECS :: nat where "ACK_TIMEOUT_SECS = 10"
definition PEERS_RUN_SECS :: nat where "PEERS_RUN_SECS = 20"

record common =
  cm_data_dir :: "string option"
  cm_listen_port :: "u16 option"
  cm_bootstrap :: "string list"
  cm_relay :: "string list"
  cm_relay_server :: bool

record cli_env =
  ce_data_dir_var :: "string option"
  ce_home :: "string option"
  ce_disks :: "string \<Rightarrow> disk"
  ce_faults :: "nat \<Rightarrow> fault_plan"
  ce_entropy :: "nat \<Rightarrow> entropy"
  ce_surroundings :: surroundings

datatype cli_error = CliStorage storage_error | CliNode node_error | CliText string

text \<open>\<open>PathBuf::join\<close> with a relative name.\<close>

definition path_join :: "string \<Rightarrow> string \<Rightarrow> string" where
  "path_join dir name = (if dir = [] \<or> last dir = CHR ''/'' then dir @ name else dir @ ''/'' @ name)"

definition default_data_dir :: "cli_env \<Rightarrow> string" where
  "default_data_dir env =
     (case ce_data_dir_var env of
        Some d \<Rightarrow> d
      | None \<Rightarrow> (case ce_home env of Some h \<Rightarrow> path_join h ''.jeangrey'' | None \<Rightarrow> ''.jeangrey''))"

definition data_dir :: "cli_env \<Rightarrow> common \<Rightarrow> string" where
  "data_dir env c = (case cm_data_dir c of Some d \<Rightarrow> d | None \<Rightarrow> default_data_dir env)"

definition disk_of :: "cli_env \<Rightarrow> common \<Rightarrow> disk" where
  "disk_of env c = ce_disks env (data_dir env c)"

definition set_disk :: "common \<Rightarrow> disk \<Rightarrow> cli_env \<Rightarrow> cli_env" where
  "set_disk c dk env = env\<lparr>ce_disks := (ce_disks env)(data_dir env c := dk)\<rparr>"

section \<open>Building a node\<close>

fun parse_peers :: "crates \<Rightarrow> string list \<Rightarrow> cli_error + bootstrap_peer list" where
  "parse_peers E [] = Inr []"
| "parse_peers E (s # ss) =
     (case bootstrap_parse E s of
        Inl e \<Rightarrow> Inl (CliText e)
      | Inr bp \<Rightarrow> (case parse_peers E ss of Inl e \<Rightarrow> Inl e | Inr bps \<Rightarrow> Inr (bp # bps)))"

text \<open>The last \<open>--relay\<close> wins, but each has to parse.\<close>

fun parse_relay :: "crates \<Rightarrow> bootstrap_peer option \<Rightarrow> string list \<Rightarrow> cli_error + bootstrap_peer option" where
  "parse_relay E relay [] = Inr relay"
| "parse_relay E relay (s # ss) =
     (case bootstrap_parse E s of
        Inl e \<Rightarrow> Inl (CliText e)
      | Inr bp \<Rightarrow> parse_relay E (Some bp) ss)"

definition build_options :: "crates \<Rightarrow> storage_json \<Rightarrow> cli_env \<Rightarrow> common \<Rightarrow> cli_error + node_options" where
  "build_options E SJ env c =
     (case load_config SJ (ce_faults env 0) (disk_of env c) of
        Inl e \<Rightarrow> Inl (CliStorage e)
      | Inr config \<Rightarrow>
     (let listen_port = (case cm_listen_port c of Some p \<Rightarrow> p | None \<Rightarrow> nc_listen_port config) in
      case parse_peers E (cm_bootstrap c) of
        Inl e \<Rightarrow> Inl e
      | Inr bootstrap \<Rightarrow>
     (case parse_relay E None (cm_relay c) of
        Inl e \<Rightarrow> Inl e
      | Inr relay \<Rightarrow>
          Inr \<lparr>no_listen_port = listen_port, no_bootstrap = bootstrap, no_external_ips = [],
               no_relay = relay, no_relay_server = cm_relay_server c\<rparr>)))"

definition cli_load_identity ::
  "crates \<Rightarrow> storage_json \<Rightarrow> cli_env \<Rightarrow> common \<Rightarrow> (cli_error + device_identity) option" where
  "cli_load_identity E SJ env c =
     (case load_identity E SJ (ce_faults env 2) (ce_entropy env 0) (disk_of env c) of
        None \<Rightarrow> None
      | Some (Inl e) \<Rightarrow> Some (Inl (CliStorage e))
      | Some (Inr None) \<Rightarrow>
          Some (Inl (CliText ''no identity found; run `jeangrey init --name <name>` first''))
      | Some (Inr (Some d)) \<Rightarrow> Some (Inr d))"

definition new_node ::
  "crates \<Rightarrow> storage_json \<Rightarrow> cli_env \<Rightarrow> common \<Rightarrow> (cli_env \<times> (cli_error + node)) option" where
  "new_node E SJ env c =
     (case build_options E SJ env c of
        Inl e \<Rightarrow> Some (env, Inl e)
      | Inr options \<Rightarrow>
     (case ensure (ce_faults env 1) 0 (disk_of env c) of
        (dk, Inl e) \<Rightarrow> Some (set_disk c dk env, Inl (CliStorage e))
      | (dk, Inr _) \<Rightarrow>
     (let env1 = set_disk c dk env in
      case cli_load_identity E SJ env1 c of
        None \<Rightarrow> None
      | Some (Inl e) \<Rightarrow> Some (env1, Inl e)
      | Some (Inr identity) \<Rightarrow>
     (case node_new E (ce_surroundings env1) identity dk options of
        None \<Rightarrow> None
      | Some (Inl e) \<Rightarrow> Some (env1, Inl (CliNode e))
      | Some (Inr nd) \<Rightarrow> Some (env1, Inr nd)))))"

section \<open>Commands\<close>

definition cmd_init ::
  "crates \<Rightarrow> storage_json \<Rightarrow> cli_env \<Rightarrow> common \<Rightarrow> string \<Rightarrow> (cli_env \<times> (cli_error + string list)) option" where
  "cmd_init E SJ env c name =
     (if name = [] then Some (env, Inl (CliText ''name must not be empty''))
      else if length name > MAX_USER_NAME
      then Some (env, Inl (CliText (''name too long (max '' @ show_nat MAX_USER_NAME @ '' chars)'')))
      else
     (case load_identity E SJ (ce_faults env 0) (ce_entropy env 0) (disk_of env c) of
        None \<Rightarrow> None
      | Some (Inl e) \<Rightarrow> Some (env, Inl (CliStorage e))
      | Some (Inr (Some _)) \<Rightarrow>
          Some (env, Inl (CliText (''identity already exists in '' @ data_dir env c)))
      | Some (Inr None) \<Rightarrow>
     (case device_generate E name (ce_entropy env 1) (ce_entropy env 2) (ce_entropy env 3) (ce_entropy env 4) of
        None \<Rightarrow> None
      | Some identity \<Rightarrow>
     (case save_identity E SJ (ce_faults env 1) identity (disk_of env c) of
        None \<Rightarrow> None
      | Some (dk1, Inl e) \<Rightarrow> Some (set_disk c dk1 env, Inl (CliStorage e))
      | Some (dk1, Inr _) \<Rightarrow>
     (let config = \<lparr>nc_listen_port = (case cm_listen_port c of Some p \<Rightarrow> p | None \<Rightarrow> DEFAULT_PORT)\<rparr> in
      case save_config SJ (ce_faults env 2) config dk1 of
        (dk2, Inl e) \<Rightarrow> Some (set_disk c dk2 env, Inl (CliStorage e))
      | (dk2, Inr _) \<Rightarrow>
          Some (set_disk c dk2 env, Inr
            [''identity created'',
             ''  user:        '' @ name @ '' (id '' @ user_short_id E (di_user identity) @ '')'',
             ''  device peer: '' @ pid_to_base58 E (di_peer_id identity),
             ''  short:       '' @ short_id E (di_peer_id identity),
             ''  data dir:    '' @ data_dir env c,
             '''',
             ''To start:  jeangrey node'']))))))"

definition record_lines :: "crates \<Rightarrow> verified_record \<Rightarrow> string list" where
  "record_lines E r = pid_to_base58 E (vr_peer_id r) # map (\<lambda>a. ''  '' @ ma_to_string E a) (vr_addrs r)"

definition cmd_lookup ::
  "crates \<Rightarrow> record_json \<Rightarrow> storage_json \<Rightarrow> cli_env \<Rightarrow> common \<Rightarrow> string \<Rightarrow> (surroundings \<times> wake) list
   \<Rightarrow> (cli_env \<times> (cli_error + node \<times> string list)) option" where
  "cmd_lookup E J SJ env c peer ws =
     (case pid_from_str E peer of
        None \<Rightarrow> Some (env, Inl (CliText ''invalid peer id''))
      | Some peer_id \<Rightarrow>
     (case new_node E SJ env c of
        None \<Rightarrow> None
      | Some (env1, Inl e) \<Rightarrow> Some (env1, Inl e)
      | Some (env1, Inr nd) \<Rightarrow>
     (case wait_for E J (\<lambda>_. False) ws (fst (node_lookup E (ce_surroundings env) peer_id nd)) of
        None \<Rightarrow> None
      | Some (nd1, _) \<Rightarrow>
          (let discovered = map snd (nd_records nd1); nd2 = nd1\<lparr>nd_records := []\<rparr> in
           if discovered = []
           then Some (set_disk c (nd_storage nd2) env1,
                  Inr (nd2, [''no verified record found for '' @ pid_to_base58 E peer_id]))
           else Some (set_disk c (nd_storage nd2) env1,
                  Inr (nd2, concat (map (record_lines E) discovered)))))))"

fun is_established :: "peer_id \<Rightarrow> behaviour_event \<Rightarrow> bool" where
  "is_established p (SessionEstablished q _ _) \<longleftrightarrow> q = p"
| "is_established p _ \<longleftrightarrow> False"

fun is_ack :: "peer_id \<Rightarrow> u64 \<Rightarrow> behaviour_event \<Rightarrow> bool" where
  "is_ack p i (AckReceived q m _) \<longleftrightarrow> q = p \<and> m = i"
| "is_ack p i _ \<longleftrightarrow> False"

text \<open>The discovery part of \<open>cmd_send\<close>: two waits, the second for the rest of the session
  timeout.  \<open>False\<close> when no session was established.\<close>

definition await_session ::
  "crates \<Rightarrow> record_json \<Rightarrow> surroundings \<Rightarrow> peer_id \<Rightarrow> (surroundings \<times> wake) list \<Rightarrow> (surroundings \<times> wake) list
   \<Rightarrow> node \<Rightarrow> (node \<times> bool) option" where
  "await_session E J S peer_id ws1 ws2 nd =
     (if node_has_session peer_id nd then Some (nd, True)
      else
     (case wait_for E J (is_established peer_id) ws1 (fst (node_lookup E S peer_id nd)) of
        None \<Rightarrow> None
      | Some (nd1, Some _) \<Rightarrow> Some (nd1, True)
      | Some (nd1, None) \<Rightarrow>
     (case wait_for E J (is_established peer_id) ws2 nd1 of
        None \<Rightarrow> None
      | Some (nd2, found) \<Rightarrow> Some (nd2, found \<noteq> None))))"

definition cmd_send ::
  "crates \<Rightarrow> record_json \<Rightarrow> storage_json \<Rightarrow> cli_env \<Rightarrow> common \<Rightarrow> string \<Rightarrow> string
   \<Rightarrow> (surroundings \<times> wake) list \<Rightarrow> (surroundings \<times> wake) list \<Rightarrow> surroundings \<Rightarrow> (surroundings \<times> wake) list
   \<Rightarrow> (cli_env \<times> (cli_error + node \<times> string list)) option" where
  "cmd_send E J SJ env c peer body ws1 ws2 S ws3 =
     (case pid_from_str E peer of
        None \<Rightarrow> Some (env, Inl (CliText ''invalid peer id''))
      | Some peer_id \<Rightarrow>
     (case new_node E SJ env c of
        None \<Rightarrow> None
      | Some (env1, Inl e) \<Rightarrow> Some (env1, Inl e)
      | Some (env1, Inr nd) \<Rightarrow>
     (case await_session E J (ce_surroundings env) peer_id ws1 ws2 nd of
        None \<Rightarrow> None
      | Some (nd1, False) \<Rightarrow>
          Some (set_disk c (nd_storage nd1) env1, Inl (CliText
            (''could not establish an authenticated session with '' @ pid_to_base58 E peer_id)))
      | Some (nd1, True) \<Rightarrow>
     (case node_send_message E S peer_id body nd1 of
        None \<Rightarrow> None
      | Some (nd2, msg_id) \<Rightarrow>
     (case wait_for E J (is_ack peer_id msg_id) ws3 nd2 of
        None \<Rightarrow> None
      | Some (nd3, Some _) \<Rightarrow>
          Some (set_disk c (nd_storage nd3) env1, Inr (nd3, [''delivered (id '' @ show_nat (unat msg_id) @ '')'']))
      | Some (nd3, None) \<Rightarrow>
          Some (set_disk c (nd_storage nd3) env1, Inr (nd3, [''no acknowledgement within '' @ show_nat ACK_TIMEOUT_SECS @
            ''s (id '' @ show_nat (unat msg_id) @ '')''])))))))"

definition path_text :: "node \<Rightarrow> peer_id \<Rightarrow> string" where
  "path_text nd p = (case hm_get (nd_peer_paths nd) p of None \<Rightarrow> ''unknown'' | Some x \<Rightarrow> path_label x)"

text \<open>The report of \<open>cmd_peers\<close>, given the peers the swarm is connected to.\<close>

definition peers_report :: "crates \<Rightarrow> peer_id list \<Rightarrow> node \<Rightarrow> string list" where
  "peers_report E connected nd =
     [''nat reachability: '' @
        (if nd_nat_status nd = ''public'' then ''public (directly reachable)''
         else if nd_nat_status nd = ''private'' then ''private (behind NAT)''
         else ''unknown (no probes yet)'')] @
     (if nd_relay_server nd then [''this node serves circuit relay reservations''] else []) @
     (if connected \<noteq> []
      then ''connected peers (path):''
        # map (\<lambda>p. ''  '' @ short_id E p @ ''  ['' @ path_text nd p @ '']'') connected
      else [''no peers connected'']) @
     (if session_peers (nd_session nd) = [] then [''no sessions established'']
      else ''established sessions:''
        # map (\<lambda>p. ''  '' @ pid_to_base58 E p) (session_peers (nd_session nd)))"

definition cmd_peers ::
  "crates \<Rightarrow> record_json \<Rightarrow> storage_json \<Rightarrow> cli_env \<Rightarrow> common \<Rightarrow> (surroundings \<times> wake) list \<Rightarrow> surroundings
   \<Rightarrow> peer_id list \<Rightarrow> (cli_env \<times> (cli_error + node \<times> string list)) option" where
  "cmd_peers E J SJ env c ws S connected =
     (case new_node E SJ env c of
        None \<Rightarrow> None
      | Some (env1, Inl e) \<Rightarrow> Some (env1, Inl e)
      | Some (env1, Inr nd) \<Rightarrow>
     (case run_for E J ws S nd of
        None \<Rightarrow> None
      | Some (nd1, _) \<Rightarrow>
          Some (set_disk c (nd_storage nd1) env1, Inr (nd1, (''discovering peers for '' @ show_nat PEERS_RUN_SECS @ ''s...'')
            # peers_report E connected nd1))))"


section \<open>The interactive command\<close>

text \<open>\<open>str::trim\<close>: the characters with the property White_Space, in UTF-8.\<close>

definition white_space :: "string list" where
  "white_space = [[CHR 0x09], [CHR 0x0A], [CHR 0x0B], [CHR 0x0C], [CHR 0x0D], [CHR 0x20],
     [CHR 0xC2, CHR 0x85], [CHR 0xC2, CHR 0xA0], [CHR 0xE1, CHR 0x9A, CHR 0x80],
     [CHR 0xE2, CHR 0x80, CHR 0x80], [CHR 0xE2, CHR 0x80, CHR 0x81], [CHR 0xE2, CHR 0x80, CHR 0x82],
     [CHR 0xE2, CHR 0x80, CHR 0x83], [CHR 0xE2, CHR 0x80, CHR 0x84], [CHR 0xE2, CHR 0x80, CHR 0x85],
     [CHR 0xE2, CHR 0x80, CHR 0x86], [CHR 0xE2, CHR 0x80, CHR 0x87], [CHR 0xE2, CHR 0x80, CHR 0x88],
     [CHR 0xE2, CHR 0x80, CHR 0x89], [CHR 0xE2, CHR 0x80, CHR 0x8A], [CHR 0xE2, CHR 0x80, CHR 0xA8],
     [CHR 0xE2, CHR 0x80, CHR 0xA9], [CHR 0xE2, CHR 0x80, CHR 0xAF], [CHR 0xE2, CHR 0x81, CHR 0x9F],
     [CHR 0xE3, CHR 0x80, CHR 0x80]]"

definition starts_with :: "string \<Rightarrow> string \<Rightarrow> bool" where
  "starts_with w s \<longleftrightarrow> w \<noteq> [] \<and> take (length w) s = w"

function strip :: "string list \<Rightarrow> string \<Rightarrow> string" where
  "strip spaces s =
     (case find (\<lambda>w. starts_with w s) spaces of
        None \<Rightarrow> s
      | Some w \<Rightarrow> strip spaces (drop (length w) s))"
  by pat_completeness auto
termination
proof (relation "measure (\<lambda>(_, s). length s)")
  fix spaces s w
  assume "find (\<lambda>w. starts_with w s) spaces = Some w"
  then have "starts_with w s" by (auto simp: find_Some_iff)
  then have "w \<noteq> []" "s \<noteq> []" by (auto simp: starts_with_def)
  then show "((spaces, drop (length w) s), spaces, s) \<in> measure (\<lambda>(_, s). length s)" by simp
qed simp

declare strip.simps [simp del]

definition str_trim :: "string \<Rightarrow> string" where
  "str_trim s = rev (strip (map rev white_space) (rev (strip white_space s)))"

fun splitn :: "nat \<Rightarrow> char \<Rightarrow> string \<Rightarrow> string list" where
  "splitn 0 c s = []"
| "splitn (Suc 0) c s = [s]"
| "splitn (Suc n) c s =
     (case split_once c s of None \<Rightarrow> [s] | Some (a, b) \<Rightarrow> a # splitn n c b)"

datatype repl_action =
  ReplIgnore
| ReplQuit
| ReplPeers
| ReplLookup peer_id
| ReplSend peer_id string
| ReplSay string

text \<open>One line of input; the order of the tests is that of the match arms.\<close>

definition repl_line :: "crates \<Rightarrow> string \<Rightarrow> repl_action" where
  "repl_line E raw =
     (let line = str_trim raw in
      if line = [] then ReplIgnore
      else
        (let parts = splitn 3 CHR '' '' line; cmd = hd parts in
         if cmd = ''quit'' \<or> cmd = ''exit'' then ReplQuit
         else if cmd = ''peers'' then ReplPeers
         else if cmd = ''lookup'' \<and> length parts \<ge> 2 then
           (case pid_from_str E (parts ! 1) of
              None \<Rightarrow> ReplSay (''invalid peer id: '' @ parts ! 1) | Some p \<Rightarrow> ReplLookup p)
         else if cmd = ''send'' \<and> length parts = 3 then
           (case pid_from_str E (parts ! 1) of
              None \<Rightarrow> ReplSay (''invalid peer id: '' @ parts ! 1) | Some p \<Rightarrow> ReplSend p (parts ! 2))
         else if cmd = ''help'' then ReplSay ''send <peer-id> <text> | lookup <peer-id> | peers | quit''
         else ReplSay ''unknown command (try: help)''))"

text \<open>The command a line sends to the node, with the number of its reply channel.\<close>

fun repl_command :: "nat \<Rightarrow> repl_action \<Rightarrow> node_command option" where
  "repl_command r ReplQuit = Some CmdQuit"
| "repl_command r ReplPeers = Some (CmdPeers r)"
| "repl_command r (ReplLookup p) = Some (CmdLookup p r)"
| "repl_command r (ReplSend p body) = Some (CmdSend p body r)"
| "repl_command r _ = None"

definition found_lines :: "crates \<Rightarrow> verified_record \<Rightarrow> string list" where
  "found_lines E r =
     (pid_to_base58 E (vr_peer_id r) @ ''  ('' @ show_nat (length (vr_addrs r)) @ '' addr(s), issued '' @
        show_nat (unat (vr_issued_at r)) @ ''s ago)'')
     # map (\<lambda>a. ''    '' @ ma_to_string E a) (vr_addrs r)"

text \<open>What is printed for a line and the reply to its command; \<open>None\<close> when the node is gone.\<close>

fun repl_output :: "crates \<Rightarrow> repl_action \<Rightarrow> node_reply option \<Rightarrow> string list" where
  "repl_output E (ReplSay s) rep = [s]"
| "repl_output E ReplPeers (Some (ReplyPeers ps)) =
     (if ps = [] then [''no sessions established yet'']
      else ''established sessions (path):''
        # map (\<lambda>(name, peer, path). ''  '' @ name @ ''  '' @ pid_to_base58 E peer @ ''  ['' @ path @ '']'') ps)"
| "repl_output E (ReplLookup p) (Some (ReplyLookup rs)) =
     (if rs = [] then [''no verified records found for '' @ pid_to_base58 E p]
      else concat (map (found_lines E) rs))"
| "repl_output E (ReplSend p body) (Some (ReplySend (Inr i))) =
     [''sent (id '' @ show_nat (unat i) @ ''); awaiting acknowledgement...'']"
| "repl_output E (ReplSend p body) (Some (ReplySend (Inl e))) = [''send failed: '' @ e]"
| "repl_output E ReplIgnore rep = []"
| "repl_output E ReplQuit rep = []"
| "repl_output E act rep = [''node went away'']"

definition repl_banner :: "string list" where
  "repl_banner =
     [''jeangrey interactive node. Commands:'',
      ''  send <peer-id> <text>   send a message'',
      ''  lookup <peer-id>        discover a peer's addresses'',
      ''  peers                   list established sessions'',
      ''  quit                    exit'']"

text \<open>The loop of the REPL over its input, each line with whether the channel to the node is still
  open and with the reply that arrives, if any; the end of the list is the end of the input.
  The result is what is sent to the node and what is printed.\<close>

fun repl_loop :: "crates \<Rightarrow> nat \<Rightarrow> (string \<times> bool \<times> node_reply option) list \<Rightarrow> node_command list \<times> string list" where
  "repl_loop E r [] = ([], [])"
| "repl_loop E r ((raw, open_channel, rep) # ls) =
     (let act = repl_line E raw in
      case repl_command r act of
        None \<Rightarrow> (case repl_loop E r ls of (cs, out) \<Rightarrow> (cs, repl_output E act None @ out))
      | Some cmd \<Rightarrow>
          if \<not> open_channel then ([], [])
          else if cmd = CmdQuit then ([CmdQuit], [])
          else (case repl_loop E (Suc r) ls of (cs, out) \<Rightarrow> (cmd # cs, repl_output E act rep @ out)))"

text \<open>The two tasks of \<open>cmd_node\<close>: the loop of the node over what becomes ready, and the REPL over
  its input.\<close>

definition cmd_node ::
  "crates \<Rightarrow> record_json \<Rightarrow> storage_json \<Rightarrow> cli_env \<Rightarrow> common \<Rightarrow> (string \<times> bool \<times> node_reply option) list
   \<Rightarrow> (surroundings \<times> occurrence) list \<Rightarrow> (cli_env \<times> (cli_error + interactive \<times> string list)) option" where
  "cmd_node E J SJ env c ls ocs =
     (case new_node E SJ env c of
        None \<Rightarrow> None
      | Some (env1, Inl e) \<Rightarrow> Some (env1, Inl e)
      | Some (env1, Inr nd) \<Rightarrow>
     (case run_interactive E J ocs (interactive_new nd) of
        None \<Rightarrow> None
      | Some (it, _) \<Rightarrow>
          Some (set_disk c (nd_storage (it_node it)) env1, Inr (it, repl_banner @ snd (repl_loop E 0 ls)))))"

section \<open>Dispatch\<close>

datatype command =
  CommandInit common string
| CommandNode common
| CommandLookup common string
| CommandSend common string string
| CommandPeers common

text \<open>What happens while a command runs: the arrivals of its waits, the surroundings and
  connected peers it reads in between, its input lines, and what the interactive loop sees.\<close>

record cli_script =
  sc_first :: "(surroundings \<times> wake) list"
  sc_second :: "(surroundings \<times> wake) list"
  sc_at :: surroundings
  sc_third :: "(surroundings \<times> wake) list"
  sc_connected :: "peer_id list"
  sc_lines :: "(string \<times> bool \<times> node_reply option) list"
  sc_occurrences :: "(surroundings \<times> occurrence) list"

definition printed :: "(cli_env \<times> (cli_error + 'a \<times> string list)) option \<Rightarrow> (cli_env \<times> (cli_error + string list)) option" where
  "printed res = map_option (\<lambda>(env, r). (env, map_sum id snd r)) res"

fun cli_run ::
  "crates \<Rightarrow> record_json \<Rightarrow> storage_json \<Rightarrow> cli_env \<Rightarrow> cli_script \<Rightarrow> command
   \<Rightarrow> (cli_env \<times> (cli_error + string list)) option" where
  "cli_run E J SJ env sc (CommandInit c name) = cmd_init E SJ env c name"
| "cli_run E J SJ env sc (CommandNode c) = printed (cmd_node E J SJ env c (sc_lines sc) (sc_occurrences sc))"
| "cli_run E J SJ env sc (CommandLookup c peer) = printed (cmd_lookup E J SJ env c peer (sc_first sc))"
| "cli_run E J SJ env sc (CommandSend c peer body) =
     printed (cmd_send E J SJ env c peer body (sc_first sc) (sc_second sc) (sc_at sc) (sc_third sc))"
| "cli_run E J SJ env sc (CommandPeers c) =
     printed (cmd_peers E J SJ env c (sc_first sc) (sc_at sc) (sc_connected sc))"

text \<open>The REPL gives every command a channel of its own.\<close>

abbreviation channels :: "node_command list \<Rightarrow> nat list" where
  "channels cs \<equiv> concat (map (\<lambda>c. reply_of (OccCommand (Some c))) cs)"

lemma repl_channels_fresh:
  "distinct (channels (fst (repl_loop E r ls))) \<and> (\<forall>n \<in> set (channels (fst (repl_loop E r ls))). r \<le> n)"
proof (induction ls arbitrary: r)
  case Nil
  then show ?case by simp
next
  case (Cons l ls)
  obtain raw op rep where l: "l = (raw, op, rep)" by (cases l)
  show ?case
  proof (cases "repl_command r (repl_line E raw)")
    case None
    then show ?thesis using Cons [of r] by (simp add: l Let_def split_beta)
  next
    case (Some c)
    then have "reply_of (OccCommand (Some c)) = [r] \<or> c = CmdQuit" by (cases "repl_line E raw") auto
    moreover have "r \<notin> set (channels (fst (repl_loop E (Suc r) ls)))" using Cons [of "Suc r"] by force
    moreover have "\<forall>n \<in> set (channels (fst (repl_loop E (Suc r) ls))). r \<le> n" using Cons [of "Suc r"] by force
    ultimately show ?thesis using Some Cons [of "Suc r"] by (auto simp: l Let_def split_beta)
  qed
qed

section \<open>Creating an identity\<close>

lemma data_dir_frame [simp]:
  "data_dir (env\<lparr>ce_disks := d\<rparr>) c = data_dir env c"
  "data_dir (env\<lparr>ce_faults := f\<rparr>) c = data_dir env c"
  "data_dir (env\<lparr>ce_surroundings := S\<rparr>) c = data_dir env c"
  by (simp_all add: data_dir_def default_data_dir_def split: option.split)

lemma disk_of_simps [simp]:
  "disk_of (set_disk c dk env) c = dk"
  "disk_of (env\<lparr>ce_faults := f\<rparr>) c = disk_of env c"
  "disk_of (env\<lparr>ce_surroundings := S\<rparr>) c = disk_of env c"
  by (simp_all add: disk_of_def set_disk_def)

lemma set_disk_fields [simp]:
  "ce_faults (set_disk c dk env) = ce_faults env"
  "ce_entropy (set_disk c dk env) = ce_entropy env"
  "ce_surroundings (set_disk c dk env) = ce_surroundings env"
  by (simp_all add: set_disk_def)

lemma cmd_init_saved:
  assumes "cmd_init E SJ env c name = Some (env', Inr out)"
  obtains identity dk1 where
    "device_generate E name (ce_entropy env 1) (ce_entropy env 2) (ce_entropy env 3) (ce_entropy env 4) = Some identity"
    "save_identity E SJ (ce_faults env 1) identity (disk_of env c) = Some (dk1, Inr ())"
    "save_config SJ (ce_faults env 2)
       \<lparr>nc_listen_port = (case cm_listen_port c of Some p \<Rightarrow> p | None \<Rightarrow> DEFAULT_PORT)\<rparr> dk1 = (disk_of env' c, Inr ())"
    "name \<noteq> []" "length name \<le> MAX_USER_NAME" "env' = set_disk c (disk_of env' c) env"
  using assms that
  by (auto simp: cmd_init_def Let_def split: if_splits option.splits sum.splits prod.splits)


lemma load_identity_cong:
  assumes "hm_get (dk_files dk) IDENTITY_FILE = hm_get (dk_files dk') IDENTITY_FILE"
  shows "load_identity E SJ fp rng dk = load_identity E SJ fp rng dk'"
proof -
  have "read_to_string fp 0 IDENTITY_FILE dk = read_to_string fp 0 IDENTITY_FILE dk'"
    unfolding read_to_string_def assms ..
  moreover have "hm_contains (dk_files dk) IDENTITY_FILE = hm_contains (dk_files dk') IDENTITY_FILE"
    unfolding hm_contains_def assms ..
  ultimately show ?thesis unfolding load_identity_def by (simp only:)
qed

lemma generated_wf:
  assumes "dsa_correct E" and "length r1 = SEED_LEN" and "length r2 = 16" and "length r3 = 16"
    and "valid_str name" and "device_generate E name r1 r2 r3 r4 = Some d"
  shows "wf_identity E d" and "ui_user_name (di_user d) = name"
proof -
  have a: "assemble E (user_generate name r3) (sk_from_seed E r1) (sk_verifying_key E (sk_from_seed E r1)) r2 r4
      = Some d" using assms(6) by (simp add: device_generate_def sk_generate_def Let_def)
  show "wf_identity E d"
    by (rule assemble_wf [OF assms(1-3) _ _ a]) (simp_all add: user_generate_def assms)
  show "ui_user_name (di_user d) = name"
    using a by (auto simp: assemble_def user_generate_def split: option.splits)
qed

lemma saved_config_loads:
  assumes "storage_json_ok SJ" and "save_config SJ fp cfg dk = (dk', Inr ())" and "fp_fail fp' 0 = None"
    and "hm_get (dk_files dk'') CONFIG_FILE = hm_get (dk_files dk') CONFIG_FILE"
  shows "load_config SJ fp' dk'' = Inr cfg"
proof -
  obtain s where s: "sj_config_to_string SJ cfg = Some s" "valid_str s" "sj_config_from_str SJ s = Some cfg"
    using assms(1) unfolding storage_json_ok_def by blast
  obtain dk0 where "write_atomic fp 1 CONFIG_FILE (as_bytes s) dk0 = (dk', Inr ())"
    using assms(2) s(1) by (auto simp: save_config_def split: sum.splits prod.splits)
  then have "hm_get (dk_files dk') CONFIG_FILE = Some (as_bytes s)" using write_atomic_files(2) by fastforce
  then show ?thesis
    using s assms(3,4) by (simp add: load_config_def read_to_string_def hm_contains_def)
qed

lemma save_config_keeps_identity:
  assumes "save_config SJ fp cfg dk = (dk', r)"
  shows "hm_get (dk_files dk') IDENTITY_FILE = hm_get (dk_files dk) IDENTITY_FILE"
proof -
  obtain dk0 r0 where e: "ensure fp 0 dk = (dk0, r0)" by (cases "ensure fp 0 dk")
  have "hm_get (dk_files dk') IDENTITY_FILE = hm_get (dk_files dk0) IDENTITY_FILE"
    if "write_atomic fp 1 CONFIG_FILE bs dk0 = (dk', r)" for bs
    using write_atomic_files(1) [OF that] by simp
  then show ?thesis using assms e ensure_files [OF e]
    by (auto simp: save_config_def split: sum.splits option.splits)
qed


section \<open>Sending\<close>

lemma new_node_reachable:
  assumes "new_node E SJ env c = Some (env', Inr nd)"
  shows "reachable (node_init E) (node_next E J) ([], nd)" and "\<not> node_has_session p nd"
proof -
  obtain S d dk opts where n: "node_new E S d dk opts = Some (Inr nd)"
    using assms by (auto simp: new_node_def Let_def split: sum.splits option.splits prod.splits)
  then show "reachable (node_init E) (node_next E J) ([], nd)"
    by (intro reachable.reach_init) (auto simp: node_init_def)
  have "nd_session nd = behaviour_new d" using n by (auto simp: node_new_def split: option.splits)
  then show "\<not> node_has_session p nd"
    by (simp add: node_has_session_def has_session_def behaviour_new_def)
qed

lemma await_session_spec:
  assumes "await_session E J S p ws1 ws2 nd = Some (nd', found)"
    and "reachable (node_init E) (node_next E J) (ops, nd)" and "\<not> node_has_session p nd"
  shows "\<exists>ops'. reachable (node_init E) (node_next E J) (ops', nd')"
    and "found \<longleftrightarrow> (\<exists>e \<in> set (arrivals ws1) \<union> set (arrivals ws2). is_established p e)"
proof -
  let ?nd = "fst (node_lookup E S p nd)"
  have r: "reachable (node_init E) (node_next E J) (ops @ [NodeLookup p], ?nd)"
    by (rule node_reach_step [OF assms(2), where S = S]) simp
  have none: "find P xs = None \<longleftrightarrow> (\<forall>x \<in> set xs. \<not> P x)" for P and xs :: "behaviour_event list"
    by (auto simp: find_None_iff)
  obtain nd1 res1 where w1: "wait_for E J (is_established p) ws1 ?nd = Some (nd1, res1)"
    using assms(1,3) by (auto simp: await_session_def split: option.splits)
  obtain ops1 where f1: "res1 = find (is_established p) (arrivals ws1)"
    "reachable (node_init E) (node_next E J) (ops1, nd1)" using wait_for_first [OF w1 r] by blast
  have "(\<exists>ops'. reachable (node_init E) (node_next E J) (ops', nd')) \<and>
    (found \<longleftrightarrow> (\<exists>e \<in> set (arrivals ws1) \<union> set (arrivals ws2). is_established p e))"
  proof (cases res1)
    case (Some e)
    then have "nd' = nd1" "found" using assms(1,3) w1 by (auto simp: await_session_def)
    moreover have "e \<in> set (arrivals ws1)" "is_established p e"
      using find_Some_iff [of "is_established p" "arrivals ws1" e] f1(1) Some by auto
    ultimately show ?thesis using f1(2) by auto
  next
    case None
    then obtain res2 where w2: "wait_for E J (is_established p) ws2 nd1 = Some (nd', res2)" "found = (res2 \<noteq> None)"
      using assms(1,3) w1 by (auto simp: await_session_def split: option.splits)
    note f2 = wait_for_first [OF w2(1) f1(2)]
    have "found \<longleftrightarrow> (\<exists>e \<in> set (arrivals ws2). is_established p e)"
      using f2 none [of "is_established p" "arrivals ws2"] w2(2) by auto
    moreover have "\<forall>e \<in> set (arrivals ws1). \<not> is_established p e" using None f1(1) none by simp
    ultimately show ?thesis using f2 by auto
  qed
  then show "\<exists>ops'. reachable (node_init E) (node_next E J) (ops', nd')"
    "found \<longleftrightarrow> (\<exists>e \<in> set (arrivals ws1) \<union> set (arrivals ws2). is_established p e)" by blast+
qed



section \<open>What the commands write\<close>

fun command_common :: "command \<Rightarrow> common" where
  "command_common (CommandInit c _) = c"
| "command_common (CommandNode c) = c"
| "command_common (CommandLookup c _) = c"
| "command_common (CommandSend c _ _) = c"
| "command_common (CommandPeers c) = c"

text \<open>The environment changes in the directory of the command only, and there by log lines only.\<close>

definition env_logs :: "common \<Rightarrow> cli_env \<Rightarrow> cli_env \<Rightarrow> bool" where
  "env_logs c env env' \<longleftrightarrow> (\<exists>dk. env' = set_disk c dk env \<and> logs_only (disk_of env c) dk)"

lemma set_disk_same [simp]: "set_disk c (disk_of env c) env = env"
  by (simp add: set_disk_def disk_of_def)

lemma set_disk_again [simp]: "set_disk c dk (set_disk c dk' env) = set_disk c dk env"
  by (simp add: set_disk_def)

lemma env_logs_refl [simp]: "env_logs c env env"
  unfolding env_logs_def by (intro exI [of _ "disk_of env c"]) simp

lemma env_logs_on:
  assumes "env_logs c env env1" and "logs_only (disk_of env1 c) dk"
  shows "env_logs c env (set_disk c dk env1)"
  using assms logs_only_trans by (fastforce simp: env_logs_def)

lemma new_node_logs:
  assumes "new_node E SJ env c = Some (env1, res)"
  shows "env_logs c env env1" and "res = Inr nd \<Longrightarrow> nd_storage nd = disk_of env1 c"
proof -
  obtain dk r where e: "ensure (ce_faults env 1) 0 (disk_of env c) = (dk, r)"
    by (cases "ensure (ce_faults env 1) 0 (disk_of env c)")
  have "logs_only (disk_of env c) dk" using ensure_files [OF e] by (simp add: logs_only_def)
  then have s: "env_logs c env (set_disk c dk env)" by (rule env_logs_on [OF env_logs_refl])
  show "env_logs c env env1"
    using assms e s by (auto simp: new_node_def Let_def split: sum.splits option.splits)
  show "res = Inr nd \<Longrightarrow> nd_storage nd = disk_of env1 c"
    using assms e by (auto simp: new_node_def node_new_def Let_def split: sum.splits option.splits)
qed

lemma cmd_node_logs:
  assumes "cmd_node E J SJ env c ls ocs = Some (env', res)"
  shows "env_logs c env env'"
proof -
  obtain env1 r where n: "new_node E SJ env c = Some (env1, r)" using assms by (auto simp: cmd_node_def split: option.splits)
  show ?thesis
  proof (cases r)
    case (Inr nd)
    then obtain it b where r: "run_interactive E J ocs (interactive_new nd) = Some (it, b)"
      "env' = set_disk c (nd_storage (it_node it)) env1"
      using assms n by (auto simp: cmd_node_def split: option.splits)
    have "logs_only (disk_of env1 c) (nd_storage (it_node it))"
      using run_interactive_disk [OF r(1)] new_node_logs(2) [OF n Inr] by (simp add: interactive_new_def)
    then show ?thesis unfolding r(2) by (rule env_logs_on [OF new_node_logs(1) [OF n]])
  qed (use assms n new_node_logs(1) [OF n] in \<open>auto simp: cmd_node_def\<close>)
qed

lemma cmd_lookup_logs:
  assumes "cmd_lookup E J SJ env c peer ws = Some (env', res)"
  shows "env_logs c env env'"
proof (cases "pid_from_str E peer")
  case (Some p)
  then obtain env1 r where n: "new_node E SJ env c = Some (env1, r)"
    using assms by (auto simp: cmd_lookup_def split: option.splits)
  show ?thesis
  proof (cases r)
    case (Inr nd)
    then obtain nd1 x where r: "wait_for E J (\<lambda>_. False) ws (fst (node_lookup E (ce_surroundings env) p nd)) = Some (nd1, x)"
      "env' = set_disk c (nd_storage nd1) env1"
      using assms n Some by (auto simp: cmd_lookup_def Let_def split: option.splits if_splits)
    have "logs_only (disk_of env1 c) (nd_storage nd1)"
      using wait_for_disk [OF r(1)] new_node_logs(2) [OF n Inr] by simp
    then show ?thesis unfolding r(2) by (rule env_logs_on [OF new_node_logs(1) [OF n]])
  qed (use assms n Some new_node_logs(1) [OF n] in \<open>auto simp: cmd_lookup_def\<close>)
qed (use assms in \<open>auto simp: cmd_lookup_def\<close>)

lemma await_session_logs:
  assumes "await_session E J S p ws1 ws2 nd = Some (nd', found)"
  shows "logs_only (nd_storage nd) (nd_storage nd')"
proof (cases "node_has_session p nd")
  case False
  then obtain nd1 x where w: "wait_for E J (is_established p) ws1 (fst (node_lookup E S p nd)) = Some (nd1, x)"
    using assms by (auto simp: await_session_def split: option.splits)
  have l: "logs_only (nd_storage nd) (nd_storage nd1)" using wait_for_disk [OF w] by simp
  show ?thesis
  proof (cases x)
    case None
    then obtain y where "wait_for E J (is_established p) ws2 nd1 = Some (nd', y)"
      using assms False w by (auto simp: await_session_def split: option.splits)
    then show ?thesis using l wait_for_disk logs_only_trans by blast
  qed (use assms False w l in \<open>auto simp: await_session_def\<close>)
qed (use assms in \<open>auto simp: await_session_def\<close>)

lemma cmd_send_logs:
  assumes "cmd_send E J SJ env c peer body ws1 ws2 S ws3 = Some (env', res)"
  shows "env_logs c env env'"
proof (cases "pid_from_str E peer")
  case (Some p)
  then obtain env1 r where n: "new_node E SJ env c = Some (env1, r)"
    using assms by (auto simp: cmd_send_def split: option.splits)
  show ?thesis
  proof (cases r)
    case (Inr nd)
    then obtain nd1 found where a: "await_session E J (ce_surroundings env) p ws1 ws2 nd = Some (nd1, found)"
      using assms n Some by (auto simp: cmd_send_def split: option.splits)
    have l: "logs_only (disk_of env1 c) (nd_storage nd1)"
      using await_session_logs [OF a] new_node_logs(2) [OF n Inr] by simp
    have "\<exists>nd' :: node. env' = set_disk c (nd_storage nd') env1 \<and> logs_only (nd_storage nd1) (nd_storage nd')"
    proof (cases found)
      case True
      then obtain nd2 i where m: "node_send_message E S p body nd1 = Some (nd2, i)"
        using assms n Some Inr a by (auto simp: cmd_send_def split: option.splits)
      then obtain nd3 y where w: "wait_for E J (is_ack p i) ws3 nd2 = Some (nd3, y)"
        using assms n Some Inr a True by (auto simp: cmd_send_def split: option.splits)
      have "env' = set_disk c (nd_storage nd3) env1"
        using assms n Some Inr a True m w by (auto simp: cmd_send_def split: option.splits)
      then show ?thesis using wait_for_disk [OF w] send_disk [OF m] by auto
    qed (use assms n Some Inr a in \<open>auto simp: cmd_send_def\<close>)
    then show ?thesis using env_logs_on [OF new_node_logs(1) [OF n]] logs_only_trans [OF l] by blast
  qed (use assms n Some new_node_logs(1) [OF n] in \<open>auto simp: cmd_send_def\<close>)
qed (use assms in \<open>auto simp: cmd_send_def\<close>)

lemma cmd_peers_logs:
  assumes "cmd_peers E J SJ env c ws S connected = Some (env', res)"
  shows "env_logs c env env'"
proof -
  obtain env1 r where n: "new_node E SJ env c = Some (env1, r)" using assms by (auto simp: cmd_peers_def split: option.splits)
  show ?thesis
  proof (cases r)
    case (Inr nd)
    then obtain nd1 b where r: "run_for E J ws S nd = Some (nd1, b)" "env' = set_disk c (nd_storage nd1) env1"
      using assms n by (auto simp: cmd_peers_def split: option.splits)
    have "logs_only (disk_of env1 c) (nd_storage nd1)"
      using node_run_disk [OF r(1) [unfolded run_for_def]] new_node_logs(2) [OF n Inr] by simp
    then show ?thesis unfolding r(2) by (rule env_logs_on [OF new_node_logs(1) [OF n]])
  qed (use assms n new_node_logs(1) [OF n] in \<open>auto simp: cmd_peers_def\<close>)
qed

lemma cmd_init_keeps:
  assumes "cmd_init E SJ env c name = Some (env', res)"
  shows "\<exists>dk. env' = set_disk c dk env"
    and "hm_contains (dk_files (disk_of env c)) IDENTITY_FILE \<Longrightarrow> env' = env"
proof -
  have env: "\<exists>dk. env = set_disk c dk env" by (intro exI [of _ "disk_of env c"]) simp
  show "\<exists>dk. env' = set_disk c dk env"
    using assms env by (auto simp: cmd_init_def Let_def split: if_splits option.splits sum.splits prod.splits)
  assume "hm_contains (dk_files (disk_of env c)) IDENTITY_FILE"
  then have "load_identity E SJ fp r (disk_of env c) \<noteq> Some (Inr None)" for fp r
    by (auto simp: load_identity_def split: option.splits sum.splits if_splits)
  then show "env' = env"
    using assms by (auto simp: cmd_init_def split: if_splits option.splits sum.splits)
qed


end
