(* ===== verification/Behaviour_Spec.thy ===== *)
theory Behaviour_Spec
  imports Behaviour_Inv
begin

text \<open>
  What the behaviour promises: the expiry of handshakes at \<open>poll\<close>, the delivery and
  acknowledgement of messages between two behaviours, the delivery of messages that were sent
  before their session existed, and the abstract directory of sessions that the table of
  sessions refines.
\<close>

section \<open>Polling\<close>

text \<open>Expiring handshakes one after the other.\<close>

lemma peer_or_device_expire [simp]: "peer_or_device p (expire_handshake k b) = peer_or_device p b"
  by (simp add: peer_or_device_def device_of_def)

lemma fold_expire_queue:
  "bh_queue (fold expire_handshake ks b) = bh_queue b @ map (\<lambda>k. GenerateEvent
     (HandshakeFailed (peer_or_device (fst k) b) ''handshake timed out'')) ks"
  by (induction ks arbitrary: b) simp_all

lemma fold_expire_handshakes:
  "hm_get (bh_handshakes (fold expire_handshake ks b)) k
     = (if k \<in> set ks then None else hm_get (bh_handshakes b) k)"
  by (induction ks arbitrary: b) auto

lemma expired_handshakes_props:
  assumes "hm_wf (bh_handshakes b)"
  shows "distinct (expired_handshakes now b)"
    and "k \<in> set (expired_handshakes now b) \<longleftrightarrow>
      (\<exists>hs ex. hm_get (bh_handshakes b) k = Some (hs, ex) \<and> hs_timed_out hs now)"
proof -
  show "distinct (expired_handshakes now b)"
    using assms by (auto simp: expired_handshakes_def hm_wf_def intro: distinct_map_filter)
  show "k \<in> set (expired_handshakes now b) \<longleftrightarrow>
      (\<exists>hs ex. hm_get (bh_handshakes b) k = Some (hs, ex) \<and> hs_timed_out hs now)"
    using hm_get_entry [OF assms, of k]
    by (cases k) (auto simp: expired_handshakes_def image_iff split_beta)
qed

text \<open>\<open>poll\<close> expires exactly the handshakes that have been running for more than 30 seconds:
  each of them is removed and reported once as failed, every other one is untouched, and
  the queue is served strictly in order, the reports behind what was queued before.\<close>

theorem bh_poll_expires:
  assumes reach: "reachable (bh_init d) (bh_next E) (hist, b)" and poll: "bh_poll now b = (b', r)"
  shows "\<exists>ks. distinct ks \<and>
    (\<forall>k. k \<in> set ks \<longleftrightarrow> (\<exists>hs ex. hm_get (bh_handshakes b) k = Some (hs, ex) \<and>
        duration_since now (hs_started_at hs) > HANDSHAKE_TIMEOUT)) \<and>
    (\<forall>k. hm_get (bh_handshakes b') k = (if k \<in> set ks then None else hm_get (bh_handshakes b) k)) \<and>
    (let reports = map (\<lambda>k. GenerateEvent (HandshakeFailed (peer_or_device (fst k) b)
                     ''handshake timed out'')) ks in
     case r of
       PollReady ev \<Rightarrow> ev # bh_queue b' = bh_queue b @ reports
     | Pending \<Rightarrow> bh_queue b = [] \<and> ks = [] \<and> bh_queue b' = [])"
proof -
  let ?ks = "expired_handshakes now b"
  have wf: "hm_wf (bh_handshakes b)" using bh_sys.reachable_inv [OF reach] by (simp add: bh_inv_def)
  note p = expired_handshakes_props [OF wf, where now = now]
  have hs: "hm_get (bh_handshakes b') k = (if k \<in> set ?ks then None else hm_get (bh_handshakes b) k)" for k
    using poll fold_expire_handshakes [of ?ks b k] by (auto simp: bh_poll_def Let_def split: list.splits)
  have q: "case r of
      PollReady ev \<Rightarrow> ev # bh_queue b' = bh_queue b @ map (\<lambda>k. GenerateEvent
        (HandshakeFailed (peer_or_device (fst k) b) ''handshake timed out'')) ?ks
    | Pending \<Rightarrow> bh_queue b = [] \<and> ?ks = [] \<and> bh_queue b' = []"
    using poll fold_expire_queue [of ?ks b] by (auto simp: bh_poll_def Let_def split: list.splits)
  show ?thesis using p hs q unfolding hs_timed_out_def Let_def by (intro exI [of _ ?ks]) blast
qed

section \<open>Two behaviours with a session between them\<close>

text \<open>How one side reaches the other.\<close>

record route =
  rt_device :: peer_id
  rt_transport :: peer_id
  rt_conn :: connection_id

definition attached :: "route \<Rightarrow> session \<Rightarrow> behaviour \<Rightarrow> bool" where
  "attached r s b \<longleftrightarrow>
     hm_get (bh_sessions b) (rt_device r) = Some (rt_transport r, rt_conn r, s) \<and>
     device_of (rt_transport r) b = Some (rt_device r)"

text \<open>Both directions in step; the first side has sent \<open>k\<close> frames, the second \<open>m\<close>.\<close>

definition linked ::
  "crates \<Rightarrow> nat \<Rightarrow> nat \<Rightarrow> route \<Rightarrow> behaviour \<Rightarrow> route \<Rightarrow> behaviour \<Rightarrow> bool" where
  "linked E k m ra a rb b \<longleftrightarrow>
     (\<exists>sa sb. attached ra sa a \<and> attached rb sb b \<and> paired E sa sb \<and> paired E sb sa \<and>
        unat (ss_out_seq sa) = k \<and> unat (ss_out_seq sb) = m)"

fun order_frames :: "to_swarm \<Rightarrow> frame list" where
  "order_frames (NotifyHandler _ _ (SendFrames fs)) = fs"
| "order_frames _ = []"

fun order_events :: "to_swarm \<Rightarrow> behaviour_event list" where
  "order_events (GenerateEvent e) = [e]"
| "order_events _ = []"

text \<open>What was queued between two states of one behaviour.\<close>

definition new_frames :: "behaviour \<Rightarrow> behaviour \<Rightarrow> frame list" where
  "new_frames b b' = concat (map order_frames (drop (length (bh_queue b)) (bh_queue b')))"

definition new_events :: "behaviour \<Rightarrow> behaviour \<Rightarrow> behaviour_event list" where
  "new_events b b' = concat (map order_events (drop (length (bh_queue b)) (bh_queue b')))"

fun deliver_all ::
  "crates \<Rightarrow> ambient \<Rightarrow> route \<Rightarrow> frame list \<Rightarrow> behaviour \<Rightarrow> behaviour option" where
  "deliver_all E A r [] b = Some b"
| "deliver_all E A r (f # fs) b =
     (case on_handler_event E A (rt_transport r) (rt_conn r) (FrameReceived f) b of
        None \<Rightarrow> None
      | Some b' \<Rightarrow> deliver_all E A r fs b')"

text \<open>One message: sent by the first side, delivered to the second, its ack delivered back; the
  three calls each have their own surroundings.\<close>

type_synonym utterance = "string \<times> ambient \<times> ambient \<times> ambient"

fun exchange ::
  "crates \<Rightarrow> route \<Rightarrow> route \<Rightarrow> utterance \<Rightarrow> behaviour \<times> behaviour \<Rightarrow> (behaviour \<times> behaviour) option" where
  "exchange E ra rb (body, A, B, C) (a, b) =
     (case send_message E A (rt_device ra) body a of
        None \<Rightarrow> None
      | Some (a1, _) \<Rightarrow>
          (case deliver_all E B rb (new_frames a a1) b of
             None \<Rightarrow> None
           | Some b1 \<Rightarrow>
               map_option (\<lambda>a2. (a2, b1)) (deliver_all E C ra (new_frames b b1) a1)))"

fun conversation ::
  "crates \<Rightarrow> route \<Rightarrow> route \<Rightarrow> utterance list \<Rightarrow> behaviour \<times> behaviour
   \<Rightarrow> (behaviour \<times> behaviour) option" where
  "conversation E ra rb [] ab = Some ab"
| "conversation E ra rb (u # us) ab =
     (case exchange E ra rb u ab of None \<Rightarrow> None | Some ab' \<Rightarrow> conversation E ra rb us ab')"

text \<open>What the two nodes are to hear of one message, the \<open>n\<close>-th frame of its direction.\<close>

fun received_event :: "route \<Rightarrow> utterance \<Rightarrow> behaviour_event" where
  "received_event rb (body, A, B, C) =
     MessageReceived (rt_device rb) (am_rid A) body (now_ms (am_clock A 0))"

fun acked_event :: "route \<Rightarrow> nat \<times> utterance \<Rightarrow> behaviour_event" where
  "acked_event ra (n, body, A, B, C) = AckReceived (rt_device ra) (am_rid A) (of_nat n)"

lemma handle_of_recv: "session_recv E f r = Some (r', v) \<Longrightarrow> handle_frame E f r = Some (r', Inr v)"
  by (auto simp: session_recv_def split: option.splits sum.splits)

lemma paired_out:
  "paired E s r \<Longrightarrow> handle_frame E f s = Some (s', Inr i) \<Longrightarrow> paired E s' r"
  using handle_frame_accepts(3) [of E f s s' i] by (simp add: paired_def)

lemma paired_in:
  "paired E s r \<Longrightarrow> session_send E q r = Some (r', f) \<Longrightarrow> paired E s r'"
  using session_send_seq(3) [of E q r r' f]
  by (simp add: paired_def) (metis session.simps(1-5,7) session.surjective session.update_convs(6))

text \<open>One side sends, one side receives a message, one side receives an ack.\<close>

lemma side_sends:
  assumes "attached r s a" and "encrypt_message E body (am_rid A) (am_clock A 0) s = Some (s', Inr f)"
  obtains a' where "send_message E A (rt_device r) body a = Some (a', am_rid A)" "attached r s' a'"
    "bh_queue a' = bh_queue a @ [NotifyHandler (rt_transport r) (rt_conn r) (SendFrames [f])]"
proof
  let ?a = "notify_conn (rt_transport r) (rt_conn r) [f]
    (set_session (rt_device r) (rt_transport r) (rt_conn r) s' a)"
  show "send_message E A (rt_device r) body a = Some (?a, am_rid A)"
    using assms by (simp add: send_message_def attached_def)
  show "attached r s' ?a" using assms(1) by (simp add: attached_def device_of_def)
  show "bh_queue ?a = bh_queue a @ [NotifyHandler (rt_transport r) (rt_conn r) (SendFrames [f])]"
    by simp
qed

lemma side_receives_message:
  assumes "attached r s b" and "is_session_frame f"
    and "handle_frame E f s = Some (s', Inr (Inbound_Message sq mid ts body))"
    and "encrypt_ack E mid sq (am_clock B 0) (am_rid B) s' = Some (s'', ack)"
  obtains b' where "deliver_all E B r [f] b = Some b'" "attached r s'' b'"
    "bh_queue b' = bh_queue b @ [NotifyHandler (rt_transport r) (rt_conn r) (SendFrames [ack]),
       GenerateEvent (MessageReceived (rt_device r) mid body ts)]"
proof
  let ?b = "push_back (GenerateEvent (MessageReceived (rt_device r) mid body ts))
    (notify_conn (rt_transport r) (rt_conn r) [ack]
      (set_session (rt_device r) (rt_transport r) (rt_conn r) s'' b))"
  show "deliver_all E B r [f] b = Some ?b"
    using assms by (simp add: on_handler_event_def bh_on_frame_def on_session_frame_def attached_def)
  show "attached r s'' ?b" using assms(1) by (simp add: attached_def device_of_def)
  show "bh_queue ?b = bh_queue b @ [NotifyHandler (rt_transport r) (rt_conn r) (SendFrames [ack]),
       GenerateEvent (MessageReceived (rt_device r) mid body ts)]" by simp
qed

lemma side_receives_ack:
  assumes "attached r s a" and "is_session_frame f"
    and "handle_frame E f s = Some (s', Inr (Inbound_Ack mid sq))"
  obtains a' where "deliver_all E C r [f] a = Some a'" "attached r s' a'"
    "bh_queue a' = bh_queue a @ [GenerateEvent (AckReceived (rt_device r) mid sq)]"
proof
  let ?a = "push_back (GenerateEvent (AckReceived (rt_device r) mid sq))
    (set_session (rt_device r) (rt_transport r) (rt_conn r) s' a)"
  show "deliver_all E C r [f] a = Some ?a"
    using assms by (simp add: on_handler_event_def bh_on_frame_def on_session_frame_def attached_def)
  show "attached r s' ?a" using assms(1) by (simp add: attached_def device_of_def)
  show "bh_queue ?a = bh_queue a @ [GenerateEvent (AckReceived (rt_device r) mid sq)]" by simp
qed

lemma exchange_step:
  assumes link: "linked E k m ra a rb b" and room: "k < 2 ^ 32 - 1" "m < 2 ^ 32 - 1"
    and body: "valid_str body" "length body \<le> MAX_MESSAGE_BYTES"
  shows "\<exists>a' b' f ack. exchange E ra rb (body, A, B, C) (a, b) = Some (a', b') \<and>
    linked E (Suc k) (Suc m) ra a' rb b' \<and>
    bh_queue a' = bh_queue a @ [NotifyHandler (rt_transport ra) (rt_conn ra) (SendFrames [f]),
      GenerateEvent (AckReceived (rt_device ra) (am_rid A) (of_nat k))] \<and>
    bh_queue b' = bh_queue b @ [NotifyHandler (rt_transport rb) (rt_conn rb) (SendFrames [ack]),
      GenerateEvent (MessageReceived (rt_device rb) (am_rid A) body (now_ms (am_clock A 0)))]"
proof -
  from link obtain sa sb where s: "attached ra sa a" "attached rb sb b" "paired E sa sb" "paired E sb sa"
    "unat (ss_out_seq sa) = k" "unat (ss_out_seq sb) = m" by (auto simp: linked_def)
  have ae: "aead_correct E" using s(3) by (simp add: paired_def)
  let ?q = "(OutMessage body (am_rid A), am_clock A 0, 0) :: request"
  have qok: "request_ok E ?q" using body by simp
  obtain f where f: "session_send E ?q sa = Some (sa\<lparr>ss_out_seq := ss_out_seq sa + 1\<rparr>, f)"
    using session_send_total [OF ae qok, of sa] body room s(5) by auto
  define sa1 where "sa1 = sa\<lparr>ss_out_seq := ss_out_seq sa + 1\<rparr>"
  note f = f [folded sa1_def]
  then have enc: "encrypt_message E body (am_rid A) (am_clock A 0) sa = Some (sa1, Inr f)"
    by (auto split: option.splits sum.splits)
  obtain sb1 where sb1: "session_recv E f sb = Some (sb1, session_view sa ?q)" "paired E sa1 sb1"
    using session_channel_step [OF s(3) qok f] by blast
  note h = handle_of_recv [OF sb1(1)]
  have kk: "ss_out_seq sa = of_nat k" using s(5) by auto
  have p1: "paired E sb1 sa1" using paired_in [OF paired_out [OF s(4) h] f] .
  have out1: "unat (ss_out_seq sb1) = m" using handle_frame_accepts(3) [OF h] s(6) by simp
  let ?r = "(OutAck (am_rid A) (ss_out_seq sa), am_clock B 0, am_rid B) :: request"
  have rok: "request_ok E ?r" by simp
  obtain ack where ack: "session_send E ?r sb1 = Some (sb1\<lparr>ss_out_seq := ss_out_seq sb1 + 1\<rparr>, ack)"
    using session_send_total [OF ae rok, of sb1] room out1 by auto
  define sb2 where "sb2 = sb1\<lparr>ss_out_seq := ss_out_seq sb1 + 1\<rparr>"
  note ack = ack [folded sb2_def]
  obtain sa2 where sa2: "session_recv E ack sa1 = Some (sa2, session_view sb1 ?r)" "paired E sb2 sa2"
    using session_channel_step [OF p1 rok ack] by blast
  note h2 = handle_of_recv [OF sa2(1)]
  have p2: "paired E sa2 sb2" using paired_out [OF paired_in [OF sb1(2) ack] h2] .
  have outs: "unat (ss_out_seq sa2) = Suc k" "unat (ss_out_seq sb2) = Suc m"
    using handle_frame_accepts(3) [OF h2] unat_suc_word s(5) out1 room by (simp_all add: sa1_def sb2_def)
  have sess: "is_session_frame f" "is_session_frame ack"
    using session_send_seq(6) [OF f] session_send_seq(6) [OF ack] by (auto simp: is_session_frame_def)
  obtain a1 where a1: "send_message E A (rt_device ra) body a = Some (a1, am_rid A)" "attached ra sa1 a1"
    "bh_queue a1 = bh_queue a @ [NotifyHandler (rt_transport ra) (rt_conn ra) (SendFrames [f])]"
    by (rule side_sends [OF s(1) enc])
  obtain b1 where b1: "deliver_all E B rb [f] b = Some b1" "attached rb sb2 b1"
    "bh_queue b1 = bh_queue b @ [NotifyHandler (rt_transport rb) (rt_conn rb) (SendFrames [ack]),
      GenerateEvent (MessageReceived (rt_device rb) (am_rid A) body (now_ms (am_clock A 0)))]"
    by (rule side_receives_message [OF s(2) sess(1) h [unfolded session_view.simps]
          ack [unfolded session_send.simps]])
  obtain a2 where a2: "deliver_all E C ra [ack] a1 = Some a2" "attached ra sa2 a2"
    "bh_queue a2 = bh_queue a1 @ [GenerateEvent (AckReceived (rt_device ra) (am_rid A) (ss_out_seq sa))]"
    by (rule side_receives_ack [OF a1(2) sess(2) h2 [unfolded session_view.simps]])
  have "exchange E ra rb (body, A, B, C) (a, b) = Some (a2, b1)"
    using a1 b1 a2 by (simp add: new_frames_def del: deliver_all.simps)
  moreover have "linked E (Suc k) (Suc m) ra a2 rb b1"
    unfolding linked_def using a2(2) b1(2) p2 sa2(2) outs by blast
  ultimately show ?thesis using a1(3) a2(3) b1(3) kk by auto
qed

text \<open>C5. Conversations are delivered and acknowledged.  Between two behaviours whose sessions
  come from one handshake, every sequence of messages of valid text within the size
  limit is sent, delivered and acknowledged without any error or panic: the receiving
  node gets exactly the messages sent, in order, under the sender's device identity and
  with the sender's identifiers and time stamps, the sending node gets exactly one ack for each
  message, with its identifier and its sequence number, and the sessions stay in step.\<close>

theorem bh_conversation_delivered:
  assumes "linked E k m ra a rb b"
    and "k + length us < 2 ^ 32" and "m + length us < 2 ^ 32"
    and "\<forall>(body, _) \<in> set us. valid_str body \<and> length body \<le> MAX_MESSAGE_BYTES"
  shows "\<exists>a' b'. conversation E ra rb us (a, b) = Some (a', b') \<and>
    new_events b b' = map (received_event rb) us \<and>
    new_events a a' = map (acked_event ra) (enumerate k us) \<and>
    linked E (k + length us) (m + length us) ra a' rb b'"
proof -
  have "\<exists>a' b' xs ys. conversation E ra rb us (a, b) = Some (a', b') \<and>
      bh_queue a' = bh_queue a @ xs \<and> bh_queue b' = bh_queue b @ ys \<and>
      concat (map order_events ys) = map (received_event rb) us \<and>
      concat (map order_events xs) = map (acked_event ra) (enumerate k us) \<and>
      linked E (k + length us) (m + length us) ra a' rb b'"
    using assms
  proof (induction us arbitrary: k m a b)
    case Nil
    then show ?case by auto
  next
    case (Cons u us)
    obtain body A B C where u: "u = (body, A, B, C)" by (cases u)
    obtain a1 b1 f ack where e: "exchange E ra rb u (a, b) = Some (a1, b1)"
      "linked E (Suc k) (Suc m) ra a1 rb b1"
      "bh_queue a1 = bh_queue a @ [NotifyHandler (rt_transport ra) (rt_conn ra) (SendFrames [f]),
        GenerateEvent (AckReceived (rt_device ra) (am_rid A) (of_nat k))]"
      "bh_queue b1 = bh_queue b @ [NotifyHandler (rt_transport rb) (rt_conn rb) (SendFrames [ack]),
        GenerateEvent (MessageReceived (rt_device rb) (am_rid A) body (now_ms (am_clock A 0)))]"
      using exchange_step [OF Cons.prems(1), of body A B C] Cons.prems(2-4) by (auto simp: u)
    have "\<forall>(body, _) \<in> set us. valid_str body \<and> length body \<le> MAX_MESSAGE_BYTES"
      using Cons.prems(4) by simp
    from Cons.IH [OF e(2) _ _ this] Cons.prems(2,3) obtain a' b' xs ys where
      "conversation E ra rb us (a1, b1) = Some (a', b')"
      "bh_queue a' = bh_queue a1 @ xs" "bh_queue b' = bh_queue b1 @ ys"
      "concat (map order_events ys) = map (received_event rb) us"
      "concat (map order_events xs) = map (acked_event ra) (enumerate (Suc k) us)"
      "linked E (Suc k + length us) (Suc m + length us) ra a' rb b'" by auto
    then show ?case using e by (auto simp: u simp del: exchange.simps)
  qed
  then show ?thesis by (auto simp: new_events_def)
qed

section \<open>Messages sent before the session exists\<close>

text \<open>What the peer is to see of a queue of waiting messages: those within the size limit, in
  order, numbered from \<open>n\<close> on.\<close>

fun pending_views :: "(nat \<Rightarrow> int) \<Rightarrow> nat \<Rightarrow> (u64 \<times> string) list \<Rightarrow> inbound list" where
  "pending_views clock n [] = []"
| "pending_views clock n ((mid, body) # q) =
     (if length body \<le> MAX_MESSAGE_BYTES
      then Inbound_Message (of_nat n) mid (now_ms (clock 0)) body
             # pending_views (\<lambda>i. clock (Suc i)) (Suc n) q
      else pending_views (\<lambda>i. clock (Suc i)) n q)"

fun send_texts :: "crates \<Rightarrow> peer_id \<Rightarrow> (ambient \<times> string) list \<Rightarrow> behaviour \<Rightarrow> behaviour option" where
  "send_texts E dv [] b = Some b"
| "send_texts E dv ((A, body) # us) b =
     (case send_message E A dv body b of None \<Rightarrow> None | Some (b', _) \<Rightarrow> send_texts E dv us b')"

lemma send_texts_waits:
  assumes "hm_get (bh_sessions b) dv = None"
  shows "\<exists>b'. send_texts E dv us b = Some b' \<and> hm_get (bh_sessions b') dv = None \<and>
    bh_queue b' = bh_queue b \<and> bh_observed_addrs b' = bh_observed_addrs b \<and>
    (us \<noteq> [] \<longrightarrow> hm_get (bh_pending_sends b') dv
       = Some ((case hm_get (bh_pending_sends b) dv of None \<Rightarrow> [] | Some q \<Rightarrow> q)
               @ map (\<lambda>(A, body). (am_rid A, body)) us))"
  using assms
proof (induction us arbitrary: b)
  case Nil
  then show ?case by simp
next
  case (Cons u us)
  obtain A body where u: "u = (A, body)" by (cases u)
  let ?q = "(case hm_get (bh_pending_sends b) dv of None \<Rightarrow> [] | Some q \<Rightarrow> q) @ [(am_rid A, body)]"
  let ?b = "b\<lparr>bh_pending_sends := hm_insert dv ?q (bh_pending_sends b)\<rparr>"
  have s: "send_message E A dv body b = Some (?b, am_rid A)"
    using Cons.prems by (simp add: send_message_def Let_def)
  have "hm_get (bh_sessions ?b) dv = None" using Cons.prems by simp
  from Cons.IH [OF this] s show ?case by (cases us) (auto simp: u)
qed

lemma send_all_snoc:
  assumes "send_all send ms s = Some (s1, fs)" and "send m s1 = Some (s2, f)"
  shows "send_all send (ms @ [m]) s = Some (s2, fs @ [f])"
  using assms(1)
proof (induction ms arbitrary: s fs)
  case Nil
  then show ?case using assms(2) by simp
next
  case (Cons n ms)
  then obtain s0 g fs0 where "send n s = Some (s0, g)" "send_all send ms s0 = Some (s1, fs0)" "fs = g # fs0"
    by (auto split: option.splits)
  then show ?case using Cons.IH by simp
qed

lemma seal_pending_delivers:
  assumes "paired E s r" and "seal_pending E clock q s = Some (s', fs)"
    and "\<forall>(mid, body) \<in> set q. valid_str body" and "unat (ss_out_seq s) = n" "n + length q < 2 ^ 32"
  shows "\<exists>r'. send_all (session_recv E) fs r = Some (r', pending_views clock n q) \<and> paired E s' r' \<and>
    unat (ss_out_seq s') = n + length (pending_views clock n q)"
  using assms
proof (induction q arbitrary: clock s r n fs)
  case Nil
  then show ?case by simp
next
  case (Cons m q)
  obtain mid body where m: "m = (mid, body)" by (cases m)
  have valid: "\<forall>(mid, body) \<in> set q. valid_str body" "valid_str body" using Cons.prems(3) by (auto simp: m)
  show ?case
  proof (cases "length body \<le> MAX_MESSAGE_BYTES")
    case False
    then have "seal_pending E (\<lambda>i. clock (Suc i)) q s = Some (s', fs)"
      using Cons.prems(2) by (simp add: m encrypt_message_def Let_def)
    then show ?thesis using Cons.IH [OF Cons.prems(1) _ valid(1) Cons.prems(4)] Cons.prems(5) False
      by (auto simp: m)
  next
    case True
    let ?q = "(OutMessage body mid, clock 0, 0) :: request"
    have ae: "aead_correct E" using Cons.prems(1) by (simp add: paired_def)
    have ok: "request_ok E ?q" "request_fits E ?q" "unat (ss_out_seq s) < 2 ^ 32 - 1"
      using True valid Cons.prems(4,5) by simp_all
    define s1 where "s1 = s\<lparr>ss_out_seq := ss_out_seq s + 1\<rparr>"
    obtain f where f: "session_send E ?q s = Some (s1, f)"
      using session_send_total [OF ae ok] by (auto simp: s1_def)
    then have enc: "encrypt_message E body mid (clock 0) s = Some (s1, Inr f)"
      by (auto split: option.splits sum.splits)
    obtain fs1 where fs1: "seal_pending E (\<lambda>i. clock (Suc i)) q s1 = Some (s', fs1)" "fs = f # fs1"
      using Cons.prems(2) enc by (auto simp: m)
    obtain r1 where r1: "session_recv E f r = Some (r1, session_view s ?q)" "paired E s1 r1"
      using session_channel_step [OF Cons.prems(1) ok(1) f] by blast
    have n: "unat (ss_out_seq s1) = Suc n" using unat_suc_word [OF ok(3)] Cons.prems(4) by (simp add: s1_def)
    have "ss_out_seq s = of_nat n" using Cons.prems(4) by auto
    then show ?thesis
      using Cons.IH [OF r1(2) fs1(1) valid(1) n] Cons.prems(5) r1(1) True
      by (auto simp: m fs1(2))
  qed
qed

text \<open>What an established handshake puts on the wire: the waiting messages, then, on an inbound
  connection, the address the peer was seen at.\<close>

definition waiting :: "peer_id \<Rightarrow> behaviour \<Rightarrow> (u64 \<times> string) list" where
  "waiting dv b = (case hm_get (bh_pending_sends b) dv of None \<Rightarrow> [] | Some q \<Rightarrow> q)"

definition observed_views :: "peer_id \<Rightarrow> connection_id \<Rightarrow> nat \<Rightarrow> behaviour \<Rightarrow> inbound list" where
  "observed_views t c n b =
     (case hm_get (bh_observed_addrs b) (t, c) of
        None \<Rightarrow> [] | Some (ip, port) \<Rightarrow> [Inbound_ObservedAddr (of_nat n) ip port])"

lemma flush_shape:
  assumes "seal_pending E (am_clock A) (waiting dv b) s = Some (s', fs)"
    and "hm_get (bh_sessions b) dv = Some (t, c, s)"
  shows "\<exists>b' orders. flush_pending_sends E A dv t c b = Some b' \<and>
    hm_get (bh_sessions b') dv = Some (t, c, s') \<and> hm_get (bh_pending_sends b') dv = None \<and>
    bh_observed_addrs b' = bh_observed_addrs b \<and> bh_queue b' = bh_queue b @ orders \<and>
    orders = (if hm_get (bh_pending_sends b) dv = None then [] else [NotifyHandler t c (SendFrames fs)]) \<and>
    concat (map order_frames orders) = fs"
proof (cases "hm_get (bh_pending_sends b) dv")
  case None
  then show ?thesis using assms by (simp add: flush_pending_sends_def waiting_def)
next
  case (Some q)
  then show ?thesis using assms by (simp add: flush_pending_sends_def waiting_def)
qed

lemma only_out_trans:
  "s1 = s\<lparr>ss_out_seq := ss_out_seq s1\<rparr> \<Longrightarrow> s2 = s1\<lparr>ss_out_seq := ss_out_seq s2\<rparr> \<Longrightarrow>
   s2 = s\<lparr>ss_out_seq := ss_out_seq (s2 :: session)\<rparr>"
  by (metis session.update_convs(6) session.surjective)

lemma seal_pending_only_out:
  "seal_pending E clock q s = Some (s', fs) \<Longrightarrow> s' = s\<lparr>ss_out_seq := ss_out_seq s'\<rparr>"
proof (induction q arbitrary: clock s fs)
  case Nil
  then show ?case by simp
next
  case (Cons m q)
  obtain mid body where m: "m = (mid, body)" by (cases m)
  from Cons.prems obtain s1 r fs1 where r: "encrypt_message E body mid (clock 0) s = Some (s1, r)"
    "seal_pending E (\<lambda>i. clock (Suc i)) q s1 = Some (s', fs1)"
    by (auto simp: m split: option.splits sum.splits)
  have "s1 = s\<lparr>ss_out_seq := ss_out_seq s1\<rparr>"
  proof (cases r)
    case (Inl e)
    then show ?thesis using r(1) encrypt_message_error by fastforce
  next
    case (Inr f)
    then show ?thesis using session_send_seq(3) [OF send_forms(1)] r(1) by blast
  qed
  then show ?case using Cons.IH [OF r(2)] by (rule only_out_trans)
qed

lemma send_sealed_queue: "send_sealed seal p b = Some b' \<Longrightarrow> \<exists>ys. bh_queue b' = bh_queue b @ ys"
  by (auto simp: send_sealed_def split: option.splits)

lemma on_established_queue:
  assumes "on_established E A t c res b = Some b'"
  shows "\<exists>ys. bh_queue b' = bh_queue b @ ys"
proof -
  define b4 where "b4 = set_session (hr_peer_id res) t c (session_new E res)
    ((map_transport (hr_peer_id res) t (b\<lparr>bh_handshakes := hm_remove (t, c) (bh_handshakes b)\<rparr>))
      \<lparr>bh_peer_names := hm_insert (hr_peer_id res) (ph_user_name (hr_peer_hello res)) (bh_peer_names b)\<rparr>)"
  from assms obtain b5 where b5: "flush_pending_sends E A (hr_peer_id res) t c b4 = Some b5"
    by (auto simp: on_established_def b4_def Let_def split: option.splits)
  then obtain xs where "bh_queue b5 = bh_queue b @ xs"
    by (auto simp: flush_pending_sends_def b4_def Let_def split: option.splits)
  moreover have "\<exists>ys. bh_queue b' = bh_queue b5 @ ys"
    using assms b5 by (auto simp: on_established_def b4_def Let_def send_observed_addr_def
        dest!: send_sealed_queue split: option.splits)
  ultimately show ?thesis by auto
qed

lemma established_sends:
  fixes A :: ambient
  assumes pr: "paired E (session_new E res) r" and valid: "\<forall>(mid, body) \<in> set (waiting dv b). valid_str body"
    and len: "length (waiting dv b) < 2 ^ 32 - 1" and dv: "dv = hr_peer_id res"
  defines "pv \<equiv> pending_views (am_clock A) 0 (waiting dv b)"
  shows "\<exists>b' r' s'. on_established E A t c res b = Some b' \<and>
    send_all (session_recv E) (new_frames b b') r
      = Some (r', pv @ observed_views t c (length pv) b) \<and>
    hm_get (bh_sessions b') dv = Some (t, c, s') \<and> paired E s' r' \<and>
    s' = (session_new E res)\<lparr>ss_out_seq := ss_out_seq s'\<rparr> \<and>
    hm_get (bh_pending_sends b') dv = None \<and>
    (\<forall>t' c' fs. NotifyHandler t' c' fs \<in> set (drop (length (bh_queue b)) (bh_queue b')) \<longrightarrow>
       t' = t \<and> c' = c) \<and>
    new_events b b' = [SessionEstablished dv c res]"
proof -
  define b4 where "b4 = set_session dv t c (session_new E res)
    ((map_transport dv t (b\<lparr>bh_handshakes := hm_remove (t, c) (bh_handshakes b)\<rparr>))
      \<lparr>bh_peer_names := hm_insert dv (ph_user_name (hr_peer_hello res)) (bh_peer_names b)\<rparr>)"
  have w: "waiting dv b4 = waiting dv b" "bh_queue b4 = bh_queue b"
    "bh_observed_addrs b4 = bh_observed_addrs b" by (simp_all add: waiting_def b4_def)
  have ae: "aead_correct E" using pr by (simp add: paired_def)
  have z: "unat (ss_out_seq (session_new E res)) = 0" by (simp add: session_new_def Let_def)
  obtain s1 fs where s1: "seal_pending E (am_clock A) (waiting dv b4) (session_new E res) = Some (s1, fs)"
    using seal_pending_total [OF ae] by blast
  obtain r1 where r1: "send_all (session_recv E) fs r = Some (r1, pv)" "paired E s1 r1"
    "unat (ss_out_seq s1) = length pv"
    using seal_pending_delivers [OF pr s1 [unfolded w] valid z] len by (auto simp: pv_def)
  have bound: "length pv \<le> length (waiting dv b)"
  proof -
    have "length (pending_views clk n q) \<le> length q" for clk n q
      by (induction q arbitrary: clk n) (auto simp: le_SucI)
    then show ?thesis by (simp add: pv_def)
  qed
  have "hm_get (bh_sessions b4) dv = Some (t, c, session_new E res)" by (simp add: b4_def)
  from flush_shape [OF s1 this] obtain b5 orders where b5:
    "flush_pending_sends E A dv t c b4 = Some b5" "hm_get (bh_sessions b5) dv = Some (t, c, s1)"
    "hm_get (bh_pending_sends b5) dv = None" "bh_observed_addrs b5 = bh_observed_addrs b"
    "bh_queue b5 = bh_queue b @ orders" "set orders \<subseteq> {NotifyHandler t c (SendFrames fs)}"
    "concat (map order_frames orders) = fs" "concat (map order_events orders) = []"
    by (auto simp: w split: if_splits)
  have est: "on_established E A t c res b = map_option (push_back (GenerateEvent (SessionEstablished dv c res)))
      (case hm_get (bh_observed_addrs b5) (t, c) of
         None \<Rightarrow> Some b5
       | Some (ip, port) \<Rightarrow> send_observed_addr E A dv ip port
           (b5\<lparr>bh_observed_addrs := hm_remove (t, c) (bh_observed_addrs b5)\<rparr>))"
    using b5(1) by (simp add: on_established_def b4_def Let_def dv split: option.split)
  show ?thesis
  proof (cases "hm_get (bh_observed_addrs b) (t, c)")
    case None
    then show ?thesis
      using est b5 r1 seal_pending_only_out [OF s1]
      by (intro exI [of _ "push_back (GenerateEvent (SessionEstablished dv c res)) b5"] exI)
        (auto simp: new_frames_def new_events_def observed_views_def)
  next
    case (Some x)
    then obtain ip port where x: "hm_get (bh_observed_addrs b) (t, c) = Some (ip, port)" by (cases x) auto
    let ?q = "(OutObserved ip port, 0, am_rid A) :: request"
    have room: "unat (ss_out_seq s1) < 2 ^ 32 - 1" using r1(3) bound len by simp
    obtain s2 f where f: "session_send E ?q s1 = Some (s2, f)"
      using session_send_total [OF ae _ _ room, of ?q] by auto
    obtain r2 where r2: "session_recv E f r1 = Some (r2, session_view s1 ?q)" "paired E s2 r2"
      using session_channel_step [OF r1(2) _ f] by auto
    define b6 where "b6 = notify_conn t c [f] (set_session dv t c s2
        (b5\<lparr>bh_observed_addrs := hm_remove (t, c) (bh_observed_addrs b5)\<rparr>))"
    have "send_observed_addr E A dv ip port
        (b5\<lparr>bh_observed_addrs := hm_remove (t, c) (bh_observed_addrs b5)\<rparr>) = Some b6"
      using b5(2) f by (simp add: send_observed_addr_def send_sealed_def b6_def)
    then have e: "on_established E A t c res b
        = Some (push_back (GenerateEvent (SessionEstablished dv c res)) b6)"
      using est x b5(4) by simp
    have q6: "bh_queue b6 = bh_queue b @ orders @ [NotifyHandler t c (SendFrames [f])]"
      by (simp add: b6_def b5(5))
    have "ss_out_seq s1 = of_nat (length pv)" by (simp flip: r1(3))
    moreover have "send_all (session_recv E) (fs @ [f]) r
        = Some (r2, pv @ [session_view s1 ?q])"
      using r1(1) r2(1) by (rule send_all_snoc)
    moreover have "s2 = (session_new E res)\<lparr>ss_out_seq := ss_out_seq s2\<rparr>"
      by (rule only_out_trans [OF seal_pending_only_out [OF s1] session_send_seq(3) [OF f]])
    ultimately show ?thesis
      using e q6 b5 r2
      by (intro exI [of _ "push_back (GenerateEvent (SessionEstablished dv c res)) b6"] exI [of _ r2] exI [of _ s2])
        (auto simp: new_frames_def new_events_def observed_views_def x b6_def)
  qed
qed

text \<open>Nothing sent too early is lost: messages sent to a device while there is no session
  with it wait in order, and when the handshake with that device completes they are put on
  the new session in the order they were sent, before the session is reported to the
  node; the peer's new session accepts every one of them and yields the texts and
  identifiers that were sent (a text over the size limit alone is skipped), followed on an
  inbound connection by the address the peer was seen at.  All frames go to the connection of the
  handshake, and nothing is left waiting.\<close>

theorem bh_pending_delivered:
  assumes "aead_correct E" "text_codecs_ok E" "peer_ids_ok E" and "complementary res res'"
    and "hm_get (bh_sessions b) (hr_peer_id res) = None"
    and "hm_get (bh_pending_sends b) (hr_peer_id res) = None"
    and "\<forall>(_, body) \<in> set us. valid_str body" and "length us < 2 ^ 32 - 1"
  shows "\<exists>b1 b2 r' msgs. send_texts E (hr_peer_id res) us b = Some b1 \<and> bh_queue b1 = bh_queue b \<and>
    on_established E A t c res b1 = Some b2 \<and>
    msgs = pending_views (am_clock A) 0 (map (\<lambda>(A, body). (am_rid A, body)) us) \<and>
    send_all (session_recv E) (new_frames b1 b2) (session_new E res')
      = Some (r', msgs @ observed_views t c (length msgs) b) \<and>
    (\<forall>t' c' fs. NotifyHandler t' c' fs \<in> set (drop (length (bh_queue b)) (bh_queue b2)) \<longrightarrow>
       t' = t \<and> c' = c) \<and>
    new_events b1 b2 = [SessionEstablished (hr_peer_id res) c res] \<and>
    hm_get (bh_pending_sends b2) (hr_peer_id res) = None"
proof -
  let ?dv = "hr_peer_id res" and ?q = "map (\<lambda>(A, body). (am_rid A, body)) us"
  from send_texts_waits [OF assms(5)] obtain b1 where b1: "send_texts E ?dv us b = Some b1"
    "bh_queue b1 = bh_queue b" "bh_observed_addrs b1 = bh_observed_addrs b"
    "us \<noteq> [] \<Longrightarrow> hm_get (bh_pending_sends b1) ?dv = Some ?q"
    using assms(6) by auto
  have "us = [] \<Longrightarrow> b1 = b" using b1(1) by simp
  then have w: "waiting ?dv b1 = ?q" using b1(4) assms(6) by (cases us) (auto simp: waiting_def)
  have "\<forall>(mid, body) \<in> set (waiting ?dv b1). valid_str body" using assms(7) by (auto simp: w)
  moreover have "length (waiting ?dv b1) < 2 ^ 32 - 1" using assms(8) by (simp add: w)
  ultimately have "\<exists>b2 r' s'. on_established E A t c res b1 = Some b2 \<and>
      send_all (session_recv E) (new_frames b1 b2) (session_new E res')
        = Some (r', pending_views (am_clock A) 0 ?q
            @ observed_views t c (length (pending_views (am_clock A) 0 ?q)) b1) \<and>
      hm_get (bh_sessions b2) ?dv = Some (t, c, s') \<and> paired E s' r' \<and>
      s' = (session_new E res)\<lparr>ss_out_seq := ss_out_seq s'\<rparr> \<and>
      hm_get (bh_pending_sends b2) ?dv = None \<and>
      (\<forall>t' c' fs. NotifyHandler t' c' fs \<in> set (drop (length (bh_queue b1)) (bh_queue b2)) \<longrightarrow>
         t' = t \<and> c' = c) \<and>
      new_events b1 b2 = [SessionEstablished ?dv c res]"
    using established_sends [OF paired_new [OF assms(1-4)] _ _ refl, of b1 A t c] by (simp only: w)
  moreover have "observed_views t c n b1 = observed_views t c n b" for n
    by (simp add: observed_views_def b1(3))
  ultimately show ?thesis using b1(1,2) by (simp only:) blast
qed

section \<open>The directory of sessions\<close>

text \<open>The abstract specification: which device is behind a transport identity, and over which
  connection the session with a device runs.\<close>

record directory =
  dr_devices :: "peer_id \<Rightarrow> peer_id option"
  dr_sessions :: "peer_id \<Rightarrow> (peer_id \<times> connection_id) option"

datatype dir_change =
  Learn peer_id peer_id
| Open peer_id peer_id connection_id
| Fail peer_id
| Close peer_id connection_id
| Keep

definition dir_owner :: "peer_id \<Rightarrow> directory \<Rightarrow> peer_id" where
  "dir_owner t D = (case dr_devices D t of None \<Rightarrow> t | Some dv \<Rightarrow> dv)"

fun dir_apply :: "dir_change \<Rightarrow> directory \<Rightarrow> directory" where
  "dir_apply (Learn dv t) D = D\<lparr>dr_devices := (dr_devices D)(t \<mapsto> dv)\<rparr>"
| "dir_apply (Open dv t c) D =
     D\<lparr>dr_devices := (dr_devices D)(t \<mapsto> dv), dr_sessions := (dr_sessions D)(dv \<mapsto> (t, c))\<rparr>"
| "dir_apply (Fail t) D = D\<lparr>dr_sessions := (dr_sessions D)(dir_owner t D := None)\<rparr>"
| "dir_apply (Close t c) D =
     (if dr_sessions D (dir_owner t D) = Some (t, c)
      then D\<lparr>dr_sessions := (dr_sessions D)(dir_owner t D := None)\<rparr> else D)"
| "dir_apply Keep D = D"

text \<open>The changes an operation may make: only a handshake frame opens a session, on the
  connection it came from; only a session frame fails one, that of the device behind its
  transport; closing a connection ends at most the session that runs over it.\<close>

fun may_change :: "bh_op \<Rightarrow> dir_change \<Rightarrow> bool" where
  "may_change (OpConnect dv t as) l \<longleftrightarrow> l = (if as = [] then Keep else Learn dv t)"
| "may_change (OpMapTransport dv t) l \<longleftrightarrow> l = Learn dv t"
| "may_change (OpHandler t c (FrameReceived f)) l \<longleftrightarrow>
     l = Keep \<or> (if is_session_frame f then l = Fail t else \<exists>dv. l = Open dv t c)"
| "may_change (OpSwarm (ConnectionClosed t c n)) l \<longleftrightarrow> l = Close t c"
| "may_change _ l \<longleftrightarrow> l = Keep"

definition dir_abs :: "behaviour \<Rightarrow> directory" where
  "dir_abs b =
     \<lparr>dr_devices = hm_get (bh_transport_devices b),
      dr_sessions = (\<lambda>dv. map_option (\<lambda>(t, c, _). (t, c)) (hm_get (bh_sessions b) dv))\<rparr>"

lemma dir_abs_same [simp]:
  "dir_abs (push_back ev b) = dir_abs b" "dir_abs (notify_conn p c fs b) = dir_abs b"
  "dir_abs (observe_inbound p c a b) = dir_abs b" "dir_abs (expire_handshake k b) = dir_abs b"
  "dir_abs (b\<lparr>bh_pending_sends := ps\<rparr>) = dir_abs b" "dir_abs (b\<lparr>bh_peer_names := ns\<rparr>) = dir_abs b"
  "dir_abs (b\<lparr>bh_observed_addrs := oa\<rparr>) = dir_abs b" "dir_abs (b\<lparr>bh_connected := cs\<rparr>) = dir_abs b"
  "dir_abs (b\<lparr>bh_queue := q\<rparr>) = dir_abs b" "dir_abs (b\<lparr>bh_handshakes := hs\<rparr>) = dir_abs b"
  by (simp_all add: dir_abs_def)

lemma dir_abs_map [simp]: "dir_abs (map_transport dv t b) = dir_apply (Learn dv t) (dir_abs b)"
  by (auto simp: dir_abs_def)

lemma dir_abs_set: "dir_abs (set_session dv t c s b)
    = (dir_abs b)\<lparr>dr_sessions := (dr_sessions (dir_abs b))(dv \<mapsto> (t, c))\<rparr>"
  by (auto simp: dir_abs_def)

text \<open>A session that only moves its counters keeps its place.\<close>

lemma dir_abs_reset:
  "hm_get (bh_sessions b) dv = Some (t, c, s) \<Longrightarrow> dir_abs (set_session dv t c s' b) = dir_abs b"
  by (auto simp: dir_abs_def)

lemma dir_abs_drop: "dir_abs (b\<lparr>bh_sessions := hm_remove dv (bh_sessions b)\<rparr>)
    = (dir_abs b)\<lparr>dr_sessions := (dr_sessions (dir_abs b))(dv := None)\<rparr>"
  by (auto simp: dir_abs_def)

lemma send_sealed_dir: "send_sealed seal p b = Some b' \<Longrightarrow> dir_abs b' = dir_abs b"
  by (auto simp: send_sealed_def dir_abs_reset split: option.splits)

lemma send_message_dir: "send_message E A p body b = Some (b', i) \<Longrightarrow> dir_abs b' = dir_abs b"
  by (auto simp: send_message_def Let_def dir_abs_reset split: option.splits sum.splits)

lemma flush_dir: "flush_pending_sends E A dv t c b = Some b' \<Longrightarrow> dir_abs b' = dir_abs b"
  by (auto simp: flush_pending_sends_def Let_def dir_abs_reset split: option.splits)

lemma on_established_dir:
  assumes "on_established E A t c res b = Some b'"
  shows "dir_abs b' = dir_apply (Open (hr_peer_id res) t c) (dir_abs b)"
proof -
  define b4 where "b4 = set_session (hr_peer_id res) t c (session_new E res)
    ((map_transport (hr_peer_id res) t (b\<lparr>bh_handshakes := hm_remove (t, c) (bh_handshakes b)\<rparr>))
      \<lparr>bh_peer_names := hm_insert (hr_peer_id res) (ph_user_name (hr_peer_hello res)) (bh_peer_names b)\<rparr>)"
  have "dir_abs b4 = dir_apply (Open (hr_peer_id res) t c) (dir_abs b)"
    by (simp add: b4_def dir_abs_set)
  moreover from assms obtain b5 where b5: "flush_pending_sends E A (hr_peer_id res) t c b4 = Some b5"
    by (auto simp: on_established_def b4_def Let_def split: option.splits)
  moreover have "dir_abs b' = dir_abs b5"
    using assms b5 by (auto simp: on_established_def b4_def Let_def send_observed_addr_def
        dest: send_sealed_dir split: option.splits)
  ultimately show ?thesis using flush_dir by metis
qed

lemma on_session_frame_dir:
  assumes "on_session_frame E A t c f b = Some b'"
  shows "dir_abs b' = dir_abs b \<or> dir_abs b' = dir_apply (Fail t) (dir_abs b)"
proof (cases "device_of t b")
  case None
  then show ?thesis using assms by (simp add: on_session_frame_def)
next
  case (Some dv)
  then have "dir_owner t (dir_abs b) = dv" by (simp add: dir_owner_def dir_abs_def device_of_def)
  then show ?thesis
    using assms Some
    by (auto simp: on_session_frame_def dir_abs_reset dir_abs_drop
        split: option.splits sum.splits inbound.splits)
qed

lemma on_connection_closed_dir:
  "dir_abs (on_connection_closed t c n b) = dir_apply (Close t c) (dir_abs b)"
proof -
  have "dir_owner t (dir_abs b) = peer_or_device t b"
    by (simp add: dir_owner_def dir_abs_def peer_or_device_def device_of_def)
  moreover have "dr_sessions (dir_abs b) p = map_option (\<lambda>(t, c, _). (t, c)) (hm_get (bh_sessions b) p)" for p
    by (simp add: dir_abs_def)
  ultimately show ?thesis
    by (auto simp: on_connection_closed_def Let_def dir_abs_def peer_or_device_def device_of_def
        split: option.splits)
qed

lemma fold_expire_dir: "dir_abs (fold expire_handshake ks b) = dir_abs b"
  by (induction ks arbitrary: b) simp_all

lemma bh_step_dir:
  assumes "bh_step E A op b = Some b'"
  shows "\<exists>l. may_change op l \<and> dir_abs b' = dir_apply l (dir_abs b)"
proof (cases op)
  case (OpSend p body)
  then show ?thesis using assms by (auto dest: send_message_dir)
next
  case (OpConnect dv t as)
  then show ?thesis using assms by (auto simp: connect_def)
next
  case (OpConnectUnknown as)
  then show ?thesis using assms by (auto simp: connect_unknown_def split: list.splits)
next
  case (OpHandler t c ev)
  show ?thesis
  proof (cases ev)
    case SubstreamReady
    then show ?thesis using assms OpHandler
      by (auto simp: on_handler_event_def Let_def split: if_splits prod.splits)
  next
    case (FrameReceived f)
    then have f: "bh_on_frame E A t c f b = Some b'" using assms OpHandler
      by (simp add: on_handler_event_def)
    show ?thesis
    proof (cases "is_session_frame f")
      case True
      then have "on_session_frame E A t c f b = Some b'" using f by (simp add: bh_on_frame_def)
      from on_session_frame_dir [OF this] show ?thesis
        using True OpHandler FrameReceived dir_apply.simps(5) by (metis may_change.simps(3))
    next
      case False
      then have "dir_abs b' = dir_abs b \<or> (\<exists>res. on_established E A t c res b = Some b')"
        using f by (auto simp: bh_on_frame_def split: option.splits sum.splits handshake_action.splits)
      then show ?thesis
        using False OpHandler FrameReceived on_established_dir dir_apply.simps(5)
        by (metis may_change.simps(3))
    qed
  next
    case StreamClosed
    then show ?thesis using assms OpHandler by (auto simp: on_handler_event_def)
  qed
next
  case (OpSwarm ev)
  then show ?thesis using assms by (cases ev) (auto simp: Let_def on_connection_closed_dir)
next
  case OpPoll
  then show ?thesis using assms fold_expire_dir [of "expired_handshakes (am_instant A) b" b]
    by (auto simp: bh_poll_def Let_def split: list.splits)
qed (use assms in \<open>auto simp: connect_probe_def send_observed_addr_def send_dial_back_req_def
      send_dial_back_res_def dest: send_sealed_dir\<close>)

interpretation session_directory: change_refinement "\<lambda>op b b'. \<exists>A. bh_step E A op b = Some b'"
  dir_abs dir_apply may_change
  for E
  by unfold_locales (use bh_step_dir in blast)

text \<open>C8. The behaviour implements the session directory: over any sequence of its operations, the
  table of sessions changes exactly by the abstract changes the operations are allowed to
  make.  Only a handshake frame opens a session, on the connection it came from, replacing an
  older session with the device; only a session frame from the device's transport fails it; closing
  a connection ends the device's session only when it runs over that connection.\<close>

theorem bh_refines_directory:
  assumes "run_ops (\<lambda>op b b'. \<exists>A. bh_step E A op b = Some b') ops b b'"
  shows "\<exists>ls. list_all2 may_change ops ls \<and> dir_abs b' = fold dir_apply ls (dir_abs b)"
  using session_directory.run_refines [OF assms] .

text \<open>A session outlives everything but its own connection, its own errors and its own
  replacement: over any sequence of operations in which its connection is not closed and no
  frame is delivered, a device keeps the session it has, over the same connection,
  whatever is sent, dialled, timed out, or closed besides.\<close>

theorem bh_session_survives:
  assumes run: "run_ops (\<lambda>op b b'. \<exists>A. bh_step E A op b = Some b') ops b b'"
    and "hm_get (bh_sessions b) dv = Some (t, c, s)"
    and "\<forall>op \<in> set ops. \<forall>n. op \<noteq> OpSwarm (ConnectionClosed t c n)"
    and "\<forall>op \<in> set ops. \<forall>t' c' f. op \<noteq> OpHandler t' c' (FrameReceived f)"
  shows "\<exists>s'. hm_get (bh_sessions b') dv = Some (t, c, s')"
proof -
  have "dr_sessions (dir_abs b) dv = Some (t, c)" using assms(2) by (simp add: dir_abs_def)
  then have "dr_sessions (dir_abs b') dv = Some (t, c)"
  proof (rule session_directory.run_keeps [OF run, where P = "\<lambda>D. dr_sessions D dv = Some (t, c)"])
    fix op l and D :: directory
    assume "op \<in> set ops" and l: "may_change op l" and D: "dr_sessions D dv = Some (t, c)"
    then have "l = Keep \<or> (\<exists>dv t. l = Learn dv t) \<or> (\<exists>t' c'. l = Close t' c' \<and> (t', c') \<noteq> (t, c))"
      using assms(3,4) by (cases "(op, l)" rule: may_change.cases) (auto split: if_splits)
    then show "dr_sessions (dir_apply l D) dv = Some (t, c)" using D by (auto simp: dir_owner_def)
  qed
  then show ?thesis by (auto simp: dir_abs_def)
qed

end
