(* ===== verification/Handshake_Run.thy ===== *)
theory Handshake_Run
  imports Handshake
begin

text \<open>
  Two honest parties running \<open>src/handshake.rs\<close> against each other over two FIFO channels, with
  deliveries interleaved in any order.  The locale \<open>lockstep_duplex\<close> is the contract of such a
  symmetric protocol (the n-th message of one side, fed to the n-th state of the other,
  gives its next state and its next message); its lemmas show progress, completion and a
  bound on the number of deliveries.  The interpretation discharges the contract for the
  handshake's own handlers.
\<close>

section \<open>Two parties, two channels\<close>

lemma upt_join: "i \<le> j \<Longrightarrow> j \<le> k \<Longrightarrow> [i ..< j] @ [j ..< k] = [i ..< k]"
  by (metis le_Suc_ex upt_add_eq_append)

text \<open>The two sides are \<open>True\<close> and \<open>False\<close>.  A side has the number of frames it received,
  its state, and the frames waiting for it.\<close>

record ('s, 'f) duplex =
  dx_count :: "bool \<Rightarrow> nat"
  dx_state :: "bool \<Rightarrow> 's"
  dx_inbox :: "bool \<Rightarrow> 'f list"

definition deliver ::
  "bool \<Rightarrow> 's \<Rightarrow> 'f list \<Rightarrow> 'f list \<Rightarrow> ('s, 'f) duplex \<Rightarrow> ('s, 'f) duplex" where
  "deliver p s' out rest c =
     c\<lparr>dx_count := (dx_count c)(p := Suc (dx_count c p)),
       dx_state := (dx_state c)(p := s'),
       dx_inbox := (dx_inbox c)(p := rest, (\<not> p) := dx_inbox c (\<not> p) @ out)\<rparr>"

inductive duplex_step ::
  "(bool \<Rightarrow> nat \<Rightarrow> 's \<Rightarrow> 'f \<Rightarrow> ('s \<times> 'f list) option) \<Rightarrow> ('s, 'f) duplex \<Rightarrow> ('s, 'f) duplex \<Rightarrow> bool"
  for feed where
  deliver_frame: "dx_inbox c p = f # rest \<Longrightarrow>
    feed p (dx_count c p) (dx_state c p) f = Some (s', out) \<Longrightarrow>
    duplex_step feed c (deliver p s' out rest c)"

definition duplex_init :: "(bool \<Rightarrow> 's) \<Rightarrow> (bool \<Rightarrow> 'f) \<Rightarrow> ('s, 'f) duplex \<Rightarrow> bool" where
  "duplex_init st0 first c \<longleftrightarrow>
     c = \<lparr>dx_count = (\<lambda>p. 0), dx_state = st0, dx_inbox = (\<lambda>p. [first (\<not> p)])\<rparr>"

locale lockstep_duplex =
  fixes feed :: "bool \<Rightarrow> nat \<Rightarrow> 's \<Rightarrow> 'f \<Rightarrow> ('s \<times> 'f list) option"
    and ideal :: "bool \<Rightarrow> nat \<Rightarrow> 's" and msg :: "bool \<Rightarrow> nat \<Rightarrow> 'f" and rounds :: nat
  assumes rounds_pos: "0 < rounds"
    and feed_ideal: "n < rounds \<Longrightarrow> feed p n (ideal p n) (msg (\<not> p) n) =
      Some (ideal p (Suc n), if Suc n < rounds then [msg p (Suc n)] else [])"
begin

definition sent :: "nat \<Rightarrow> nat" where
  "sent n = min rounds (Suc n)"

definition lockstep_inv :: "('s, 'f) duplex \<Rightarrow> bool" where
  "lockstep_inv c \<longleftrightarrow>
     (\<forall>p. dx_count c p \<le> sent (dx_count c (\<not> p)) \<and> dx_state c p = ideal p (dx_count c p) \<and>
          dx_inbox c p = map (msg (\<not> p)) [dx_count c p ..< sent (dx_count c (\<not> p))])"

lemma inbox_head:
  assumes "lockstep_inv c" and "dx_inbox c p = f # rest"
  shows "dx_count c p < rounds" "f = msg (\<not> p) (dx_count c p)"
    "rest = map (msg (\<not> p)) [Suc (dx_count c p) ..< sent (dx_count c (\<not> p))]"
    "dx_count c p < sent (dx_count c (\<not> p))"
proof -
  let ?n = "dx_count c p" and ?m = "sent (dx_count c (\<not> p))"
  have box: "map (msg (\<not> p)) [?n ..< ?m] = f # rest" using assms by (simp add: lockstep_inv_def)
  then show lt: "?n < ?m" by (cases "?n < ?m") auto
  then show "?n < rounds" by (simp add: sent_def)
  from box lt show "f = msg (\<not> p) ?n" "rest = map (msg (\<not> p)) [Suc ?n ..< ?m]"
    by (simp_all add: upt_conv_Cons)
qed

lemma lockstep_init: "duplex_init (\<lambda>p. ideal p 0) (\<lambda>p. msg p 0) c \<Longrightarrow> lockstep_inv c"
  using rounds_pos by (auto simp: duplex_init_def lockstep_inv_def sent_def min_def le_Suc_eq)

lemma lockstep_step:
  assumes inv: "lockstep_inv c" and step: "duplex_step feed c c'"
  shows "lockstep_inv c' \<and> dx_count c' True + dx_count c' False
         = Suc (dx_count c True + dx_count c False)"
  using step
proof (cases rule: duplex_step.cases)
  case (deliver_frame p f rest s' out)
  note deliver = deliver_frame
  note h = inbox_head [OF inv deliver(2)]
  let ?n = "dx_count c p"
  have "dx_state c p = ideal p ?n" using inv by (simp add: lockstep_inv_def)
  then have res: "s' = ideal p (Suc ?n)" "out = (if Suc ?n < rounds then [msg p (Suc ?n)] else [])"
    using deliver(3) feed_ideal [OF h(1), of p] h(2) by simp_all
  have "map (msg p) [sent ?n ..< sent (Suc ?n)] = out"
    unfolding res(2) sent_def by (cases "Suc ?n < rounds") (auto simp: min_def le_Suc_eq)
  note out = res(1) this [symmetric]
  have other: "dx_count c (\<not> p) \<le> sent ?n" "sent ?n \<le> sent (Suc ?n)"
    "dx_inbox c (\<not> p) = map (msg p) [dx_count c (\<not> p) ..< sent ?n]"
    using inv by (auto simp: lockstep_inv_def sent_def dest: spec [of _ "\<not> p"])
  then have "dx_inbox c (\<not> p) @ out = map (msg p) [dx_count c (\<not> p) ..< sent (Suc ?n)]"
    by (simp add: out upt_join flip: map_append)
  then have "lockstep_inv c'"
    unfolding deliver(1) lockstep_inv_def deliver_def
    using inv h other out by (auto simp: lockstep_inv_def)
  then show ?thesis by (cases p) (simp_all add: deliver(1) deliver_def)
qed

lemma lockstep_reachable:
  "reachable (duplex_init (\<lambda>p. ideal p 0) (\<lambda>p. msg p 0)) (duplex_step feed) c \<Longrightarrow> lockstep_inv c"
  by (induction rule: reachable.induct) (auto dest: lockstep_init lockstep_step)

lemma lockstep_progress:
  assumes "lockstep_inv c" and "dx_inbox c p = f # rest"
  shows "\<exists>s' out. feed p (dx_count c p) (dx_state c p) f = Some (s', out)"
  using inbox_head [OF assms] feed_ideal [of "dx_count c p" p] assms(1)
  by (simp add: lockstep_inv_def)

lemma lockstep_done:
  assumes "lockstep_inv c" and "dx_inbox c True = []" "dx_inbox c False = []"
  shows "dx_state c p = ideal p rounds"
proof -
  have "sent (dx_count c False) \<le> dx_count c True" "sent (dx_count c True) \<le> dx_count c False"
    using assms by (auto simp: lockstep_inv_def)
  moreover have "dx_count c True \<le> rounds" "dx_count c False \<le> rounds"
    using assms(1) by (auto simp: lockstep_inv_def sent_def)
  ultimately have "dx_count c True = rounds" "dx_count c False = rounds"
    by (auto simp: sent_def)
  then show ?thesis using assms(1) by (cases p) (auto simp: lockstep_inv_def)
qed

lemma lockstep_bound: "lockstep_inv c \<Longrightarrow> dx_count c True + dx_count c False \<le> 2 * rounds"
proof -
  assume "lockstep_inv c"
  then have "dx_count c True \<le> rounds" "dx_count c False \<le> rounds"
    by (auto simp: lockstep_inv_def sent_def)
  then show ?thesis by simp
qed

lemma lockstep_can_finish:
  assumes "reachable (duplex_init (\<lambda>p. ideal p 0) (\<lambda>p. msg p 0)) (duplex_step feed) c"
  shows "\<exists>c'. reachable (duplex_init (\<lambda>p. ideal p 0) (\<lambda>p. msg p 0)) (duplex_step feed) c' \<and>
    dx_inbox c' True = [] \<and> dx_inbox c' False = []"
  using assms
proof (induction "2 * rounds - (dx_count c True + dx_count c False)" arbitrary: c
    rule: less_induct)
  case less
  have inv: "lockstep_inv c" using less.prems by (rule lockstep_reachable)
  show ?case
  proof (cases "dx_inbox c True = [] \<and> dx_inbox c False = []")
    case True
    then show ?thesis using less.prems by blast
  next
    case False
    then obtain p f rest where "dx_inbox c p = f # rest" by (metis neq_Nil_conv)
    then obtain c' where step: "duplex_step feed c c'"
      using lockstep_progress [OF inv] by (metis deliver_frame)
    note s = lockstep_step [OF inv step]
    have "2 * rounds - (dx_count c' True + dx_count c' False)
        < 2 * rounds - (dx_count c True + dx_count c False)"
      using s lockstep_bound [of c'] by simp
    then show ?thesis using less.hyps reach_step [OF less.prems step] by blast
  qed
qed

end

section \<open>The honest run of the handshake\<close>

text \<open>The parameters of a run: the two devices, whom each side expects, when each side starts,
  and the entropy each side draws when it handles its n-th frame.\<close>

record run =
  rn_dev :: "bool \<Rightarrow> device_identity"
  rn_exp :: "bool \<Rightarrow> peer_id option"
  rn_now :: "bool \<Rightarrow> instant"
  rn_ent :: "bool \<Rightarrow> nat \<Rightarrow> entropy"

definition hs_feed ::
  "crates \<Rightarrow> run \<Rightarrow> bool \<Rightarrow> nat \<Rightarrow> handshake \<Rightarrow> frame \<Rightarrow> (handshake \<times> frame list) option" where
  "hs_feed E R p n s f =
     (case on_frame E (rn_dev R p) f (rn_ent R p n) s of
        Some (s', Inr (Frames out)) \<Rightarrow> Some (s', out)
      | Some (s', Inr (Established _)) \<Rightarrow> Some (s', [])
      | _ \<Rightarrow> None)"

definition rn_id :: "run \<Rightarrow> bool \<Rightarrow> peer_id" where
  "rn_id R p = di_peer_id (rn_dev R p)"

definition rn_hello :: "run \<Rightarrow> bool \<Rightarrow> peer_hello" where
  "rn_hello R p = \<lparr>ph_pubkey = di_verifying_key (rn_dev R p),
     ph_device_uuid = di_device_uuid (rn_dev R p),
     ph_user_name = ui_user_name (di_user (rn_dev R p))\<rparr>"

definition rn_offer :: "crates \<Rightarrow> run \<Rightarrow> bool \<Rightarrow> bytes \<times> decaps_key" where
  "rn_offer E R p = kem_generate E (rn_ent R p 0)"

definition rn_response :: "crates \<Rightarrow> run \<Rightarrow> bool \<Rightarrow> bytes \<times> bytes" where
  "rn_response E R p = projr (kem_encapsulate E (fst (rn_offer E R (\<not> p))) (rn_ent R p 1))"

definition rn_payloads :: "crates \<Rightarrow> run \<Rightarrow> bool \<Rightarrow> (u8 \<times> bytes) list" where
  "rn_payloads E R p = [(1, encode_hello E (rn_dev R p)), (2, fst (rn_offer E R p)),
     (3, fst (rn_response E R p))]"

definition rn_transcript :: "crates \<Rightarrow> run \<Rightarrow> bool \<Rightarrow> bytes" where
  "rn_transcript E R p =
     build_transcript E (rn_id R p) (rn_id R (\<not> p)) (rn_payloads E R p) (rn_payloads E R (\<not> p))"

definition rn_keys :: "crates \<Rightarrow> run \<Rightarrow> bool \<Rightarrow> session_keys" where
  "rn_keys E R p = the (derive_session_keys E
     (combine_shared_secrets (snd (rn_response E R p)) (snd (rn_response E R (\<not> p)))
        (pid_less E (rn_id R p) (rn_id R (\<not> p)))) (rn_transcript E R p))"

definition rn_sig :: "crates \<Rightarrow> run \<Rightarrow> bool \<Rightarrow> bytes" where
  "rn_sig E R p =
     the (di_sign E (rn_dev R p) (AUTH_LABEL @ rn_transcript E R p) (rn_ent R p 2))"

definition rn_result :: "crates \<Rightarrow> run \<Rightarrow> bool \<Rightarrow> handshake_result" where
  "rn_result E R p =
     \<lparr>hr_my_id = rn_id R p, hr_peer_id = rn_id R (\<not> p), hr_peer_hello = rn_hello R (\<not> p),
      hr_keys = rn_keys E R p,
      hr_send_key = fst (select_keys E (rn_keys E R p) (rn_id R p) (rn_id R (\<not> p))),
      hr_recv_key = snd (select_keys E (rn_keys E R p) (rn_id R p) (rn_id R (\<not> p)))\<rparr>"

text \<open>The frames a side sends, in order, and its state after n frames.\<close>

definition rn_msg :: "crates \<Rightarrow> run \<Rightarrow> bool \<Rightarrow> nat \<Rightarrow> frame" where
  "rn_msg E R p n =
     [frame_handshake Hello (encode_hello E (rn_dev R p)),
      frame_handshake KemOffer (fst (rn_offer E R p)),
      frame_handshake KemResponse (fst (rn_response E R p)),
      frame_handshake Auth (rn_sig E R p),
      frame_handshake Ready (sk_session_id (rn_keys E R p))] ! n"

definition rn_updates :: "crates \<Rightarrow> run \<Rightarrow> bool \<Rightarrow> (handshake \<Rightarrow> handshake) list" where
  "rn_updates E R p =
     [hs_peer_id_update (\<lambda>_. Some (rn_id R (\<not> p))) \<circ>
      hs_peer_hello_update (\<lambda>_. Some (rn_hello R (\<not> p))) \<circ>
      hs_peer_hello_payload_update (\<lambda>_. Some (encode_hello E (rn_dev R (\<not> p)))) \<circ>
      hs_kem_dk_update (\<lambda>_. Some (snd (rn_offer E R p))) \<circ>
      hs_my_offer_payload_update (\<lambda>_. Some (fst (rn_offer E R p))),
      hs_peer_offer_payload_update (\<lambda>_. Some (fst (rn_offer E R (\<not> p)))) \<circ>
      hs_ss_to_peer_update (\<lambda>_. Some (snd (rn_response E R p))) \<circ>
      hs_my_response_payload_update (\<lambda>_. Some (fst (rn_response E R p))),
      hs_peer_response_payload_update (\<lambda>_. Some (fst (rn_response E R (\<not> p)))) \<circ>
      hs_ss_from_peer_update (\<lambda>_. Some (snd (rn_response E R (\<not> p)))) \<circ>
      hs_transcript_update (\<lambda>_. Some (rn_transcript E R p)) \<circ>
      hs_keys_update (\<lambda>_. Some (rn_keys E R p)) \<circ> hs_step_update (\<lambda>_. WaitAuth),
      hs_peer_auth_ok_update (\<lambda>_. True) \<circ> hs_step_update (\<lambda>_. WaitReady),
      hs_peer_ready_update (\<lambda>_. Some (sk_session_id (rn_keys E R p))) \<circ>
      hs_step_update (\<lambda>_. StepEstablished) \<circ>
      hs_result_update (\<lambda>_. Some (rn_result E R p))]"

definition rn_state :: "crates \<Rightarrow> run \<Rightarrow> bool \<Rightarrow> nat \<Rightarrow> handshake" where
  "rn_state E R p n =
     fold (\<lambda>f s. f s) (take n (rn_updates E R p))
       (fst (handshake_new E (rn_dev R p) (rn_exp R p) (rn_now R p)))"

definition wf_run :: "crates \<Rightarrow> run \<Rightarrow> bool" where
  "wf_run E R \<longleftrightarrow>
     (\<forall>p. wf_identity E (rn_dev R p) \<and> length (ui_user_name (di_user (rn_dev R p))) \<le> MAX_USER_NAME \<and>
          (rn_exp R p = None \<or> rn_exp R p = Some (rn_id R (\<not> p)))) \<and>
     rn_id R True \<noteq> rn_id R False"

definition crates_laws :: "crates \<Rightarrow> bool" where
  "crates_laws E \<longleftrightarrow> hash_sized E \<and> kem_correct E \<and> dsa_correct E \<and> kdf_total E \<and> peer_ids_ok E"

lemma wf_run_distinct: "wf_run E R \<Longrightarrow> rn_id R p \<noteq> rn_id R (\<not> p)"
  by (cases p) (auto simp: wf_run_def)

lemma rn_response_ok:
  assumes "kem_correct E"
  shows "kem_encapsulate E (fst (rn_offer E R (\<not> p))) (rn_ent R p 1) = Inr (rn_response E R p)"
    and "kem_decapsulate E (snd (rn_offer E R (\<not> p))) (fst (rn_response E R p))
         = Inr (snd (rn_response E R p))"
proof -
  obtain ek dk where o: "rn_offer E R (\<not> p) = (ek, dk)" by (cases "rn_offer E R (\<not> p)")
  then have "kem_generate E (rn_ent R (\<not> p) 0) = (ek, dk)" by (simp add: rn_offer_def)
  from kem_agreement [OF assms this, of "rn_ent R p 1"] obtain ct ss where
    "kem_encapsulate E ek (rn_ent R p 1) = Inr (ct, ss)" "kem_decapsulate E dk ct = Inr ss" .
  then show "kem_encapsulate E (fst (rn_offer E R (\<not> p))) (rn_ent R p 1) = Inr (rn_response E R p)"
    "kem_decapsulate E (snd (rn_offer E R (\<not> p))) (fst (rn_response E R p))
     = Inr (snd (rn_response E R p))"
    by (simp_all add: o rn_response_def)
qed

lemma rn_transcript_same:
  "peer_ids_ok E \<Longrightarrow> wf_run E R \<Longrightarrow> rn_transcript E R (\<not> p) = rn_transcript E R p"
  using build_transcript_swap [of E "rn_id R p" "rn_id R (\<not> p)" "rn_payloads E R p"
      "rn_payloads E R (\<not> p)"] wf_run_distinct [of E R p]
  by (simp add: rn_transcript_def rn_payloads_def)

lemma rn_keys_same:
  assumes "peer_ids_ok E" "wf_run E R"
  shows "rn_keys E R (\<not> p) = rn_keys E R p"
  using pid_less_cases [OF assms(1) wf_run_distinct [OF assms(2)], of p]
    rn_transcript_same [OF assms, of p]
  by (simp add: rn_keys_def combine_shared_secrets_def)

lemma rn_sig_ok:
  assumes "dsa_correct E" "peer_ids_ok E" "wf_run E R"
  shows "di_sign E (rn_dev R p) (AUTH_LABEL @ rn_transcript E R p) (rn_ent R p 2) = Some (rn_sig E R p)"
    and "mldsa_verify E (di_verifying_key (rn_dev R p)) (AUTH_LABEL @ rn_transcript E R p) (rn_sig E R p)"
proof -
  have "wf_identity E (rn_dev R p)" using assms(3) by (simp add: wf_run_def)
  from wf_identity_sign [OF assms(1) this] obtain sig where
    "di_sign E (rn_dev R p) (AUTH_LABEL @ rn_transcript E R p) (rn_ent R p 2) = Some sig"
    "mldsa_verify E (di_verifying_key (rn_dev R p)) (AUTH_LABEL @ rn_transcript E R p) sig"
    by metis
  then show "di_sign E (rn_dev R p) (AUTH_LABEL @ rn_transcript E R p) (rn_ent R p 2)
      = Some (rn_sig E R p)"
    "mldsa_verify E (di_verifying_key (rn_dev R p)) (AUTH_LABEL @ rn_transcript E R p) (rn_sig E R p)"
    by (simp_all add: rn_sig_def)
qed

lemma rn_keys_ok:
  assumes "kdf_total E"
  shows "derive_session_keys E
     (combine_shared_secrets (snd (rn_response E R p)) (snd (rn_response E R (\<not> p)))
        (pid_less E (rn_id R p) (rn_id R (\<not> p)))) (rn_transcript E R p) = Some (rn_keys E R p)"
    and "length (sk_session_id (rn_keys E R p)) = SESSION_ID_LEN"
proof -
  let ?i = "combine_shared_secrets (snd (rn_response E R p)) (snd (rn_response E R (\<not> p)))
        (pid_less E (rn_id R p) (rn_id R (\<not> p)))"
  obtain k where "derive_session_keys E ?i (rn_transcript E R p) = Some k"
    "length (sk_session_id k) = SESSION_ID_LEN" by (rule derive_total [OF assms])
  then show "derive_session_keys E ?i (rn_transcript E R p) = Some (rn_keys E R p)"
    "length (sk_session_id (rn_keys E R p)) = SESSION_ID_LEN" by (simp_all add: rn_keys_def)
qed

lemmas rn_state_simps = rn_state_def rn_updates_def handshake_new_def Let_def
  frame_handshake_def hs_feed_def on_frame_def

lemma rn_feed_hello:
  assumes "crates_laws E" "wf_run E R"
  shows "hs_feed E R p 0 (rn_state E R p 0) (rn_msg E R (\<not> p) 0)
    = Some (rn_state E R p 1, [rn_msg E R p 1])"
proof -
  have wf: "wf_identity E (rn_dev R (\<not> p))"
    "length (ui_user_name (di_user (rn_dev R (\<not> p)))) \<le> MAX_USER_NAME"
    "rn_exp R p = None \<or> rn_exp R p = Some (rn_id R (\<not> p))"
    using assms(2) by (auto simp: wf_run_def)
  have "decode_hello E (encode_hello E (rn_dev R (\<not> p))) = Some (rn_hello R (\<not> p))"
    using hello_decodes [OF _ wf(1)] assms(1) wf(2) by (simp add: crates_laws_def rn_hello_def)
  moreover have "peer_id_of E (ph_pubkey (rn_hello R (\<not> p))) = Some (rn_id R (\<not> p))"
    using wf_identity_peer_id [OF wf(1)] by (simp add: rn_hello_def rn_id_def)
  moreover have "kem_generate E (rn_ent R p 0) = rn_offer E R p" by (simp add: rn_offer_def)
  ultimately show ?thesis
    using wf(3) by (cases "rn_offer E R p") (auto simp: rn_state_simps rn_msg_def on_hello_def)
qed

lemma rn_feed_offer:
  assumes "crates_laws E" "wf_run E R"
  shows "hs_feed E R p 1 (rn_state E R p 1) (rn_msg E R (\<not> p) 1)
    = Some (rn_state E R p 2, [rn_msg E R p 2])"
proof -
  have "kem_encapsulate E (fst (rn_offer E R (\<not> p))) (rn_ent R p 1) = Inr (rn_response E R p)"
    by (rule rn_response_ok) (use assms(1) in \<open>simp add: crates_laws_def\<close>)
  then show ?thesis
    by (cases "rn_response E R p")
      (simp add: rn_state_simps rn_msg_def on_kem_offer_def numeral_2_eq_2)
qed

lemma rn_feed_response:
  assumes "crates_laws E" "wf_run E R"
  shows "hs_feed E R p 2 (rn_state E R p 2) (rn_msg E R (\<not> p) 2)
    = Some (rn_state E R p 3, [rn_msg E R p 3])"
proof -
  have laws: "kem_correct E" "kdf_total E" "dsa_correct E" "peer_ids_ok E"
    using assms(1) by (simp_all add: crates_laws_def)
  have "kem_decapsulate E (snd (rn_offer E R p)) (fst (rn_response E R (\<not> p)))
      = Inr (snd (rn_response E R (\<not> p)))"
    using rn_response_ok(2) [OF laws(1), of R "\<not> p"] by simp
  moreover note rn_keys_ok(1) [OF laws(2), of R p] rn_sig_ok(1) [OF laws(3,4) assms(2), of p]
  ultimately show ?thesis
    by (simp add: rn_state_simps rn_msg_def on_kem_response_def finish_kem_def rn_transcript_def
        rn_payloads_def rn_id_def di_sign_def numeral_2_eq_2 numeral_3_eq_3)
qed

lemma rn_feed_auth:
  assumes "crates_laws E" "wf_run E R"
  shows "hs_feed E R p 3 (rn_state E R p 3) (rn_msg E R (\<not> p) 3)
    = Some (rn_state E R p 4, [rn_msg E R p 4])"
proof -
  have laws: "dsa_correct E" "peer_ids_ok E" using assms(1) by (simp_all add: crates_laws_def)
  have "mldsa_verify E (ph_pubkey (rn_hello R (\<not> p))) (AUTH_LABEL @ rn_transcript E R p)
      (rn_sig E R (\<not> p))"
    using rn_sig_ok(2) [OF laws assms(2), of "\<not> p"] rn_transcript_same [OF laws(2) assms(2), of p]
    by (simp add: rn_hello_def)
  then show ?thesis
    by (simp add: rn_state_simps rn_msg_def on_auth_def eval_nat_numeral)
qed

lemma rn_feed_ready:
  assumes "crates_laws E" "wf_run E R"
  shows "hs_feed E R p 4 (rn_state E R p 4) (rn_msg E R (\<not> p) 4) = Some (rn_state E R p 5, [])"
proof -
  have laws: "kdf_total E" "peer_ids_ok E" using assms(1) by (simp_all add: crates_laws_def)
  have "rn_keys E R (\<not> p) = rn_keys E R p" by (rule rn_keys_same [OF laws(2) assms(2)])
  then show ?thesis
    using rn_keys_ok(2) [OF laws(1), of R p]
    by (simp add: rn_state_simps rn_msg_def on_ready_def rn_result_def rn_id_def eval_nat_numeral
        split: prod.splits)
qed

lemma rn_feed:
  assumes "crates_laws E" "wf_run E R" and "n < 5"
  shows "hs_feed E R p n (rn_state E R p n) (rn_msg E R (\<not> p) n) =
    Some (rn_state E R p (Suc n), if Suc n < 5 then [rn_msg E R p (Suc n)] else [])"
proof -
  have "n = 0 \<or> n = 1 \<or> n = 2 \<or> n = 3 \<or> n = 4" using assms(3) by auto
  then show ?thesis
    using rn_feed_hello [OF assms(1,2), of p] rn_feed_offer [OF assms(1,2), of p]
      rn_feed_response [OF assms(1,2), of p] rn_feed_auth [OF assms(1,2), of p]
      rn_feed_ready [OF assms(1,2), of p]
    by (elim disjE) (simp_all add: eval_nat_numeral)
qed

section \<open>The sample run\<close>

definition sample_run :: run where
  "sample_run = \<lparr>rn_dev = (\<lambda>p. sample_device (if p then 1 else 2)), rn_exp = (\<lambda>p. None),
     rn_now = (\<lambda>p. 0), rn_ent = (\<lambda>p n. [])\<rparr>"

lemma ref_laws: "crates_laws ref_crates"
  by (simp add: crates_laws_def ref_crates_ok)

lemma wf_sample_run: "wf_run ref_crates sample_run"
  by (simp add: wf_run_def sample_run_def rn_id_def sample_device_props sample_device_peer_id
      MAX_USER_NAME_def)

section \<open>Any two honest parties\<close>

text \<open>The pairs of crates and runs that satisfy the hypotheses, as a type, so that the contract
  is discharged once for all of them.\<close>

typedef honest_run = "{(E, R). crates_laws E \<and> wf_run E R}"
  using ref_laws wf_sample_run by blast

abbreviation hr_crates :: "honest_run \<Rightarrow> crates" where
  "hr_crates x \<equiv> fst (Rep_honest_run x)"

abbreviation hr_run :: "honest_run \<Rightarrow> run" where
  "hr_run x \<equiv> snd (Rep_honest_run x)"

lemma honest_runE:
  assumes "crates_laws E" "wf_run E R"
  obtains x where "hr_crates x = E" "hr_run x = R"
  using assms Abs_honest_run_inverse [of "(E, R)"] by (metis (mono_tags, lifting) case_prodI
      fst_conv mem_Collect_eq snd_conv)

interpretation hs_run: lockstep_duplex "hs_feed (hr_crates x) (hr_run x)"
  "rn_state (hr_crates x) (hr_run x)" "rn_msg (hr_crates x) (hr_run x)" 5
  for x
proof
  fix n p
  have "crates_laws (hr_crates x)" "wf_run (hr_crates x) (hr_run x)"
    using Rep_honest_run [of x] by auto
  then show "n < 5 \<Longrightarrow> hs_feed (hr_crates x) (hr_run x) p n (rn_state (hr_crates x) (hr_run x) p n)
      (rn_msg (hr_crates x) (hr_run x) (\<not> p) n)
    = Some (rn_state (hr_crates x) (hr_run x) p (Suc n),
        if Suc n < 5 then [rn_msg (hr_crates x) (hr_run x) p (Suc n)] else [])"
    by (rule rn_feed)
qed simp

text \<open>The start of a run: both sides created their handshake and sent the Hello it returned.\<close>

definition run_init :: "crates \<Rightarrow> run \<Rightarrow> (handshake, frame) duplex \<Rightarrow> bool" where
  "run_init E R = duplex_init
     (\<lambda>p. fst (handshake_new E (rn_dev R p) (rn_exp R p) (rn_now R p)))
     (\<lambda>p. snd (handshake_new E (rn_dev R p) (rn_exp R p) (rn_now R p)))"

lemma run_init_ideal:
  "run_init E R = duplex_init (\<lambda>p. rn_state E R p 0) (\<lambda>p. rn_msg E R p 0)"
  by (simp add: run_init_def rn_state_def rn_msg_def handshake_new_def Let_def)

lemma rn_state_final: "hs_result (rn_state E R p 5) = Some (rn_result E R p)"
  by (simp add: rn_state_def rn_updates_def eval_nat_numeral)

text \<open>C2. Two honest devices with different Peer IDs, each expecting the other or nobody in
  particular, always complete the handshake: however deliveries interleave, no delivered frame
  is ever refused and no handler panics; at most ten frames are delivered; and when no frame is
  in flight both sides are established, know each other's Peer ID, hold the same session keys,
  and each side's send key is the other side's receive key.\<close>

theorem handshake_run_completes:
  assumes "crates_laws E" and "wf_run E R"
    and reach: "reachable (run_init E R) (duplex_step (hs_feed E R)) c"
  shows "(\<forall>p f rest. dx_inbox c p = f # rest \<longrightarrow>
            (\<exists>s' out. hs_feed E R p (dx_count c p) (dx_state c p) f = Some (s', out))) \<and>
    dx_count c True + dx_count c False \<le> 10 \<and>
    (dx_inbox c True = [] \<and> dx_inbox c False = [] \<longrightarrow>
       (\<exists>a b. hs_result (dx_state c True) = Some a \<and> hs_result (dx_state c False) = Some b \<and>
          hr_peer_id a = rn_id R False \<and> hr_peer_id b = rn_id R True \<and> hr_keys a = hr_keys b \<and>
          hr_send_key a = hr_recv_key b \<and> hr_send_key b = hr_recv_key a))"
proof -
  obtain x where x: "hr_crates x = E" "hr_run x = R" by (rule honest_runE [OF assms(1,2)])
  have inv: "hs_run.lockstep_inv x c"
    using hs_run.lockstep_reachable [of x c] reach by (simp add: x run_init_ideal)
  have keys: "rn_keys E R False = rn_keys E R True"
    using rn_keys_same [of E R True] assms(1,2) by (simp add: crates_laws_def)
  have sel: "select_keys E k (rn_id R False) (rn_id R True)
      = (snd (select_keys E k (rn_id R True) (rn_id R False)),
         fst (select_keys E k (rn_id R True) (rn_id R False)))" for k
    using select_keys_swap [of E "rn_id R True" "rn_id R False"] assms(1,2)
    by (simp add: crates_laws_def wf_run_def)
  have "\<forall>p f rest. dx_inbox c p = f # rest \<longrightarrow>
      (\<exists>s' out. hs_feed E R p (dx_count c p) (dx_state c p) f = Some (s', out))"
    using hs_run.lockstep_progress [OF inv] by (simp add: x)
  moreover have "dx_count c True + dx_count c False \<le> 10"
    using hs_run.lockstep_bound [OF inv] by simp
  moreover have "hs_result (dx_state c p) = Some (rn_result E R p)"
    if "dx_inbox c True = []" "dx_inbox c False = []" for p
    using hs_run.lockstep_done [OF inv that, of p] by (simp add: x rn_state_final)
  ultimately show ?thesis by (auto simp: rn_result_def keys sel)
qed

theorem handshake_run_completes_witness:
  "\<exists>c a b. reachable (run_init ref_crates sample_run) (duplex_step (hs_feed ref_crates sample_run)) c \<and>
     hs_result (dx_state c True) = Some a \<and> hs_result (dx_state c False) = Some b \<and>
     hr_send_key a = hr_recv_key b \<and> hr_send_key b = hr_recv_key a"
proof -
  let ?E = ref_crates and ?R = sample_run
  obtain x where x: "hr_crates x = ?E" "hr_run x = ?R" by (rule honest_runE [OF ref_laws wf_sample_run])
  have "reachable (run_init ?E ?R) (duplex_step (hs_feed ?E ?R))
      \<lparr>dx_count = (\<lambda>p. 0), dx_state = (\<lambda>p. rn_state ?E ?R p 0),
       dx_inbox = (\<lambda>p. [rn_msg ?E ?R (\<not> p) 0])\<rparr>"
    by (rule reach_init) (simp add: run_init_ideal duplex_init_def)
  then obtain c where "reachable (run_init ?E ?R) (duplex_step (hs_feed ?E ?R)) c"
    "dx_inbox c True = []" "dx_inbox c False = []"
    using hs_run.lockstep_can_finish [of x] by (auto simp: x run_init_ideal)
  then show ?thesis using handshake_run_completes [OF ref_laws wf_sample_run] by blast
qed

section \<open>One side of the honest run, as a history\<close>

lemma rn_on_frame:
  assumes "crates_laws E" "wf_run E R" "n < 5"
  shows "\<exists>a. on_frame E (rn_dev R p) (rn_msg E R (\<not> p) n) (rn_ent R p n) (rn_state E R p n)
             = Some (rn_state E R p (Suc n), Inr a)"
  using rn_feed [OF assms, of p]
  by (auto simp: hs_feed_def split: option.splits sum.splits handshake_action.splits)

lemma rn_reachable:
  assumes "crates_laws E" "wf_run E R" "n \<le> 5"
  shows "reachable (hs_init E (rn_dev R p) (rn_exp R p)) (hs_next E (rn_dev R p))
           (map (rn_msg E R (\<not> p)) [0 ..< n], rn_state E R p n)"
  using assms(3)
proof (induction n)
  case 0
  show ?case by (rule reach_init) (auto simp: hs_init_def rn_state_def)
next
  case (Suc n)
  then have "reachable (hs_init E (rn_dev R p) (rn_exp R p)) (hs_next E (rn_dev R p))
      (map (rn_msg E R (\<not> p)) [0 ..< n], rn_state E R p n)" by simp
  then show ?case
    by (rule reach_step) (use rn_on_frame [OF assms(1,2), of n p] Suc.prems in
      \<open>auto simp: hs_next_def\<close>)
qed

lemma rn_established:
  assumes "crates_laws E" "wf_run E R"
  shows "on_frame E (rn_dev R p) (rn_msg E R (\<not> p) 4) (rn_ent R p 4) (rn_state E R p 4)
         = Some (rn_state E R p 5, Inr (Established (rn_result E R p)))"
proof -
  obtain a where a: "on_frame E (rn_dev R p) (rn_msg E R (\<not> p) 4) (rn_ent R p 4) (rn_state E R p 4)
      = Some (rn_state E R p 5, Inr a)" using rn_on_frame [OF assms, of 4 p] by auto
  then have "on_ready E (rn_msg E R (\<not> p) 4) (rn_state E R p 4) = Some (rn_state E R p 5, Inr a)"
    by (simp add: on_frame_def rn_msg_def frame_handshake_def eval_nat_numeral)
  then have "a = Established (the (hs_result (rn_state E R p 5)))"
    by (cases rule: on_ready_cases) (simp_all only: sum.inject sum.simps)
  then show ?thesis using a by (simp add: rn_state_final)
qed

theorem established_authenticated_witness:
  "\<exists>fs s res. on_frame ref_crates (sample_device 1) (rn_msg ref_crates sample_run False 4) [] s
      = Some (rn_state ref_crates sample_run True 5, Inr (Established res)) \<and>
    (\<exists>t sig. hs_got fs Auth sig \<and>
       mldsa_verify ref_crates (ph_pubkey (hr_peer_hello res)) (AUTH_LABEL @ t) sig \<and>
       derive_session_keys ref_crates (hs_ikm ref_crates s) t = Some (hr_keys res))"
proof -
  let ?E = ref_crates and ?R = sample_run
  have dev: "rn_dev ?R True = sample_device 1" "rn_ent ?R True 4 = []"
    by (simp_all add: sample_run_def)
  note r = rn_reachable [OF ref_laws wf_sample_run, of 4 True]
  note e = rn_established [OF ref_laws wf_sample_run, of True]
  show ?thesis
    using established_authenticated [OF r, of "rn_msg ?E ?R False 4"] e unfolding dev by fastforce
qed

theorem handshake_never_panics_witness:
  "\<exists>s' res. on_frame ref_crates (sample_device 1) (frame_handshake Auth [1, 2, 3]) []
     (rn_state ref_crates sample_run True 3) = Some (s', res)"
proof -
  have dev: "rn_dev sample_run True = sample_device 1" by (simp add: sample_run_def)
  note r = rn_reachable [OF ref_laws wf_sample_run, of 3 True, unfolded dev]
  show ?thesis
    using handshake_never_panics [OF ref_hash_sized ref_peer_ids_ok ref_kdf_total ref_dsa_correct
        sample_device_props(1) r, of "frame_handshake Auth [1, 2, 3]" "[]"] by auto
qed

theorem handshake_no_replay_witness:
  "on_frame ref_crates (sample_device 1) (frame_handshake Hello [7]) []
     (rn_state ref_crates sample_run True 1)
   = Some (rn_state ref_crates sample_run True 1, Inl (Duplicate Hello))"
proof -
  let ?E = ref_crates and ?R = sample_run
  have dev: "rn_dev ?R True = sample_device 1" by (simp add: sample_run_def)
  note r = rn_reachable [OF ref_laws wf_sample_run le0, of True, unfolded dev]
  obtain a where ok: "on_frame ?E (sample_device 1) (rn_msg ?E ?R False 0) (rn_ent ?R True 0)
      (rn_state ?E ?R True 0) = Some (rn_state ?E ?R True 1, Inr a)"
    using rn_on_frame [OF ref_laws wf_sample_run, of 0 True] by (auto simp: dev)
  have later: "reachable (\<lambda>c. c = (map (rn_msg ?E ?R (\<not> True)) [0 ..< 0] @ [rn_msg ?E ?R False 0],
      rn_state ?E ?R True 1)) (hs_next ?E (sample_device 1))
      ([rn_msg ?E ?R False 0], rn_state ?E ?R True 1)"
    by (rule reach_init) simp
  have "fr_msg_type (frame_handshake Hello [7]) = fr_msg_type (rn_msg ?E ?R False 0)"
    by (simp add: rn_msg_def frame_handshake_def)
  then show ?thesis
    using handshake_no_replay [OF r ok later, of "frame_handshake Hello [7]" "[]"]
    by (simp add: frame_handshake_def rn_msg_def)
qed

end
