(* ===== verification/Behaviour_Run.thy ===== *)
theory Behaviour_Run
  imports Behaviour_Spec Handshake_Run
begin

text \<open>
  Two behaviours joined by a connection.  Each side opens its substream and then receives the
  handshake frames the other side queued, in order, the two directions interleaved in any
  way.  The contract \<open>lockstep_duplex\<close> of the handshake theory is discharged a second time, now
  for the behaviours that host the two state machines.
\<close>

section \<open>A link between two behaviours\<close>

text \<open>For each side: the transport identity and the connection the other side has there, the
  state before the substream opens, and the surroundings of the calls (of the substream
  event, and of the n-th frame).\<close>

record link =
  lk_transport :: "bool \<Rightarrow> peer_id"
  lk_conn :: "bool \<Rightarrow> connection_id"
  lk_start :: "bool \<Rightarrow> behaviour"
  lk_open :: "bool \<Rightarrow> ambient"
  lk_amb :: "bool \<Rightarrow> nat \<Rightarrow> ambient"

definition lk_route :: "run \<Rightarrow> link \<Rightarrow> bool \<Rightarrow> route" where
  "lk_route R L p =
     \<lparr>rt_device = rn_id R (\<not> p), rt_transport = lk_transport L p, rt_conn = lk_conn L p\<rparr>"

definition wf_link :: "run \<Rightarrow> link \<Rightarrow> bool" where
  "wf_link R L \<longleftrightarrow>
     (\<forall>p. bh_identity (lk_start L p) = rn_dev R p \<and>
          hm_get (bh_handshakes (lk_start L p)) (lk_transport L p, lk_conn L p) = None \<and>
          device_of (lk_transport L p) (lk_start L p) = rn_exp R p \<and>
          am_instant (lk_open L p) = rn_now R p \<and>
          (\<forall>n. am_entropy (lk_amb L p n) = rn_ent R p n) \<and>
          (\<forall>(mid, body) \<in> set (waiting (rn_id R (\<not> p)) (lk_start L p)). valid_str body) \<and>
          length (waiting (rn_id R (\<not> p)) (lk_start L p)) < 2 ^ 32 - 1)"

definition lk_opened :: "crates \<Rightarrow> link \<Rightarrow> bool \<Rightarrow> behaviour" where
  "lk_opened E L p =
     the (on_handler_event E (lk_open L p) (lk_transport L p) (lk_conn L p) SubstreamReady (lk_start L p))"

definition hs_frames :: "frame list \<Rightarrow> frame list" where
  "hs_frames fs = filter (\<lambda>f. \<not> is_session_frame f) fs"

definition session_frames :: "frame list \<Rightarrow> frame list" where
  "session_frames fs = filter is_session_frame fs"

definition bh_feed ::
  "crates \<Rightarrow> link \<Rightarrow> bool \<Rightarrow> nat \<Rightarrow> behaviour \<Rightarrow> frame \<Rightarrow> (behaviour \<times> frame list) option" where
  "bh_feed E L p n b f =
     map_option (\<lambda>b'. (b', hs_frames (new_frames b b')))
       (on_handler_event E (lk_amb L p n) (lk_transport L p) (lk_conn L p) (FrameReceived f) b)"

text \<open>The state after \<open>n\<close> frames of the honest peer.\<close>

primrec lk_state :: "crates \<Rightarrow> run \<Rightarrow> link \<Rightarrow> bool \<Rightarrow> nat \<Rightarrow> behaviour" where
  "lk_state E R L p 0 = lk_opened E L p"
| "lk_state E R L p (Suc n) =
     fst (the (bh_feed E L p n (lk_state E R L p n) (rn_msg E R (\<not> p) n)))"

section \<open>The contract\<close>

lemma order_event_in: "concat (map order_events xs) = [e] \<Longrightarrow> GenerateEvent e \<in> set xs"
proof -
  assume "concat (map order_events xs) = [e]"
  then have "e \<in> set (concat (map order_events xs))" by simp
  then obtain x where "x \<in> set xs" "e \<in> set (order_events x)" by auto
  then show ?thesis by (cases x rule: order_events.cases) auto
qed

lemma rn_msg_not_session: "n < 5 \<Longrightarrow> \<not> is_session_frame (rn_msg E R p n)"
  by (auto simp: rn_msg_def is_session_frame_def frame_handshake_def nth_Cons' less_Suc_eq
      numeral_eq_Suc)

lemma rn_on_frame_frames:
  assumes "crates_laws E" "wf_run E R" "Suc n < 5"
  shows "on_frame E (rn_dev R p) (rn_msg E R (\<not> p) n) (rn_ent R p n) (rn_state E R p n)
    = Some (rn_state E R p (Suc n), Inr (Frames [rn_msg E R p (Suc n)]))"
  using rn_feed [OF assms(1,2), of n p] assms(3)
  by (auto simp: hs_feed_def split: option.splits sum.splits handshake_action.splits)

text \<open>What stays the same on a side until its handshake is established.\<close>

definition lk_inv :: "crates \<Rightarrow> run \<Rightarrow> link \<Rightarrow> bool \<Rightarrow> nat \<Rightarrow> behaviour \<Rightarrow> bool" where
  "lk_inv E R L p n b \<longleftrightarrow>
     bh_identity b = rn_dev R p \<and>
     hm_get (bh_handshakes b) (lk_transport L p, lk_conn L p) = Some (rn_state E R p n, rn_exp R p) \<and>
     bh_pending_sends b = bh_pending_sends (lk_start L p) \<and>
     bh_observed_addrs b = bh_observed_addrs (lk_start L p) \<and>
     (\<exists>xs. bh_queue b = bh_queue (lk_start L p) @ xs) \<and>
     session_frames (new_frames (lk_start L p) b) = []"

lemma lk_opened_props:
  assumes "wf_link R L"
  shows "lk_inv E R L p 0 (lk_opened E L p)"
    and "bh_queue (lk_opened E L p) = bh_queue (lk_start L p)
      @ [NotifyHandler (lk_transport L p) (lk_conn L p) (SendFrames [rn_msg E R p 0])]"
    and "on_handler_event E (lk_open L p) (lk_transport L p) (lk_conn L p) SubstreamReady (lk_start L p)
      = Some (lk_opened E L p)"
proof -
  let ?b = "lk_start L p" and ?t = "lk_transport L p" and ?c = "lk_conn L p"
  have l: "bh_identity ?b = rn_dev R p" "hm_get (bh_handshakes ?b) (?t, ?c) = None"
    "device_of ?t ?b = rn_exp R p" "am_instant (lk_open L p) = rn_now R p"
    using assms by (simp_all add: wf_link_def)
  have msg: "snd (handshake_new E (rn_dev R p) x y) = rn_msg E R p 0" for x y
    by (simp add: handshake_new_def rn_msg_def Let_def)
  have st: "fst (handshake_new E (rn_dev R p) (rn_exp R p) (rn_now R p)) = rn_state E R p 0"
    by (simp add: rn_state_def)
  have "on_handler_event E (lk_open L p) ?t ?c SubstreamReady ?b = Some (notify_conn ?t ?c [rn_msg E R p 0]
      (?b\<lparr>bh_handshakes := hm_insert (?t, ?c) (rn_state E R p 0, rn_exp R p) (bh_handshakes ?b)\<rparr>))"
    using l by (simp add: on_handler_event_def hm_contains_def Let_def split_beta msg st)
  then show "lk_inv E R L p 0 (lk_opened E L p)"
    "bh_queue (lk_opened E L p) = bh_queue ?b @ [NotifyHandler ?t ?c (SendFrames [rn_msg E R p 0])]"
    "on_handler_event E (lk_open L p) ?t ?c SubstreamReady ?b = Some (lk_opened E L p)"
    using l rn_msg_not_session [of 0 E R p]
    by (simp_all add: lk_opened_def lk_inv_def new_frames_def session_frames_def)
qed

lemma feed_frames:
  assumes laws: "crates_laws E" "wf_run E R" "wf_link R L" and n: "Suc n < 5" and inv: "lk_inv E R L p n b"
  shows "\<exists>b'. bh_feed E L p n b (rn_msg E R (\<not> p) n) = Some (b', [rn_msg E R p (Suc n)]) \<and>
    lk_inv E R L p (Suc n) b'"
proof -
  let ?t = "lk_transport L p" and ?c = "lk_conn L p"
  have ent: "am_entropy (lk_amb L p n) = rn_ent R p n" using laws(3) by (simp add: wf_link_def)
  define b' where "b' = notify_conn ?t ?c [rn_msg E R p (Suc n)]
    (b\<lparr>bh_handshakes := hm_insert (?t, ?c) (rn_state E R p (Suc n), rn_exp R p) (bh_handshakes b)\<rparr>)"
  have "on_handler_event E (lk_amb L p n) ?t ?c (FrameReceived (rn_msg E R (\<not> p) n)) b = Some b'"
    using inv rn_on_frame_frames [OF laws(1,2) n, of p] rn_msg_not_session [of n E R "\<not> p"] n ent
    by (simp add: on_handler_event_def bh_on_frame_def lk_inv_def b'_def)
  moreover have "hs_frames (new_frames b b') = [rn_msg E R p (Suc n)]"
    using rn_msg_not_session [OF n, of E R p] by (simp add: hs_frames_def new_frames_def b'_def)
  moreover have "lk_inv E R L p (Suc n) b'"
    using inv rn_msg_not_session [OF n, of E R p]
    by (auto simp: lk_inv_def b'_def new_frames_def session_frames_def)
  ultimately show ?thesis by (simp add: bh_feed_def)
qed

lemma rn_complementary:
  assumes "crates_laws E" "wf_run E R"
  shows "complementary (rn_result E R p) (rn_result E R (\<not> p))"
proof -
  have pid: "peer_ids_ok E" using assms(1) by (simp add: crates_laws_def)
  note d = wf_run_distinct [OF assms(2), of p]
  note sw = select_keys_swap [OF pid d, of "rn_keys E R p"]
  show ?thesis
    using d sw rn_keys_same [OF pid assms(2), of p]
    by (simp add: complementary_def rn_result_def prod_eq_iff)
qed

lemma recv_session_frame:
  assumes "session_recv E f r = Some x"
  shows "is_session_frame f"
proof -
  obtain r' v where h: "handle_frame E f r = Some (r', Inr v)"
    using assms handle_of_recv by (metis surj_pair)
  note a = handle_frame_accepts [OF h]
  have "fr_msg_type f \<in> {Message, Ack, Control}"
    using h a(1,2,5) by (auto simp: handle_frame_def Let_def split: if_splits option.splits)
  then show ?thesis by (auto simp: is_session_frame_def)
qed

lemma recv_all_session_frames:
  "send_all (session_recv E) fs r = Some x \<Longrightarrow> \<forall>f \<in> set fs. is_session_frame f"
proof (induction fs arbitrary: r x)
  case Nil
  then show ?case by simp
next
  case (Cons f fs)
  then obtain r1 v y where "session_recv E f r = Some (r1, v)" "send_all (session_recv E) fs r1 = Some y"
    by (auto split: option.splits)
  then show ?case using Cons.IH recv_session_frame by simp
qed

text \<open>After the fifth frame: the session with the peer is in place and the node is told; the session
  frames queued since the start are those the peer's new session takes as the messages that
  were waiting, and on an inbound connection the observed address.\<close>

definition lk_done :: "crates \<Rightarrow> run \<Rightarrow> link \<Rightarrow> bool \<Rightarrow> behaviour \<Rightarrow> bool" where
  "lk_done E R L p b \<longleftrightarrow>
     GenerateEvent (SessionEstablished (rn_id R (\<not> p)) (lk_conn L p) (rn_result E R p))
       \<in> set (bh_queue b) \<and>
     (\<exists>s r. attached (lk_route R L p) s b \<and> paired E s r \<and>
        s = (session_new E (rn_result E R p))\<lparr>ss_out_seq := ss_out_seq s\<rparr> \<and>
        (let msgs = pending_views (am_clock (lk_amb L p 4)) 0 (waiting (rn_id R (\<not> p)) (lk_start L p)) in
         send_all (session_recv E) (session_frames (new_frames (lk_start L p) b))
           (session_new E (rn_result E R (\<not> p)))
         = Some (r, msgs @ observed_views (lk_transport L p) (lk_conn L p) (length msgs) (lk_start L p))))"

lemma new_frames_trans:
  assumes "bh_queue b = bh_queue a @ xs" "bh_queue c = bh_queue b @ ys"
  shows "new_frames a c = new_frames a b @ new_frames b c"
  using assms by (simp add: new_frames_def)

lemma on_established_route:
  assumes "on_established E A t c res b = Some b'" "hm_get (bh_sessions b') (hr_peer_id res) = Some (t, c, s)"
  shows "attached \<lparr>rt_device = hr_peer_id res, rt_transport = t, rt_conn = c\<rparr> s b'"
proof -
  have "device_of t b' = Some (hr_peer_id res)"
    using on_established_dir [OF assms(1)]
    by (auto simp: dir_abs_def device_of_def dest: arg_cong [of _ _ dr_devices] fun_cong [of _ _ t])
  then show ?thesis using assms(2) by (simp add: attached_def)
qed

lemma feed_established:
  assumes laws: "crates_laws E" "aead_correct E" "text_codecs_ok E" "wf_run E R" "wf_link R L"
    and inv: "lk_inv E R L p 4 b"
  shows "\<exists>b'. bh_feed E L p 4 b (rn_msg E R (\<not> p) 4) = Some (b', []) \<and> lk_done E R L p b'"
proof -
  let ?t = "lk_transport L p" and ?c = "lk_conn L p" and ?dv = "rn_id R (\<not> p)"
  have pid: "peer_ids_ok E" using laws(1) by (simp add: crates_laws_def)
  have w: "waiting ?dv b = waiting ?dv (lk_start L p)"
    "observed_views ?t ?c n b = observed_views ?t ?c n (lk_start L p)" for n
    using inv by (simp_all add: lk_inv_def waiting_def observed_views_def)
  have dv: "?dv = hr_peer_id (rn_result E R p)" by (simp add: rn_result_def)
  have pr: "paired E (session_new E (rn_result E R p)) (session_new E (rn_result E R (\<not> p)))"
    by (rule paired_new [OF laws(2,3) pid rn_complementary [OF laws(1,4)]])
  have "\<forall>(mid, body) \<in> set (waiting ?dv b). valid_str body" "length (waiting ?dv b) < 2 ^ 32 - 1"
    using laws(5) by (simp_all add: wf_link_def w)
  from established_sends [OF pr this dv, of "lk_amb L p 4" ?t ?c] obtain b' r' s' where b':
    "on_established E (lk_amb L p 4) ?t ?c (rn_result E R p) b = Some b'"
    "send_all (session_recv E) (new_frames b b') (session_new E (rn_result E R (\<not> p)))
      = Some (r', pending_views (am_clock (lk_amb L p 4)) 0 (waiting ?dv b)
          @ observed_views ?t ?c (length (pending_views (am_clock (lk_amb L p 4)) 0 (waiting ?dv b))) b)"
    "hm_get (bh_sessions b') ?dv = Some (?t, ?c, s')" "paired E s' r'"
    "s' = (session_new E (rn_result E R p))\<lparr>ss_out_seq := ss_out_seq s'\<rparr>"
    "new_events b b' = [SessionEstablished ?dv ?c (rn_result E R p)]" by blast
  obtain ys where ys: "bh_queue b' = bh_queue b @ ys" using on_established_queue [OF b'(1)] by blast
  obtain xs where xs: "bh_queue b = bh_queue (lk_start L p) @ xs"
    "session_frames (new_frames (lk_start L p) b) = []" using inv by (auto simp: lk_inv_def)
  have sess: "session_frames (new_frames b b') = new_frames b b'" "hs_frames (new_frames b b') = []"
    using recv_all_session_frames [OF b'(2)]
    by (simp_all add: session_frames_def hs_frames_def filter_id_conv filter_empty_conv)
  have "session_frames (new_frames (lk_start L p) b') = new_frames b b'"
    using new_frames_trans [OF xs(1) ys] xs(2) sess(1) by (simp add: session_frames_def)
  moreover have "GenerateEvent (SessionEstablished ?dv ?c (rn_result E R p)) \<in> set (bh_queue b')"
    using b'(6) ys order_event_in [of ys] by (simp add: new_events_def)
  moreover have "attached (lk_route R L p) s' b'"
    using on_established_route [OF b'(1)] b'(3) dv by (simp add: lk_route_def)
  ultimately have "lk_done E R L p b'" using b'(2,4,5) unfolding lk_done_def Let_def w by auto
  moreover have "on_handler_event E (lk_amb L p 4) ?t ?c (FrameReceived (rn_msg E R (\<not> p) 4)) b = Some b'"
    using inv rn_established [OF laws(1,4), of p] rn_msg_not_session [of 4 E R "\<not> p"] laws(5) b'(1)
    by (simp add: on_handler_event_def bh_on_frame_def lk_inv_def wf_link_def)
  ultimately show ?thesis using sess(2) by (simp add: bh_feed_def)
qed

lemma lk_state_inv:
  assumes "crates_laws E" "wf_run E R" "wf_link R L" "n < 5"
  shows "lk_inv E R L p n (lk_state E R L p n)"
  using assms(4)
proof (induction n)
  case 0
  then show ?case using lk_opened_props(1) [OF assms(3)] by simp
next
  case (Suc n)
  then have "lk_inv E R L p n (lk_state E R L p n)" by simp
  from feed_frames [OF assms(1-3) Suc.prems this] show ?case by auto
qed

lemma lk_feed:
  assumes laws: "crates_laws E" "aead_correct E" "text_codecs_ok E" "wf_run E R" "wf_link R L" and n: "n < 5"
  shows "bh_feed E L p n (lk_state E R L p n) (rn_msg E R (\<not> p) n)
    = Some (lk_state E R L p (Suc n), if Suc n < 5 then [rn_msg E R p (Suc n)] else [])"
    and "n = 4 \<Longrightarrow> lk_done E R L p (lk_state E R L p (Suc n))"
proof -
  note inv = lk_state_inv [OF laws(1,4,5) n, of p]
  have last: "\<exists>b'. bh_feed E L p n (lk_state E R L p n) (rn_msg E R (\<not> p) n) = Some (b', []) \<and>
      lk_done E R L p b'" if "n = 4"
    using feed_established [OF laws] inv unfolding that by blast
  show "bh_feed E L p n (lk_state E R L p n) (rn_msg E R (\<not> p) n)
    = Some (lk_state E R L p (Suc n), if Suc n < 5 then [rn_msg E R p (Suc n)] else [])"
  proof (cases "Suc n < 5")
    case True
    from feed_frames [OF laws(1,4,5) True inv] True show ?thesis by auto
  next
    case False
    then have "n = 4" using n by simp
    from last [OF this] False show ?thesis by auto
  qed
  assume "n = 4"
  from last [OF this] show "lk_done E R L p (lk_state E R L p (Suc n))" by auto
qed

section \<open>The sample link\<close>

definition sample_ambient :: ambient where
  "sample_ambient = \<lparr>am_instant = 0, am_clock = (\<lambda>_. 1000), am_rid = 7, am_entropy = []\<rparr>"

definition sample_link :: link where
  "sample_link = \<lparr>lk_transport = (\<lambda>p. PeerId [if p then 20 else 10]), lk_conn = (\<lambda>p. if p then 4 else 5),
     lk_start = (\<lambda>p. behaviour_new (rn_dev sample_run p)), lk_open = (\<lambda>p. sample_ambient),
     lk_amb = (\<lambda>p n. sample_ambient)\<rparr>"

lemma wf_sample_link: "wf_link sample_run sample_link"
  by (simp add: wf_link_def sample_link_def sample_run_def behaviour_new_def device_of_def
      sample_ambient_def waiting_def)

section \<open>Any two honest behaviours\<close>

typedef honest_link = "{(E, R, L). crates_laws E \<and> aead_correct E \<and> text_codecs_ok E \<and> wf_run E R \<and> wf_link R L}"
  using ref_laws wf_sample_run wf_sample_link ref_aead_correct ref_text_codecs_ok by blast

abbreviation hl_crates :: "honest_link \<Rightarrow> crates" where
  "hl_crates x \<equiv> fst (Rep_honest_link x)"

abbreviation hl_run :: "honest_link \<Rightarrow> run" where
  "hl_run x \<equiv> fst (snd (Rep_honest_link x))"

abbreviation hl_link :: "honest_link \<Rightarrow> link" where
  "hl_link x \<equiv> snd (snd (Rep_honest_link x))"

lemma honest_linkE:
  assumes "crates_laws E" "aead_correct E" "text_codecs_ok E" "wf_run E R" "wf_link R L"
  obtains x where "hl_crates x = E" "hl_run x = R" "hl_link x = L"
  using assms Abs_honest_link_inverse [of "(E, R, L)"] by (metis (mono_tags, lifting) case_prodI
      fst_conv mem_Collect_eq snd_conv)

interpretation bh_run: lockstep_duplex "bh_feed (hl_crates x) (hl_link x)"
  "lk_state (hl_crates x) (hl_run x) (hl_link x)" "rn_msg (hl_crates x) (hl_run x)" 5
  for x
proof
  fix n p
  have "crates_laws (hl_crates x)" "aead_correct (hl_crates x)" "text_codecs_ok (hl_crates x)"
    "wf_run (hl_crates x) (hl_run x)" "wf_link (hl_run x) (hl_link x)"
    using Rep_honest_link [of x] by auto
  then show "n < 5 \<Longrightarrow> bh_feed (hl_crates x) (hl_link x) p n (lk_state (hl_crates x) (hl_run x) (hl_link x) p n)
      (rn_msg (hl_crates x) (hl_run x) (\<not> p) n)
    = Some (lk_state (hl_crates x) (hl_run x) (hl_link x) p (Suc n),
        if Suc n < 5 then [rn_msg (hl_crates x) (hl_run x) p (Suc n)] else [])"
    by (rule lk_feed(1))
qed simp

text \<open>Both sides have opened their substream; each one's Hello is on its way to the other.\<close>

definition link_init :: "crates \<Rightarrow> link \<Rightarrow> (behaviour, frame) duplex \<Rightarrow> bool" where
  "link_init E L = duplex_init (lk_opened E L)
     (\<lambda>p. hd (hs_frames (new_frames (lk_start L p) (lk_opened E L p))))"

lemma link_init_ideal:
  assumes "wf_link R L"
  shows "link_init E L = duplex_init (\<lambda>p. lk_state E R L p 0) (\<lambda>p. rn_msg E R p 0)"
  using lk_opened_props(2) [OF assms] rn_msg_not_session [of 0 E R]
  by (simp add: link_init_def new_frames_def hs_frames_def)

text \<open>C17. Two honest behaviours joined by a connection always end up with a session: however
  the deliveries of handshake frames interleave, none is refused and no call panics, at most
  ten frames are delivered, and when none is in flight each behaviour holds a session with the
  other's device over that connection, has told its node so, and every session frame it
  has queued (the messages that were waiting, the observed address) is accepted in order by the
  peer's new session, which is then in step with its own.\<close>

theorem bh_pair_establishes:
  assumes laws: "crates_laws E" "aead_correct E" "text_codecs_ok E" "wf_run E R" "wf_link R L"
    and reach: "reachable (link_init E L) (duplex_step (bh_feed E L)) c"
  shows "(\<forall>p f rest. dx_inbox c p = f # rest \<longrightarrow>
            (\<exists>b' out. bh_feed E L p (dx_count c p) (dx_state c p) f = Some (b', out))) \<and>
    dx_count c True + dx_count c False \<le> 10 \<and>
    (dx_inbox c True = [] \<and> dx_inbox c False = [] \<longrightarrow> (\<forall>p. lk_done E R L p (dx_state c p)))"
proof -
  obtain x where x: "hl_crates x = E" "hl_run x = R" "hl_link x = L" by (rule honest_linkE [OF laws])
  have inv: "bh_run.lockstep_inv x c"
    using bh_run.lockstep_reachable [of x c] reach by (simp add: x link_init_ideal [OF laws(5)])
  have "\<forall>p f rest. dx_inbox c p = f # rest \<longrightarrow>
      (\<exists>b' out. bh_feed E L p (dx_count c p) (dx_state c p) f = Some (b', out))"
    using bh_run.lockstep_progress [OF inv] by (simp add: x)
  moreover have "dx_count c True + dx_count c False \<le> 10"
    using bh_run.lockstep_bound [OF inv] by simp
  moreover have "lk_done E R L p (dx_state c p)"
    if "dx_inbox c True = []" "dx_inbox c False = []" for p
  proof -
    have "dx_state c p = lk_state E R L p (Suc 4)"
      using bh_run.lockstep_done [OF inv that, of p] by (simp add: x)
    then show ?thesis using lk_feed(2) [OF laws, of 4 p] by simp
  qed
  ultimately show ?thesis by blast
qed

section \<open>Witnesses\<close>

abbreviation sample_side :: "bool \<Rightarrow> nat \<Rightarrow> behaviour" where
  "sample_side \<equiv> lk_state ref_crates sample_run sample_link"

abbreviation sample_t :: "bool \<Rightarrow> peer_id" where "sample_t \<equiv> lk_transport sample_link"
abbreviation sample_c :: "bool \<Rightarrow> connection_id" where "sample_c \<equiv> lk_conn sample_link"

lemmas sample_laws = ref_laws ref_aead_correct ref_text_codecs_ok wf_sample_run wf_sample_link

lemma sample_dev: "rn_dev sample_run p = sample_device (if p then 1 else 2)"
  by (simp add: sample_run_def)

lemma sample_start: "lk_start sample_link p = behaviour_new (rn_dev sample_run p)"
  by (simp add: sample_link_def)

lemma sample_reachable:
  assumes "n \<le> 5"
  shows "reachable (bh_init (rn_dev sample_run p)) (bh_next ref_crates)
    (map (\<lambda>i. (sample_t p, sample_c p, rn_msg ref_crates sample_run (\<not> p) i)) [0 ..< n], sample_side p n)"
  using assms
proof (induction n)
  case 0
  have "reachable (bh_init (rn_dev sample_run p)) (bh_next ref_crates) ([], lk_start sample_link p)"
    by (rule reach_init) (simp add: bh_init_def sample_start)
  moreover have "bh_next ref_crates ([], lk_start sample_link p) ([], sample_side p 0)"
    using lk_opened_props(3) [OF wf_sample_link, of ref_crates p] unfolding bh_next_def
    by (intro exI [of _ "lk_open sample_link p"] exI [of _ "OpHandler (sample_t p) (sample_c p) SubstreamReady"])
      simp
  ultimately have "reachable (bh_init (rn_dev sample_run p)) (bh_next ref_crates) ([], sample_side p 0)"
    by (rule reach_step)
  then show ?case by simp
next
  case (Suc n)
  then have n: "n < 5" by simp
  have "on_handler_event ref_crates (lk_amb sample_link p n) (sample_t p) (sample_c p)
      (FrameReceived (rn_msg ref_crates sample_run (\<not> p) n)) (sample_side p n) = Some (sample_side p (Suc n))"
    using lk_feed(1) [OF sample_laws n, of p] by (auto simp: bh_feed_def)
  then have "bh_next ref_crates (xs, sample_side p n)
      (xs @ [(sample_t p, sample_c p, rn_msg ref_crates sample_run (\<not> p) n)], sample_side p (Suc n))" for xs
    unfolding bh_next_def
    by (intro exI [of _ "lk_amb sample_link p n"]
        exI [of _ "OpHandler (sample_t p) (sample_c p) (FrameReceived (rn_msg ref_crates sample_run (\<not> p) n))"])
      simp
  moreover have "reachable (bh_init (rn_dev sample_run p)) (bh_next ref_crates)
      (map (\<lambda>i. (sample_t p, sample_c p, rn_msg ref_crates sample_run (\<not> p) i)) [0 ..< n], sample_side p n)"
    using Suc by simp
  ultimately show ?case by (auto intro: reach_step)
qed

text \<open>With nothing waiting and no address to report, the two sessions are fresh and in step.\<close>

lemma done_linked:
  assumes laws: "crates_laws E" "aead_correct E" "text_codecs_ok E" "wf_run E R"
    and "\<And>p. lk_done E R L p (b p)"
    and "\<And>p. waiting (rn_id R (\<not> p)) (lk_start L p) = []"
    and "\<And>p. hm_get (bh_observed_addrs (lk_start L p)) (lk_transport L p, lk_conn L p) = None"
  shows "linked E 0 0 (lk_route R L True) (b True) (lk_route R L False) (b False)"
proof -
  have pid: "peer_ids_ok E" using laws(1) by (simp add: crates_laws_def)
  have fresh: "attached (lk_route R L p) (session_new E (rn_result E R p)) (b p)" for p
  proof -
    have zero: "ss_in_seq (session_new E x) = 0" "ss_out_seq (session_new E x) = 0" for x
      by (simp_all add: session_new_def Let_def)
    from assms(5) [of p] obtain s r where s: "attached (lk_route R L p) s (b p)" "paired E s r"
      "s = (session_new E (rn_result E R p))\<lparr>ss_out_seq := ss_out_seq s\<rparr>"
      "send_all (session_recv E) (session_frames (new_frames (lk_start L p) (b p)))
         (session_new E (rn_result E R (\<not> p))) = Some (r, [])"
      using assms(6,7) [of p] by (auto simp: lk_done_def observed_views_def)
    have "r = session_new E (rn_result E R (\<not> p))"
      using s(4) by (cases "session_frames (new_frames (lk_start L p) (b p))") (auto split: option.splits)
    then have "ss_out_seq s = 0" using s(2) zero by (simp add: paired_def)
    then have "s = session_new E (rn_result E R p)"
      using s(3) zero(2) by (metis session.surjective session.update_convs(6) session.select_convs(6))
    then show ?thesis using s(1) by simp
  qed
  have "unat (ss_out_seq (session_new E x)) = 0" for x by (simp add: session_new_def Let_def)
  then show ?thesis
    unfolding linked_def
    using fresh paired_new [OF laws(2,3) pid rn_complementary [OF laws(1,4)]] by (metis (full_types))
qed

lemma sample_done: "lk_done ref_crates sample_run sample_link p (sample_side p 5)"
  using lk_feed(2) [OF sample_laws, of 4 p] by (simp only: eval_nat_numeral)

lemma sample_linked:
  "linked ref_crates 0 0 (lk_route sample_run sample_link True) (sample_side True 5)
     (lk_route sample_run sample_link False) (sample_side False 5)"
  by (rule done_linked [OF ref_laws ref_aead_correct ref_text_codecs_ok wf_sample_run sample_done])
    (simp_all add: sample_start behaviour_new_def waiting_def)

lemma sample_session:
  obtains s where "hm_get (bh_sessions (sample_side True 5)) (rn_id sample_run False)
      = Some (sample_t True, sample_c True, s)" "unat (ss_out_seq s) = 0"
  using sample_linked by (auto simp: linked_def attached_def lk_route_def)

theorem bh_pair_establishes_witness:
  "\<exists>c. reachable (link_init ref_crates sample_link) (duplex_step (bh_feed ref_crates sample_link)) c \<and>
     (\<forall>p. lk_done ref_crates sample_run sample_link p (dx_state c p))"
proof -
  obtain x where x: "hl_crates x = ref_crates" "hl_run x = sample_run" "hl_link x = sample_link"
    by (rule honest_linkE [OF sample_laws])
  have "reachable (link_init ref_crates sample_link) (duplex_step (bh_feed ref_crates sample_link))
      \<lparr>dx_count = (\<lambda>p. 0), dx_state = (\<lambda>p. sample_side p 0),
       dx_inbox = (\<lambda>p. [rn_msg ref_crates sample_run (\<not> p) 0])\<rparr>"
    by (rule reach_init) (simp add: link_init_ideal [OF wf_sample_link] duplex_init_def)
  then obtain c where "reachable (link_init ref_crates sample_link) (duplex_step (bh_feed ref_crates sample_link)) c"
    "dx_inbox c True = []" "dx_inbox c False = []"
    using bh_run.lockstep_can_finish [of x] by (auto simp: x link_init_ideal [OF wf_sample_link])
  then show ?thesis using bh_pair_establishes [OF sample_laws] by blast
qed

theorem bh_sessions_authenticated_witness:
  "\<exists>hist s res. hm_get (bh_sessions (sample_side True 5)) (rn_id sample_run False)
      = Some (sample_t True, sample_c True, s) \<and>
     vouched ref_crates (rn_dev sample_run True) {f. (sample_t True, sample_c True, f) \<in> set hist} res \<and>
     hr_peer_id res = rn_id sample_run False"
proof -
  obtain s where s: "hm_get (bh_sessions (sample_side True 5)) (rn_id sample_run False)
      = Some (sample_t True, sample_c True, s)" by (rule sample_session)
  show ?thesis using bh_sessions_authenticated [OF sample_reachable [of 5 True]] s by blast
qed

lemma substream_ready_keeps:
  "on_handler_event E A t c SubstreamReady b = Some b' \<Longrightarrow>
   bh_sessions b' = bh_sessions b \<and> bh_pending_sends b' = bh_pending_sends b"
  by (auto simp: on_handler_event_def Let_def split: if_splits prod.splits)


theorem bh_poll_expires_witness:
  "hm_get (bh_handshakes (fst (bh_poll (HANDSHAKE_TIMEOUT + 1) (sample_side True 0))))
     (sample_t True, sample_c True) = None"
proof -
  let ?b = "sample_side True 0" and ?k = "(sample_t True, sample_c True)"
  obtain b' r where p: "bh_poll (HANDSHAKE_TIMEOUT + 1) ?b = (b', r)" by (cases "bh_poll (HANDSHAKE_TIMEOUT + 1) ?b")
  have "hm_get (bh_handshakes ?b) ?k = Some (rn_state ref_crates sample_run True 0, rn_exp sample_run True)"
    using lk_state_inv [OF ref_laws wf_sample_run wf_sample_link, of 0 True] by (simp add: lk_inv_def)
  moreover have "hs_started_at (rn_state ref_crates sample_run True 0) = 0"
    by (simp add: rn_state_def handshake_new_def sample_run_def Let_def)
  ultimately show ?thesis
    using bh_poll_expires [OF sample_reachable [of 0 True] p] p
    by (auto simp: duration_since_def)
qed

theorem bh_conversation_delivered_witness:
  "\<exists>a' b'. conversation ref_crates (lk_route sample_run sample_link True) (lk_route sample_run sample_link False)
      [(''user'', sample_ambient, sample_ambient, sample_ambient)] (sample_side True 5, sample_side False 5)
      = Some (a', b') \<and>
    new_events (sample_side False 5) b' = [MessageReceived (rn_id sample_run True) 7 ''user'' 1000]"
proof -
  have "\<forall>(body, _) \<in> set [(''user'', sample_ambient, sample_ambient, sample_ambient)].
      valid_str body \<and> length body \<le> MAX_MESSAGE_BYTES"
    by (simp add: valid_user MAX_MESSAGE_BYTES_def)
  from bh_conversation_delivered [OF sample_linked _ _ this] show ?thesis
    by (auto simp: sample_ambient_def lk_route_def now_ms_def)
qed

theorem bh_pending_delivered_witness:
  "\<exists>b1 b2 r'. send_texts ref_crates (PeerId [2]) [(sample_ambient, ''user'')] (behaviour_new (sample_device 1)) = Some b1 \<and>
     on_established ref_crates sample_ambient (PeerId [20]) 4 (sample_result True) b1 = Some b2 \<and>
     send_all (session_recv ref_crates) (new_frames b1 b2) (session_new ref_crates (sample_result False))
       = Some (r', [Inbound_Message 0 7 1000 ''user''])"
proof -
  let ?b = "behaviour_new (sample_device 1)"
  have n: "hm_get (bh_sessions ?b) (hr_peer_id (sample_result True)) = None"
    "hm_get (bh_pending_sends ?b) (hr_peer_id (sample_result True)) = None"
    by (simp_all add: behaviour_new_def)
  have v: "\<forall>(_, body) \<in> set [(sample_ambient, ''user'')]. valid_str body" by (simp add: valid_user)
  from bh_pending_delivered [OF ref_aead_correct ref_text_codecs_ok ref_peer_ids_ok sample_complementary n v,
      of sample_ambient "PeerId [20]" 4]
  show ?thesis
    by (auto simp: sample_result_def sample_ambient_def observed_views_def behaviour_new_def
        MAX_MESSAGE_BYTES_def now_ms_def)
qed

theorem bh_refines_directory_witness:
  "\<exists>b' ls. list_all2 may_change [OpMapTransport (PeerId [3]) (PeerId [20])] ls \<and>
     dir_abs b' = fold dir_apply ls (dir_abs (sample_side True 5)) \<and>
     device_of (PeerId [20]) b' = Some (PeerId [3])"
proof -
  let ?b' = "map_transport (PeerId [3]) (PeerId [20]) (sample_side True 5)"
  have "run_ops (\<lambda>op b b'. \<exists>A. bh_step ref_crates A op b = Some b') [OpMapTransport (PeerId [3]) (PeerId [20])]
      (sample_side True 5) ?b'" by simp
  from bh_refines_directory [OF this] obtain ls where
    "list_all2 may_change [OpMapTransport (PeerId [3]) (PeerId [20])] ls"
    "dir_abs ?b' = fold dir_apply ls (dir_abs (sample_side True 5))" by blast
  moreover have "device_of (PeerId [20]) ?b' = Some (PeerId [3])" by (simp add: device_of_def)
  ultimately show ?thesis by blast
qed

theorem bh_session_survives_witness:
  "\<exists>s. hm_get (bh_sessions (on_connection_closed (sample_t True) 77 0 (sample_side True 5)))
     (rn_id sample_run False) = Some (sample_t True, sample_c True, s)"
proof -
  obtain s where s: "hm_get (bh_sessions (sample_side True 5)) (rn_id sample_run False)
      = Some (sample_t True, sample_c True, s)" by (rule sample_session)
  have "run_ops (\<lambda>op b b'. \<exists>A. bh_step ref_crates A op b = Some b')
      [OpSwarm (ConnectionClosed (sample_t True) 77 0)] (sample_side True 5)
      (on_connection_closed (sample_t True) 77 0 (sample_side True 5))" by simp
  from bh_session_survives [OF this s] show ?thesis by (simp add: sample_link_def)
qed

end
