(* ===== verification/Node_Run.thy ===== *)
theory Node_Run
  imports Node_Loop Behaviour_Run
begin

text \<open>
  Concrete nodes: a reference encoding of records, a node on a concrete device, and the
  witnesses of the properties of the node.
\<close>

section \<open>A reference encoding of records\<close>

definition ref_record_to_vec :: "addr_record \<Rightarrow> bytes option" where
  "ref_record_to_vec r = Some (be32 (ar_v r) @ be64 (ar_issued_at r) @ be64 (ar_ttl_secs r) @
     concat (map (put_len \<circ> as_bytes) [ar_kind r, ar_device_uuid r, ar_peer_id r, ar_pubkey_b64 r,
       ar_user_id_hex r, ar_user_name r, ar_transport_peer_b58 r, ar_sig_b64 r]) @
     concat (map (put_len \<circ> as_bytes) (ar_addrs r)))"

fun get_all :: "nat \<Rightarrow> bytes \<Rightarrow> string list" where
  "get_all 0 b = []"
| "get_all (Suc n) b =
     (if b = [] then [] else case get_len b of (x, r) \<Rightarrow> chars_of x # get_all n r)"

definition ref_record_from_slice :: "bytes \<Rightarrow> addr_record option" where
  "ref_record_from_slice b =
     (let (f1, r1) = get_len (drop 20 b); (f2, r2) = get_len r1; (f3, r3) = get_len r2;
          (f4, r4) = get_len r3; (f5, r5) = get_len r4; (f6, r6) = get_len r5;
          (f7, r7) = get_len r6; (f8, r8) = get_len r7 in
      Some \<lparr>ar_v = un_be32 (take 4 b), ar_kind = chars_of f1, ar_device_uuid = chars_of f2,
            ar_peer_id = chars_of f3, ar_pubkey_b64 = chars_of f4, ar_user_id_hex = chars_of f5,
            ar_user_name = chars_of f6, ar_transport_peer_b58 = chars_of f7,
            ar_addrs = get_all (length r8) r8, ar_issued_at = un_be64 (slice_of 4 12 b),
            ar_ttl_secs = un_be64 (slice_of 12 20 b), ar_sig_b64 = chars_of f8\<rparr>)"

definition ref_record_json :: record_json where
  "ref_record_json = \<lparr>rj_to_vec = ref_record_to_vec, rj_from_slice = ref_record_from_slice\<rparr>"

lemma get_all_put: "length xs \<le> n \<Longrightarrow> get_all n (concat (map (put_len \<circ> as_bytes) xs)) = xs"
proof (induction xs arbitrary: n)
  case Nil
  then show ?case by (cases n) simp_all
next
  case (Cons x xs)
  then obtain m where "n = Suc m" "length xs \<le> m" by (cases n) auto
  moreover have "put_len (as_bytes x) \<noteq> []" by (simp add: put_len_def)
  ultimately show ?case using Cons by simp
qed

lemma put_all_length: "length xs \<le> length (concat (map (put_len \<circ> as_bytes) xs))"
  by (induction xs) (simp_all add: put_len_def)

lemma ref_record_json_ok: "record_json_ok ref_record_json"
proof -
  have "ref_record_from_slice (the (ref_record_to_vec r)) = Some r" for r
    using get_all_put [OF put_all_length]
    by (cases r) (simp add: ref_record_to_vec_def ref_record_from_slice_def slice_of_def be_length)
  then show ?thesis by (simp add: record_json_ok_def ref_record_json_def ref_record_to_vec_def)
qed

section \<open>A node\<close>

definition sample_ambient0 :: ambient where
  "sample_ambient0 = \<lparr>am_instant = 0, am_clock = (\<lambda>_. 1000), am_rid = 7, am_entropy = []\<rparr>"

definition sample_surroundings :: "instant \<Rightarrow> surroundings" where
  "sample_surroundings now = \<lparr>su_now = now, su_secs = 1000, su_entropy = [],
     su_amb = (\<lambda>_. sample_ambient0), su_query = (\<lambda>i. i), su_ips = Some [V4 1], su_listeners = [],
     su_connected = 0, su_faults = no_faults, su_listen_error = None\<rparr>"

definition sample_options :: node_options where
  "sample_options = \<lparr>no_listen_port = 9000, no_bootstrap = [], no_external_ips = [], no_relay = None,
     no_relay_server = False\<rparr>"

definition sample_node :: "u8 \<Rightarrow> node" where
  "sample_node b = (case node_new ref_crates (sample_surroundings 10000) (sample_device b) empty_disk
     sample_options of Some (Inr nd) \<Rightarrow> nd)"

lemma sample_node_new:
  "node_new ref_crates (sample_surroundings 10000) (sample_device b) empty_disk sample_options
     = Some (Inr (sample_node b))"
proof -
  have "listen_addr ref_crates 9000 = Some (Multiaddr [Ip4 0, Tcp 9000])"
    by (simp add: listen_addr_def text_codecs_simps(3) [OF ref_text_codecs_ok])
  moreover obtain r where "sign_addr_record ref_crates (sample_device b) [] 1000 [] = Some r"
    by (rule sign_record_total [OF ref_dsa_correct sample_device_props(1)])
  ultimately show ?thesis
    by (auto simp: sample_node_def node_new_def sample_options_def sample_surroundings_def)
qed

lemma sample_node_fields [simp]:
  "nd_session (sample_node b) = behaviour_new (sample_device b)"
  "nd_identity (sample_node b) = sample_device b" "nd_orders (sample_node b) = [ListenOn (Multiaddr [Ip4 0, Tcp 9000])]"
  "nd_current_addrs (sample_node b) = []" "nd_last_publish (sample_node b) = 10000"
  "nd_last_interface_scan (sample_node b) = 5000" "nd_last_bootstrap (sample_node b) = 5000"
  "nd_bootstrap_pending (sample_node b) = []" "nd_pending_lookups (sample_node b) = []"
  "nd_retry_lookups (sample_node b) = []" "nd_dialing (sample_node b) = []" "nd_had_session (sample_node b) = []"
  "nd_retry_dials (sample_node b) = []" "nd_records (sample_node b) = []" "nd_candidates (sample_node b) = []"
  "nd_validated_public_addrs (sample_node b) = []" "nd_pending_probes (sample_node b) = []"
  "nd_listen_port (sample_node b) = 9000" "nd_external_ips (sample_node b) = []" "nd_relay (sample_node b) = None"
  "nd_relay_server (sample_node b) = False" "nd_relay_transport (sample_node b) = None"
proof -
  have "listen_addr ref_crates 9000 = Some (Multiaddr [Ip4 0, Tcp 9000])"
    by (simp add: listen_addr_def text_codecs_simps(3) [OF ref_text_codecs_ok])
  then obtain r where n: "sample_node b = (case node_new ref_crates (sample_surroundings 10000) (sample_device b)
      empty_disk sample_options of Some (Inr nd) \<Rightarrow> nd)"
    "sign_addr_record ref_crates (sample_device b) [] 1000 [] = Some r"
    "listen_addr ref_crates 9000 = Some (Multiaddr [Ip4 0, Tcp 9000])"
    using sample_node_new [of b]
    by (auto simp: sample_node_def node_new_def sample_options_def sample_surroundings_def split: option.splits)
  show "nd_session (sample_node b) = behaviour_new (sample_device b)"
    "nd_identity (sample_node b) = sample_device b" "nd_orders (sample_node b) = [ListenOn (Multiaddr [Ip4 0, Tcp 9000])]"
    "nd_current_addrs (sample_node b) = []" "nd_last_publish (sample_node b) = 10000"
    "nd_last_interface_scan (sample_node b) = 5000" "nd_last_bootstrap (sample_node b) = 5000"
    "nd_bootstrap_pending (sample_node b) = []" "nd_pending_lookups (sample_node b) = []"
    "nd_retry_lookups (sample_node b) = []" "nd_dialing (sample_node b) = []" "nd_had_session (sample_node b) = []"
    "nd_retry_dials (sample_node b) = []" "nd_records (sample_node b) = []" "nd_candidates (sample_node b) = []"
    "nd_validated_public_addrs (sample_node b) = []" "nd_pending_probes (sample_node b) = []"
    "nd_listen_port (sample_node b) = 9000" "nd_external_ips (sample_node b) = []" "nd_relay (sample_node b) = None"
    "nd_relay_server (sample_node b) = False" "nd_relay_transport (sample_node b) = None"
    using n by (simp_all add: node_new_def sample_options_def sample_surroundings_def INTERFACE_SCAN_INTERVAL_def)
qed

lemma sample_surroundings_fields [simp]:
  "su_now (sample_surroundings now) = now" "su_secs (sample_surroundings now) = 1000"
  "su_query (sample_surroundings now) i = i" "su_ips (sample_surroundings now) = Some [V4 1]"
  "su_listeners (sample_surroundings now) = []" "su_connected (sample_surroundings now) = 0"
  "su_amb (sample_surroundings now) i = sample_ambient0" "su_entropy (sample_surroundings now) = []"
  "su_faults (sample_surroundings now) = no_faults" "su_listen_error (sample_surroundings now) = None"
  by (simp_all add: sample_surroundings_def)

lemma sample_init: "reachable (node_init ref_crates) (node_next ref_crates J) ([], sample_node b)"
  by (rule reachable.reach_init) (use sample_node_new [of b] in \<open>auto simp: node_init_def\<close>)

lemma sample_no_session [simp]: "nd_session nd = behaviour_new d \<Longrightarrow> \<not> node_has_session p nd"
  by (simp add: node_has_session_def has_session_def behaviour_new_def)

lemma sample_publish:
  assumes "nd_identity nd = sample_device b"
  shows "\<exists>nd' r bs. publish_record ref_crates ref_record_json (sample_surroundings now) nd = Some nd' \<and>
    (nd' = nd \<or> nd' = nd\<lparr>nd_our_record := r, nd_orders := nd_orders nd @ [KadPutRecord (pid_to_bytes ref_crates
        (di_peer_id (sample_device b))) bs], nd_last_publish := now\<rparr>)"
proof -
  obtain r where "sign_addr_record ref_crates (sample_device b)
      (push_new (nd_validated_public_addrs nd) (nd_current_addrs nd)) 1000 [] = Some r"
    by (rule sign_record_total [OF ref_dsa_correct sample_device_props(1)])
  then show ?thesis
    using assms
    by (cases "push_new (nd_validated_public_addrs nd) (nd_current_addrs nd) = []")
      (auto simp: publish_record_def record_to_bytes_def ref_record_json_def ref_record_to_vec_def Let_def)
qed

text \<open>Maintenance of a node with no addresses, no probes and nothing to bootstrap from.\<close>

lemma sample_maintenance:
  assumes "nd_current_addrs nd = []" "nd_candidates nd = []" "nd_pending_probes nd = []"
    "now < nd_last_publish nd + secs 30" "nd_bootstrap_pending nd = []" "nd_relay nd = None"
  shows "\<exists>nd'. maintenance ref_crates ref_record_json (sample_surroundings now) nd = Some nd'"
proof -
  let ?S = "sample_surroundings now"
  have r: "refresh_local_addresses ref_crates ref_record_json ?S nd = Some nd \<or>
      refresh_local_addresses ref_crates ref_record_json ?S nd = Some (nd\<lparr>nd_last_interface_scan := now\<rparr>)"
    using assms(1) by (simp add: refresh_local_addresses_def push_new_def filter_local_addrs_def)
  have d: "duration_since now (nd_last_publish nd) < secs 30" using assms(4) by (auto simp: duration_since_def)
  have f: "nd_bootstrap_pending (fire_dials t ds x) = nd_bootstrap_pending x"
    "nd_relay (fire_dials t ds x) = nd_relay x" for t ds x
    by (induction ds arbitrary: x) (simp_all add: dial_peer_def)
  have g: "nd_bootstrap_pending (fire_lookups E ids t i rs x) = nd_bootstrap_pending x"
    "nd_relay (fire_lookups E ids t i rs x) = nd_relay x" for E ids t i rs x
    by (induction rs arbitrary: i x) (simp_all add: issue_lookup_def)
  show ?thesis
    using r d assms
    by (auto simp: maintenance_def public_addr_maintenance_def bootstrap_maintenance_def relay_maintenance_def
        PUBLISH_INTERVAL_def Let_def f g)
qed

section \<open>Witnesses\<close>

theorem node_runs_behaviour_witness:
  "\<exists>ops nd s res. reachable (node_init ref_crates) (node_next ref_crates ref_record_json) (ops, nd) \<and>
     hm_get (bh_sessions (nd_session nd)) (rn_id sample_run False) = Some (sample_t True, sample_c True, s) \<and>
     vouched ref_crates (nd_identity nd) {f. (sample_t True, sample_c True, f) \<in> set (node_frames ops)} res"
proof -
  obtain s where s: "hm_get (bh_sessions (sample_side True 5)) (rn_id sample_run False)
      = Some (sample_t True, sample_c True, s)" by (rule sample_session)
  have new: "node_new ref_crates (sample_surroundings 10000) (rn_dev sample_run True) empty_disk sample_options
      = Some (Inr (sample_node 1))" using sample_node_new [of 1] by (simp add: sample_dev)
  obtain ops where ops: "reachable (node_init ref_crates) (node_next ref_crates ref_record_json)
      (ops, (sample_node 1)\<lparr>nd_session := sample_side True 5\<rparr>)"
    using node_follows_behaviour [OF new sample_reachable [of 5 True]] by auto
  let ?nd = "(sample_node 1)\<lparr>nd_session := sample_side True 5\<rparr>"
  have s': "hm_get (bh_sessions (nd_session ?nd)) (rn_id sample_run False)
      = Some (sample_t True, sample_c True, s)" using s by simp
  then obtain res where "vouched ref_crates (nd_identity ?nd)
      {f. (sample_t True, sample_c True, f) \<in> set (node_frames ops)} res"
    using node_runs_behaviour [OF ops] by blast
  with ops s' show ?thesis by blast
qed



text \<open>Node 1 publishes two addresses, node 2 looks it up.\<close>

definition publisher :: node where
  "publisher = (sample_node 1)\<lparr>nd_current_addrs := sample_addrs\<rparr>"

definition seeker :: node where
  "seeker = fst (node_lookup ref_crates (sample_surroundings 10000) (di_peer_id (sample_device 1)) (sample_node 2))"

lemma seeker_fields [simp]:
  "nd_pending_lookups seeker = [(0, \<lparr>lq_peer = di_peer_id (sample_device 1), lq_attempts = 1\<rparr>)]"
  "nd_dialing seeker = []" "nd_records seeker = []" "nd_session seeker = behaviour_new (sample_device 2)"
  by (simp_all add: seeker_def node_lookup_def issue_lookup_def hm_insert_def)

lemma publisher_fields [simp]:
  "nd_identity publisher = sample_device 1" "nd_current_addrs publisher = sample_addrs"
  "nd_validated_public_addrs publisher = []"
  by (simp_all add: publisher_def)

lemma sample_record_small:
  assumes "publish_record ref_crates ref_record_json (sample_surroundings 10000) publisher = Some a'"
    and "nd_orders a' = nd_orders publisher @ [KadPutRecord k bs]"
  shows "length bs \<le> MAX_RECORD_BYTES"
proof -
  obtain r where r: "sign_addr_record ref_crates (sample_device 1) sample_addrs 1000 [] = Some r"
    "bs = the (ref_record_to_vec r)"
    using assms by (auto simp: publish_record_def record_to_bytes_def ref_record_json_def push_new_def Let_def
        split: option.splits)
  have "length (public_key_bytes ref_crates (sample_device 1)) = 1952"
    by (simp add: public_key_bytes_def pubkey_to_bytes_def ref_crates_def sample_device_props(3) sk_verifying_key_def
        sk_from_seed_def)
  moreover have "length (di_device_uuid (sample_device 1)) = 16" "length (ui_user_id (di_user (sample_device 1))) = 16"
    using sample_device_props(1) [of 1] unfolding wf_identity_def by blast+
  moreover have "length sig = 3309" if "di_sign ref_crates (sample_device 1) m [] = Some sig" for m sig
    using that wf_identity_sign [OF ref_dsa_correct sample_device_props(1) [of 1], of m "[]"]
    by (metis SIG_LEN_def option.inject)
  moreover have "length (ma_to_string ref_crates (Multiaddr [Ip4 a, Tcp b])) = 16" for a b
    by (simp add: ref_crates_def show_multiaddr_def length_print_bytes be_length)
  moreover have "b64_encode ref_crates = chars_of" "hex_encode ref_crates = chars_of"
    "pid_to_base58 ref_crates (PeerId x) = chars_of x" for x by (simp_all add: ref_crates_def)
  ultimately show ?thesis
    using r(1) unfolding r(2)
    by (auto simp: sign_addr_record_def Let_def ref_record_to_vec_def put_len_def sample_device_props
        sample_device_peer_id MAX_RECORD_BYTES_def MAX_ADDRS_def RECORD_KIND_def be_length chars_of_def split: option.splits)
qed


theorem node_records_vetted_witness:
  "\<exists>ops nd v. reachable (node_init ref_crates) (node_next ref_crates ref_record_json) (ops, nd) \<and>
     hm_get (nd_records nd) (di_peer_id (sample_device 1)) = Some v \<and>
     vr_peer_id v = di_peer_id (sample_device 1) \<and> vr_addrs v \<noteq> []"
proof -
  let ?p = "di_peer_id (sample_device 1)"
  have pre: "wf_identity ref_crates (nd_identity publisher)" "ui_user_name (di_user (nd_identity publisher)) \<noteq> []"
    "length (ui_user_name (di_user (nd_identity publisher))) \<le> 64"
    "sample_addrs = push_new (nd_validated_public_addrs publisher) (nd_current_addrs publisher)"
    by (simp_all add: sample_device_props push_new_def)
  have now: "now_unix (su_secs (sample_surroundings t)) = 1000" for t by (simp add: now_unix_1000)
  obtain a' r bs where puts: "publish_record ref_crates ref_record_json (sample_surroundings 10000) publisher = Some a'"
    "nd_orders a' = nd_orders publisher @ [KadPutRecord (pid_to_bytes ref_crates (di_peer_id (nd_identity publisher))) bs]"
    "rj_from_slice ref_record_json bs = Some r"
    "verify_addr_record ref_crates (pid_to_bytes ref_crates (di_peer_id (nd_identity publisher))) r 1000 = Some (Inr
      \<lparr>vr_peer_id = di_peer_id (nd_identity publisher), vr_user_id = ui_user_id (di_user (nd_identity publisher)),
       vr_user_name = ui_user_name (di_user (nd_identity publisher)), vr_device_uuid = di_device_uuid (nd_identity publisher),
       vr_transport_peer = transport_peer_id ref_crates (nd_identity publisher), vr_addrs = take MAX_ADDRS sample_addrs,
       vr_issued_at = now_unix (su_secs (sample_surroundings 10000))\<rparr>)"
    by (rule publish_record_puts [OF ref_dsa_correct ref_peer_ids_ok ref_text_codecs_ok ref_record_json_ok pre
          sample_publishable, of "sample_surroundings 10000" 1000]) (simp_all add: now_unix_1000)
  then obtain v where b: "verify_addr_record ref_crates (pid_to_bytes ref_crates ?p) r 1000 = Some (Inr v)"
    "vr_peer_id v = ?p" "vr_addrs v \<noteq> []" by (simp add: MAX_ADDRS_def)
  obtain b' where b': "on_kad_event ref_crates ref_record_json (sample_surroundings 11000)
      (OutboundQueryProgressed 0 (FoundRecord (pid_to_bytes ref_crates ?p) bs)) seeker = Some b'"
    "hm_get (nd_records b') (vr_peer_id v) = Some v"
    using found_record_dials [OF puts(3) sample_record_small [OF puts(1,2)], where S = "sample_surroundings 11000"
        and b = seeker and q = 0 and E = ref_crates, unfolded now, OF b(1,3)] by (auto simp: hm_get_def)
  have "reachable (node_init ref_crates) (node_next ref_crates ref_record_json) ([NodeLookup ?p], seeker)"
    using node_reach_step [OF sample_init, of ref_record_json "sample_surroundings 10000" "NodeLookup ?p" 2]
    by (simp add: seeker_def)
  from node_reach_step [OF this, of "sample_surroundings 11000"
      "NodeEvent (SwKad (OutboundQueryProgressed 0 (FoundRecord (pid_to_bytes ref_crates ?p) bs)))"]
  have r: "\<exists>ops. reachable (node_init ref_crates) (node_next ref_crates ref_record_json) (ops, b')"
    using b'(1) by auto
  then obtain ops where ops: "reachable (node_init ref_crates) (node_next ref_crates ref_record_json) (ops, b')"
    by blast
  have g: "hm_get (nd_records b') ?p = Some v" using b'(2) b(2) by simp
  then have "vr_peer_id v = ?p \<and> vr_addrs v \<noteq> []" using node_records_vetted [OF ops] by blast
  with ops g show ?thesis by blast
qed


text \<open>A cached record of device \<open>[2]\<close>, which had a session.\<close>

definition sample_verified :: verified_record where
  "sample_verified = \<lparr>vr_peer_id = PeerId [2], vr_user_id = [], vr_user_name = ''user'', vr_device_uuid = [],
     vr_transport_peer = PeerId [20], vr_addrs = sample_addrs, vr_issued_at = 1000\<rparr>"


definition sample_relay :: bootstrap_peer where
  "sample_relay = \<lparr>bp_peer_id = ''relay'', bp_addrs = [ma_to_string ref_crates (Multiaddr [Ip4 5, Tcp 80])]\<rparr>"

definition circuit :: multiaddr where
  "circuit = Multiaddr [Ip4 5, Tcp 80, P2p (PeerId [7]), P2pCircuit]"

theorem relayed_record_rejected_witness:
  "\<exists>nd'. handle_event ref_crates ref_record_json (sample_surroundings 10000) (SwNewListenAddr circuit)
       ((sample_node 1)\<lparr>nd_current_addrs := [Multiaddr [Ip4 1, Tcp 9000]]\<rparr>) = Some nd' \<and>
     (\<forall>v. verify_addr_record ref_crates [] (nd_our_record nd') 1000 \<noteq> Some (Inr v))"
proof -
  let ?start = "(sample_node 1)\<lparr>nd_relay := Some sample_relay\<rparr>"
    and ?nd = "(sample_node 1)\<lparr>nd_current_addrs := [Multiaddr [Ip4 1, Tcp 9000]]\<rparr>"
  have addr: "bootstrap_multiaddrs ref_crates sample_relay = [Multiaddr [Ip4 5, Tcp 80]]"
    by (simp add: bootstrap_multiaddrs_def sample_relay_def List.map_filter_def
        text_codecs_simps(3) [OF ref_text_codecs_ok])
  have pid: "bootstrap_peer_id ref_crates sample_relay = Some (PeerId (as_bytes ''relay''))"
    by (simp add: bootstrap_peer_id_def sample_relay_def ref_crates_def)
  have "\<exists>nd1. resolve_relay ref_crates (PeerId [7]) (Dialer (Multiaddr [Ip4 5, Tcp 80]) False) ?start = Some nd1 \<and>
      ListenOn circuit \<in> set (nd_orders nd1) - set (nd_orders ?start)"
    by (simp add: resolve_relay_def addr pid ma_with_def circuit_def)
  then obtain nd1 where
    o1: "resolve_relay ref_crates (PeerId [7]) (Dialer (Multiaddr [Ip4 5, Tcp 80]) False) ?start = Some nd1"
    and o2: "ListenOn circuit \<in> set (nd_orders nd1) - set (nd_orders ?start)" by blast
  obtain nd' where s: "handle_event ref_crates ref_record_json (sample_surroundings 10000) (SwNewListenAddr circuit) ?nd
      = Some nd'"
    using sample_publish [of "?nd\<lparr>nd_current_addrs := [Multiaddr [Ip4 1, Tcp 9000], circuit]\<rparr>" 1 10000]
    by (auto simp: on_new_listen_addr_def note_listen_addr_def circuit_def)
  have "verify_addr_record ref_crates [] (nd_our_record nd') 1000 \<noteq> Some (Inr v)" for v
    using relayed_record_rejected [OF ref_text_codecs_ok o1 o2 _ _ s, of "[]" 1000 v]
    by (simp add: circuit_def push_new_def MAX_ADDRS_def)
  with s show ?thesis by blast
qed

text \<open>A peer reports the address \<open>V4 9\<close>, then confirms it.\<close>

definition outside :: multiaddr where "outside = Multiaddr [Ip4 9, Tcp 9000]"

definition watched :: node where
  "watched = (sample_node 1)\<lparr>nd_candidates := [(outside, \<lparr>cd_state = CandPending 10000, cd_prober = PeerId [2]\<rparr>)]\<rparr>"

lemma outside_external: "is_external_ip (sample_surroundings now) (V4 9) nd"
  by (simp add: is_external_ip_def is_loopback_def)

lemma outside_candidate: "nd_listen_port nd = 9000 \<Longrightarrow> candidate_for ref_crates (V4 9) nd = Some outside"
  by (simp add: candidate_for_def outside_def text_codecs_simps(3) [OF ref_text_codecs_ok])

lemma watched_reachable:
  "\<exists>ops. reachable (node_init ref_crates) (node_next ref_crates ref_record_json) (ops, watched)"
proof -
  let ?ev = "NodeEvent (SwSession (ObservedAddrReported (PeerId [2]) (V4 9) 5))"
  have "node_step ref_crates ref_record_json (sample_surroundings 10000) ?ev (sample_node 1) = Some watched"
    by (simp add: on_observed_addr_def outside_external outside_candidate request_dial_back_def hm_insert_def
        hm_get_def watched_def session_peers_def behaviour_new_def node_has_session_def has_session_def hm_keys_def)
  then show ?thesis using node_reach_step [OF sample_init] by blast
qed

theorem public_maintenance_exact_witness:
  "\<exists>ops nd'. reachable (node_init ref_crates) (node_next ref_crates ref_record_json) (ops, watched) \<and>
     public_addr_maintenance ref_crates (sample_surroundings 25000) watched = Some nd' \<and>
     map_option cd_state (hm_get (nd_candidates nd') outside) = Some (CandRejected 1)"
proof -
  obtain ops where r: "reachable (node_init ref_crates) (node_next ref_crates ref_record_json) (ops, watched)"
    using watched_reachable by blast
  obtain nd' where m: "public_addr_maintenance ref_crates (sample_surroundings 25000) watched = Some nd'"
    by (simp add: public_addr_maintenance_def watched_def duration_since_def expire_candidate_def reject_candidate_def
        reject_state_def hm_get_def hm_insert_def VALIDATION_TIMEOUT_def Let_def)
  have "hm_get (nd_candidates watched) outside = Some \<lparr>cd_state = CandPending 10000, cd_prober = PeerId [2]\<rparr>"
    by (simp add: watched_def hm_get_def)
  then have "map_option cd_state (hm_get (nd_candidates nd') outside) = Some (CandRejected 1)"
    using public_maintenance_exact [OF r m] by (auto simp: duration_since_def)
  with r m show ?thesis by blast
qed


theorem public_addrs_validated_witness:
  "\<exists>ops nd. reachable (node_init ref_crates) (node_next ref_crates ref_record_json) (ops, nd) \<and>
     outside \<in> set (nd_validated_public_addrs nd) \<and>
     (\<exists>p. NodeEvent (SwSession (DialBackResolved p outside True)) \<in> set ops)"
proof -
  obtain ops where r: "reachable (node_init ref_crates) (node_next ref_crates ref_record_json) (ops, watched)"
    using watched_reachable by blast
  let ?nd = "watched\<lparr>nd_candidates := [(outside, \<lparr>cd_state = CandValidated 11000, cd_prober = PeerId [2]\<rparr>)],
      nd_validated_public_addrs := [outside]\<rparr>"
  have "on_dial_back_res ref_crates ref_record_json (sample_surroundings 11000) (PeerId [2]) outside True watched
      = publish_record ref_crates ref_record_json (sample_surroundings 11000) ?nd"
    by (simp add: on_dial_back_res_def watched_def hm_get_def hm_insert_def push_new_def)
  then obtain nd' where s: "node_step ref_crates ref_record_json (sample_surroundings 11000)
      (NodeEvent (SwSession (DialBackResolved (PeerId [2]) outside True))) watched = Some nd'"
    and v: "nd_validated_public_addrs nd' = [outside]"
    using sample_publish [of ?nd 1 11000] by (auto simp: watched_def)
  note r' = node_reach_step [OF r s]
  have "outside \<in> set (nd_validated_public_addrs nd')" by (simp add: v)
  then show ?thesis using r' public_addrs_validated [OF r'] by blast
qed

theorem validation_budget_resets_witness:
  "\<exists>nd1 nd2. on_observed_addr ref_crates (sample_surroundings 10000) (PeerId [2]) (V4 9) 5
       (watched\<lparr>nd_candidates := [(outside, \<lparr>cd_state = CandRejected 2, cd_prober = PeerId [2]\<rparr>)]\<rparr>) = Some nd1 \<and>
     public_addr_maintenance ref_crates (sample_surroundings 25000) nd1 = Some nd2 \<and>
     map_option cd_state (hm_get (nd_candidates nd2) outside) = Some (CandRejected 1)"
proof -
  let ?nd = "watched\<lparr>nd_candidates := [(outside, \<lparr>cd_state = CandRejected 2, cd_prober = PeerId [2]\<rparr>)]\<rparr>"
  have o: "on_observed_addr ref_crates (sample_surroundings 10000) (PeerId [2]) (V4 9) 5 ?nd = Some watched"
    by (simp add: on_observed_addr_def outside_external outside_candidate request_dial_back_def hm_insert_def
        hm_get_def watched_def session_peers_def behaviour_new_def node_has_session_def has_session_def hm_keys_def
        MAX_VALIDATION_ATTEMPTS_def)
  obtain nd2 where m: "public_addr_maintenance ref_crates (sample_surroundings 25000) watched = Some nd2"
    by (simp add: public_addr_maintenance_def watched_def duration_since_def expire_candidate_def reject_candidate_def
        reject_state_def hm_get_def hm_insert_def VALIDATION_TIMEOUT_def Let_def)
  have "map_option cd_state (hm_get (nd_candidates watched) outside) = Some (CandPending (su_now (sample_surroundings 10000))) \<and>
      map_option cd_state (hm_get (nd_candidates nd2) outside) = Some (CandRejected 1)"
    by (rule validation_budget_resets [OF _ _ outside_external outside_candidate _ _ _ _ o m,
          where c = "\<lparr>cd_state = CandRejected 2, cd_prober = PeerId [2]\<rparr>" and n = 2])
      (simp_all add: watched_def hm_get_def hm_wf_def MAX_VALIDATION_ATTEMPTS_def)
  with o m show ?thesis by blast
qed


theorem lookup_reply_drains_cache_witness:
  "\<exists>it. interactive_tick ref_crates ref_record_json (sample_surroundings 12000)
       \<lparr>it_node = (sample_node 1)\<lparr>nd_records := [(PeerId [2], sample_verified)]\<rparr>,
        it_waiters = [(11000, 4), (12000, 5)], it_replies = []\<rparr> = Some it \<and>
     nd_records (it_node it) = [] \<and> (5, ReplyLookup []) \<in> set (it_replies it)"
proof -
  let ?it = "\<lparr>it_node = (sample_node 1)\<lparr>nd_records := [(PeerId [2], sample_verified)]\<rparr>,
      it_waiters = [(11000, 4), (12000, 5)], it_replies = []\<rparr>"
  obtain nd where m: "maintenance ref_crates ref_record_json (sample_surroundings 12000) (it_node ?it) = Some nd"
    using sample_maintenance [of "it_node ?it" 12000] by auto
  then obtain it where t: "interactive_tick ref_crates ref_record_json (sample_surroundings 12000) ?it = Some it"
    by (simp add: interactive_tick_def Let_def)
  show ?thesis
    using t lookup_reply_drains_cache [OF t m, of "(11000, 4)" "[(12000, 5)]"] by simp
qed


theorem node_never_panics_witness:
  "\<exists>nd'. node_step ref_crates ref_record_json (sample_surroundings 70000)
     (NodeEvent (SwKad (OutboundQueryProgressed 0 (FoundRecord [] [])))) seeker = Some nd'"
proof (rule node_never_panics [OF ref_hash_sized ref_peer_ids_ok ref_kdf_total ref_dsa_correct ref_aead_correct
      ref_record_json_ok, of "[NodeLookup (di_peer_id (sample_device 1))]"])
  show "reachable (node_init ref_crates) (node_next ref_crates ref_record_json)
      ([NodeLookup (di_peer_id (sample_device 1))], seeker)"
    using node_reach_step [OF sample_init, of ref_record_json "sample_surroundings 10000"
        "NodeLookup (di_peer_id (sample_device 1))" 2] by (simp add: seeker_def)
qed (simp_all add: seeker_def node_lookup_def issue_lookup_def sample_device_props seal_room_def behaviour_new_def
    ref_crates_def [THEN arg_cong [of _ _ overflow_checks]] ref_crates_def [THEN arg_cong [of _ _ debug_assertions]])

end
