(* ===== verification/Cli_Run.thy ===== *)
theory Cli_Run
  imports Cli Node_Run
begin

text \<open>
  The commands on a concrete machine: an empty data directory, a working file system, and the
  reference instances of the libraries.
\<close>

definition sample_common :: common where
  "sample_common = \<lparr>cm_data_dir = Some ''d'', cm_listen_port = None, cm_bootstrap = [], cm_relay = [],
     cm_relay_server = False\<rparr>"

definition sample_env :: "disk \<Rightarrow> cli_env" where
  "sample_env dk = \<lparr>ce_data_dir_var = None, ce_home = Some ''/h'', ce_disks = (\<lambda>_. dk), ce_faults = (\<lambda>_. no_faults),
     ce_entropy = (\<lambda>i. if i = 1 then replicate 32 1 else replicate 16 1), ce_surroundings = sample_surroundings 10000\<rparr>"

lemma sample_env_fields [simp]:
  "disk_of (sample_env dk) sample_common = dk" "data_dir (sample_env dk) sample_common = ''d''"
  "ce_faults (sample_env dk) i = no_faults" "ce_surroundings (sample_env dk) = sample_surroundings 10000"
  "cm_bootstrap sample_common = []" "cm_relay sample_common = []" "cm_listen_port sample_common = None"
  "cm_relay_server sample_common = False"
  by (simp_all add: sample_env_def sample_common_def disk_of_def data_dir_def)

lemma sample_init_ok:
  obtains env' out where "cmd_init ref_crates ref_json (sample_env empty_disk) sample_common ''user'' = Some (env', Inr out)"
proof -
  have "load_identity ref_crates ref_json no_faults r empty_disk = Some (Inr None)" for r
    by (simp add: load_identity_def empty_disk_def)
  moreover obtain d where "device_generate ref_crates ''user'' (replicate 32 1) (replicate 16 1) (replicate 16 1)
      (replicate 16 1) = Some d"
    by (auto simp: device_generate_def assemble_def peer_id_of_def ref_crates_def Let_def)
  moreover obtain kp64 where "encode_keypair ref_crates (di_transport_keypair d) = Some kp64"
    by (rule keypair_codec [OF ref_text_codecs_ok])
  ultimately show thesis
    using that
    by (simp add: cmd_init_def sample_env_def [of empty_disk] sample_common_def disk_of_def data_dir_def MAX_USER_NAME_def
        save_identity_def save_config_def ensure_def no_faults_def ref_json_def ref_identity_to_string_def
        write_atomic_def Let_def)
qed


definition quiet_script :: cli_script where
  "quiet_script = \<lparr>sc_first = [], sc_second = [], sc_at = sample_surroundings 10000, sc_third = [], sc_connected = [],
     sc_lines = [], sc_occurrences = []\<rparr>"


text \<open>A node on a directory that holds the identity of device 1.\<close>

lemma sample_new_node:
  obtains dk env' nd where "new_node ref_crates ref_json (sample_env dk) sample_common = Some (env', Inr nd)"
    "nd_session nd = behaviour_new (sample_device 1)" "nd_pending_probes nd = []" "nd_pending_lookups nd = []"
proof -
  obtain dk where s: "save_identity ref_crates ref_json no_faults (sample_device 1) empty_disk = Some (dk, Inr ())"
    by (rule sample_saved)
  have "hm_get (dk_files dk) CONFIG_FILE = None"
    using s by (auto simp: save_identity_def ensure_def no_faults_def write_atomic_def empty_disk_def Let_def
        CONFIG_FILE_def IDENTITY_FILE_def split: option.splits sum.splits prod.splits if_splits)
  then have cfg: "load_config ref_json no_faults dk = Inr default_config"
    by (simp add: load_config_def hm_contains_def)
  have ident: "load_identity ref_crates ref_json no_faults r (dk\<lparr>dk_dir := True\<rparr>) = Some (Inr (Some (sample_device 1)))" for r
    using load_identity_cong [of "dk\<lparr>dk_dir := True\<rparr>" dk]
      saved_identity_loads [OF ref_text_codecs_ok ref_json_ok sample_device_props(1) s, of no_faults r]
    by (simp add: no_faults_def)
  obtain rec0 where "sign_addr_record ref_crates (sample_device 1) [] 1000 [] = Some rec0"
    by (rule sign_record_total [OF ref_dsa_correct sample_device_props(1)])
  moreover have "listen_addr ref_crates p = Some (Multiaddr [Ip4 0, Tcp p])" for p
    by (simp add: listen_addr_def text_codecs_simps(3) [OF ref_text_codecs_ok])
  moreover have "ensure no_faults 0 dk = (dk\<lparr>dk_dir := True\<rparr>, Inr ())" by (simp add: ensure_def no_faults_def)
  ultimately have "\<exists>env' nd. new_node ref_crates ref_json (sample_env dk) sample_common = Some (env', Inr nd) \<and>
      nd_session nd = behaviour_new (sample_device 1) \<and> nd_pending_probes nd = [] \<and> nd_pending_lookups nd = []"
    using cfg ident by (auto simp: new_node_def build_options_def cli_load_identity_def node_new_def Let_def)
  then show thesis using that by blast
qed

lemma send_message_id: "node_send_message E S p body nd = Some (nd', i) \<Longrightarrow> i = am_rid (su_amb S 0)"
  by (auto simp: node_send_message_def send_message_def Let_def split: option.splits prod.splits sum.splits)


end
