(* ===== verification/Spec2Isabelle.thy ===== *)
theory Spec2Isabelle
  imports Cli_Run
begin

text \<open>
  Verification of JeanGrey, a peer-to-peer messenger whose sessions are keyed by a post-quantum
  handshake.

  \<^bold>\<open>The program.\<close>  A device has an ML-DSA signing key; its Peer ID is the hash of the public key
  (\<open>src/identity.rs\<close>).  It publishes a signed list of its addresses in a Kademlia DHT
  (\<open>src/records.rs\<close>).  A node that looks a device up verifies the record and dials it.  On the new
  connection a handler reads and writes frames (\<open>src/framing.rs\<close>, first half of
  \<open>src/transport.rs\<close>), a behaviour keeps the tables of handshakes and sessions (second half of
  \<open>src/transport.rs\<close>), and both sides run a five-message handshake (\<open>src/handshake.rs\<close>) over
  ML-KEM, ML-DSA, HKDF and ChaCha20-Poly1305 (\<open>src/crypto.rs\<close>).  Its result keys a session that seals
  messages, acknowledgements and control frames (\<open>src/session.rs\<close>).  The node
  (\<open>src/node.rs\<close>) owns the behaviour, reacts to events and ticks, keeps the record cache, lookups,
  re-dials and validated public addresses; the commands (\<open>src/cli.rs\<close>) build a node from the files of
  \<open>src/storage.rs\<close> and drive it.

  \<^bold>\<open>Theories and sources.\<close>
  \<^item> \<open>Prelude\<close>: machine integers, bytes, UTF-8, hash maps as association lists (iterated in list
    order), \<open>for_each\<close>, reachability, and the contracts \<open>fixed_codec\<close>, \<open>hash_map\<close>,
    \<open>invariant_system\<close> and \<open>change_refinement\<close>.
  \<^item> \<open>Crates\<close>: the third-party crates as a record of functions, what is relied on as named
    predicates, and one instance that satisfies all of them.
  \<^item> \<open>Framing\<close>, \<open>Crypto\<close>, \<open>Identity\<close>, \<open>Handshake\<close>, \<open>Session\<close>, \<open>Records\<close>, \<open>Storage\<close>: the files of the
    same names, one definition per function.
  \<^item> \<open>Handler\<close>: \<open>SessionHandler\<close>.  \<open>Behaviour\<close>: \<open>SessionBehaviour\<close> with all its operations.
  \<^item> \<open>Node\<close>, \<open>Node_Events\<close>: \<open>Node\<close> with every method and every arm of \<open>handle_event\<close>; the record
    \<open>node\<close> has the fields of the struct, with the swarm split into the session behaviour
    (\<open>nd_session\<close>) and the list of what the node ordered from the other libp2p behaviours
    (\<open>nd_orders\<close>).  \<open>Node_Loop\<close>: \<open>wait_for\<close>, \<open>next_event\<close>, \<open>run\<close>, \<open>run_for\<close>, \<open>run_interactive\<close>.
  \<^item> \<open>Cli\<close>: \<open>init\<close>, \<open>node\<close> with its REPL, \<open>lookup\<close>, \<open>send\<close> and \<open>peers\<close>, and their dispatch.
  \<^item> \<open>Handshake_Run\<close>, \<open>Behaviour_Inv\<close>, \<open>Behaviour_Spec\<close>, \<open>Behaviour_Run\<close>, \<open>Node_Inv\<close>, \<open>Node_Sessions\<close>,
    \<open>Node_Total\<close>, \<open>Node_Discovery\<close>, \<open>Node_Public\<close>, \<open>Node_Disk\<close>, \<open>Node_Run\<close>, \<open>Cli_Run\<close>: proofs
    about the components, two-party runs, and concrete instances.

  \<^bold>\<open>Conventions.\<close>  A call that may panic returns an option, \<open>None\<close> being the panic; an error the
  code returns is the left side of a sum.  Integers have their width; a plain Rust addition is
  \<open>plain_add\<close>, which panics or wraps according to the build.  Entropy, clocks, query
  identifiers, interface scans and file-system failures are arguments (\<open>ambient\<close>,
  \<open>surroundings\<close>, \<open>fault_plan\<close>, \<open>cli_env\<close>), so the theorems hold for every value of them.
  Instants count milliseconds from an origin that lies at least five seconds before the
  node starts, since \<open>Node::new\<close> subtracts five seconds from the current instant.

  \<^bold>\<open>What is shown.\<close>
  \<^item> Bytes and frames: \<open>decode\<close> accepts exactly the encodings (\<open>Framing\<close>, contract \<open>stream_codec\<close>);
    the handler reassembles any segmentation, writes in order and bounds its buffer (\<open>Handler\<close>).
  \<^item> Handshake: an established result is vouched for by a signature over the transcript and names
    the expected peer; two honest sides always finish with complementary keys, under any
    interleaving (contract \<open>lockstep_duplex\<close>); no message is accepted twice.
  \<^item> Session: only what the peer sealed, in order and once, is delivered; nonces are never
    reused; a whole stream arrives (contract \<open>ordered_channel\<close>).
  \<^item> Behaviour: every session in the table comes from an authenticated handshake on its own
    connection, no sequence of calls panics, the tables refine an abstract directory
    (\<open>change_refinement\<close>), queued and later messages are delivered and acknowledged.
  \<^item> Node: its steps touch the behaviour only through the behaviour's operations, so the
    session guarantees carry over; no step of it panics in a release build; a lookup costs at most
    ten queries; the record cache holds verified records only; a published record makes a seeking node dial; a lost session is
    dialled again; only confirmed addresses are published; the interactive loop answers each
    command once.
  \<^item> Records, identity, storage, commands: signing and verifying are inverse, the Peer ID binds the
    key, saving is atomic, a loaded identity is well-formed, what \<open>init\<close> creates \<open>node\<close> runs,
    \<open>send\<close> reports what happened, and no command damages an existing identity.
  \<^item> Defects, each a theorem on the model of the code as it is: the overflow in the freshness test, the
    undiscoverable relayed node, the reset validation budget, the drained record cache, the
    duplicate window that is never consulted.

  \<^bold>\<open>Contracts.\<close>  Interfaces are locales, each interpreted on the model's definitions:
  \<open>fixed_codec\<close> on the big-endian codecs of 16, 32, 64 and 128 bits, \<open>hash_map\<close> on the association
  lists, \<open>stream_codec\<close> on the frames, \<open>ordered_channel\<close> on the sessions, \<open>lockstep_duplex\<close> on two
  handshakes and on two behaviours, \<open>change_refinement\<close> on the behaviour and its directory, and
  \<open>invariant_system\<close> on the handshake, the session, the handler, the behaviour, the node and the
  lookup budget.

  \<^bold>\<open>Bounds and fuel.\<close>  No definition uses fuel: the loops of the code run over finite data and are
  structural or have a measure (the read and write loops of the handler consume the script of
  their stream).  The loops that wait for events take the events that arrive as a finite list; its
  end is the moment the timer fires or the observation stops.  Loops that end only by such an
  event have no termination claim.

  \<^bold>\<open>Not modelled.\<close>  The crates themselves (cryptography, libp2p and its Kademlia, identify,
  AutoNAT, DCUtR and relay behaviours, serde, tokio, clap): they are parameters or inputs.  Log
  lines, which read but never change the state.  Terminal input and output, apart from the lines
  printed.  \<open>src/main.rs\<close> and \<open>src/lib.rs\<close>, which have no logic, and the tests.  Cryptographic hardness is
  not expressed: the security theorems say which checks passed on which bytes, and what an honest
  instance of the primitives then implies.
\<close>

end
